(* ===== verification/Prelude.thy ===== *)
theory Prelude
  imports Main "HOL-Library.Word"
begin

text \<open>
  Shared vocabulary of the development: the machine integers of the Rust sources, their
  saturating operations, the collections of simplification rules the component theories
  extend, and the generic list and option lemmas they share.

  A Rust \<open>String\<close> or \<open>&str\<close> is modelled by its UTF-8 bytes, a HOL \<^typ>\<open>string\<close>: a HOL
  \<^typ>\<open>char\<close> is exactly one byte, so lengths and offsets are the byte lengths and byte
  offsets the Rust code computes with. A \<open>Vec<u8>\<close> is a \<^typ>\<open>string\<close> as well.
\<close>

section \<open>Collections of rules\<close>

named_theorems json_build
  "the equations that turn a sequence of calls on the JSON builder into the text of a value"
named_theorems parse_eval
  "the equations that evaluate the address parser on a literal"

section \<open>Machine integers\<close>

type_synonym u8 = "8 word"
type_synonym u16 = "16 word"
type_synonym u32 = "32 word"
type_synonym u64 = "64 word"

text \<open>An \<open>i64\<close> is a 64-bit word read with \<^const>\<open>sint\<close>; \<open>as u64\<close> keeps the bits.\<close>

type_synonym i64 = "64 word"

definition sat_add :: "'a::len word \<Rightarrow> 'a word \<Rightarrow> 'a word" where
  "sat_add a b = (if unat a + unat b < 2 ^ LENGTH('a) then a + b else -1)"

definition sat_mul :: "'a::len word \<Rightarrow> 'a word \<Rightarrow> 'a word" where
  "sat_mul a b = (if unat a * unat b < 2 ^ LENGTH('a) then a * b else -1)"

definition sat_sub :: "'a::len word \<Rightarrow> 'a word \<Rightarrow> 'a word" where
  "sat_sub a b = (if b \<le> a then a - b else 0)"

lemma unat_max_word: "unat (-1 :: 'a::len word) = 2 ^ LENGTH('a) - 1"
  by (simp add: unsigned_minus_1_eq_mask mask_eq_exp_minus_1)

lemma unat_sat_add: "unat (sat_add a b) = min (unat a + unat b) (2 ^ LENGTH('a) - 1)"
  for a b :: "'a::len word"
proof (cases "unat a + unat b < 2 ^ LENGTH('a)")
  case True
  then show ?thesis by (simp add: sat_add_def unat_word_ariths)
next
  case False
  then show ?thesis by (simp add: sat_add_def unat_max_word)
qed

lemma unat_sat_mul: "unat (sat_mul a b) = min (unat a * unat b) (2 ^ LENGTH('a) - 1)"
  for a b :: "'a::len word"
proof (cases "unat a * unat b < 2 ^ LENGTH('a)")
  case True
  then show ?thesis by (simp add: sat_mul_def unat_word_ariths)
next
  case False
  then show ?thesis by (simp add: sat_mul_def unat_max_word)
qed

lemma unat_sat_sub: "unat (sat_sub a b) = unat a - unat b"
  for a b :: "'a::len word"
proof (cases "b \<le> a")
  case True
  then show ?thesis by (simp add: sat_sub_def unat_sub)
next
  case False
  then have "unat a < unat b" by (simp add: word_less_nat_alt not_le)
  with False show ?thesis by (simp add: sat_sub_def)
qed

lemma sat_add_mono: "a \<le> sat_add a b" for a b :: "'a::len word"
proof -
  have "unat a < 2 ^ LENGTH('a)" by (rule unsigned_less)
  then have "unat a \<le> 2 ^ LENGTH('a) - 1" by linarith
  then show ?thesis
    by (simp add: word_le_nat_alt unat_sat_add)
qed

section \<open>Lists, options and association lists\<close>

text \<open>Rust's \<open>Iterator::find_map\<close> and \<open>filter_map\<close> on a list.\<close>

definition filter_map :: "('a \<Rightarrow> 'b option) \<Rightarrow> 'a list \<Rightarrow> 'b list" where
  "filter_map f xs = List.map_filter f xs"

lemma filter_map_Nil [simp]: "filter_map f [] = []"
  by (simp add: filter_map_def)

lemma filter_map_Cons [simp]:
  "filter_map f (x # xs) = (case f x of None \<Rightarrow> filter_map f xs | Some y \<Rightarrow> y # filter_map f xs)"
  by (simp add: filter_map_def split: option.split)

lemma filter_map_append [simp]: "filter_map f (xs @ ys) = filter_map f xs @ filter_map f ys"
  by (induction xs) (auto split: option.split)

lemma filter_map_map: "(\<And>x. x \<in> set xs \<Longrightarrow> f (g x) = Some (h x)) \<Longrightarrow> filter_map f (map g xs) = map h xs"
  by (induction xs) auto

lemma in_set_filter_map: "y \<in> set (filter_map f xs) \<longleftrightarrow> (\<exists>x \<in> set xs. f x = Some y)"
  by (induction xs) (auto split: option.split)

text \<open>Association lists: selecting entries by their value, and the size of the domain.\<close>

lemma map_of_filter_values:
  "distinct (map fst xs) \<Longrightarrow>
     map_of (filter (\<lambda>(k, v). P v) xs) k = (case map_of xs k of None \<Rightarrow> None | Some v \<Rightarrow> if P v then Some v else None)"
  by (induction xs) (auto split: option.split simp: map_of_eq_None_iff dest: map_of_SomeD)

lemma card_dom_map_of: "distinct (map fst xs) \<Longrightarrow> card (dom (map_of xs)) = length xs"
  by (metis distinct_card dom_map_of_conv_image_fst length_map list.set_map)

lemma nat_sint_pos:
  fixes w :: "'a::len word"
  assumes "\<not> sint w \<le> 0"
  shows "nat (sint w) = unat w" "0 < unat w"
proof -
  have "sint w < 2 ^ LENGTH('a)"
    using sint_lt [of w] by (smt (verit) diff_le_self power_increasing)
  then have "sint w = uint w"
    using assms by (simp add: uint_sint take_bit_int_eq_self)
  with assms show "nat (sint w) = unat w" "0 < unat w" by (auto simp: unat_gt_0)
qed

section \<open>Results\<close>

text \<open>The \<open>?\<close> operator, and \<open>map_err\<close> / \<open>context\<close> on the result of a call.\<close>

definition bind_ok ::
  "('e + 'a) \<times> 'p \<Rightarrow> ('a \<Rightarrow> 'p \<Rightarrow> ('e + 'b) \<times> 'p) \<Rightarrow> ('e + 'b) \<times> 'p" where
  "bind_ok r k = (case r of (Inl e, p) \<Rightarrow> (Inl e, p) | (Inr a, p) \<Rightarrow> k a p)"

definition context_err :: "('e \<Rightarrow> 'f) \<Rightarrow> ('e + 'a) \<times> 'p \<Rightarrow> ('f + 'a) \<times> 'p" where
  "context_err f r = (case r of (Inl e, p) \<Rightarrow> (Inl (f e), p) | (Inr a, p) \<Rightarrow> (Inr a, p))"

lemma bind_ok_simps [simp]:
  "bind_ok (Inl e, p) k = (Inl e, p)" "bind_ok (Inr a, p) k = k a p"
  by (simp_all add: bind_ok_def)

lemma context_err_simps [simp]:
  "context_err f (Inl e, p) = (Inl (f e), p)" "context_err f (Inr a, p) = (Inr a, p)"
  by (simp_all add: context_err_def)

lemma bind_ok_Inr:
  "bind_ok r k = (Inr b, p') \<longleftrightarrow> (\<exists>a q. r = (Inr a, q) \<and> k a q = (Inr b, p'))"
  by (auto simp: bind_ok_def split: prod.splits sum.splits)

end
