(* ===== verification/Rust_Str.thy ===== *)
theory Rust_Str
  imports Prelude
begin

text \<open>
  The string operations of the Rust standard library that the sources call, on UTF-8 byte
  strings: searching and splitting, \<open>lines\<close>, Unicode trimming and \<open>split_whitespace\<close>,
  \<open>from_utf8\<close> / \<open>from_utf8_lossy\<close>, integer parsing and decimal or hexadecimal printing,
  each with the laws the components rely on.
\<close>

section \<open>Searching and splitting\<close>

abbreviation byte :: "char \<Rightarrow> nat" where
  "byte c \<equiv> of_char c"

abbreviation newline :: char where
  "newline \<equiv> CHR 0x0A"

abbreviation carriage_return :: char where
  "carriage_return \<equiv> CHR 0x0D"

abbreviation tab :: char where
  "tab \<equiv> CHR 0x09"

abbreviation quote :: char where
  "quote \<equiv> CHR 0x22"

abbreviation backslash :: char where
  "backslash \<equiv> CHR 0x5C"

fun starts_with :: "string \<Rightarrow> string \<Rightarrow> bool" where
  "starts_with s [] = True"
| "starts_with [] (p # ps) = False"
| "starts_with (c # s) (p # ps) = (c = p \<and> starts_with s ps)"

definition strip_prefix :: "string \<Rightarrow> string \<Rightarrow> string option" where
  "strip_prefix p s = (if starts_with s p then Some (drop (length p) s) else None)"

definition ends_with :: "string \<Rightarrow> string \<Rightarrow> bool" where
  "ends_with s p = starts_with (rev s) (rev p)"

text \<open>\<open>str::find\<close>: the byte offset of the first match.\<close>

fun find_str :: "string \<Rightarrow> string \<Rightarrow> nat option" where
  "find_str p [] = (if p = [] then Some 0 else None)"
| "find_str p (c # s) = (if starts_with (c # s) p then Some 0 else map_option Suc (find_str p s))"

definition contains :: "string \<Rightarrow> string \<Rightarrow> bool" where
  "contains s p = (find_str p s \<noteq> None)"

fun split_char :: "char \<Rightarrow> string \<Rightarrow> string list" where
  "split_char c [] = [[]]"
| "split_char c (x # xs) =
     (if x = c then [] # split_char c xs
      else (case split_char c xs of [] \<Rightarrow> [[x]] | l # ls \<Rightarrow> (x # l) # ls))"

fun split_once :: "char \<Rightarrow> string \<Rightarrow> (string \<times> string) option" where
  "split_once c [] = None"
| "split_once c (x # xs) =
     (if x = c then Some ([], xs) else map_option (\<lambda>(a, b). (x # a, b)) (split_once c xs))"

fun splitn :: "nat \<Rightarrow> char \<Rightarrow> string \<Rightarrow> string list" where
  "splitn 0 c s = []"
| "splitn (Suc 0) c s = [s]"
| "splitn (Suc (Suc n)) c s =
     (case split_once c s of None \<Rightarrow> [s] | Some (a, b) \<Rightarrow> a # splitn (Suc n) c b)"

text \<open>
  \<open>str::lines\<close>: cut after every newline, then remove the newline and a carriage return
  before it. A last line without a newline keeps a trailing carriage return.
\<close>

fun split_inclusive :: "string \<Rightarrow> string list" where
  "split_inclusive [] = []"
| "split_inclusive (c # cs) =
     (if c = newline then [c] # split_inclusive cs
      else (case split_inclusive cs of [] \<Rightarrow> [[c]] | l # ls \<Rightarrow> (c # l) # ls))"

definition strip_eol :: "string \<Rightarrow> string" where
  "strip_eol l =
     (if l \<noteq> [] \<and> last l = newline
      then (let k = butlast l in if k \<noteq> [] \<and> last k = carriage_return then butlast k else k)
      else l)"

definition str_lines :: "string \<Rightarrow> string list" where
  "str_lines s = map strip_eol (split_inclusive s)"

section \<open>Unicode white space\<close>

text \<open>
  The characters with the Unicode property White_Space, by their UTF-8 encodings: six
  ASCII bytes, two two-byte and seventeen three-byte sequences. No lead byte is a
  continuation byte, so a match in a valid string is at a character boundary.
\<close>

definition ascii_ws :: "char \<Rightarrow> bool" where
  "ascii_ws c = (c = CHR 0x20 \<or> (9 \<le> byte c \<and> byte c \<le> 13))"

definition ws2 :: "char \<Rightarrow> char \<Rightarrow> bool" where
  "ws2 a b = (a = CHR 0xC2 \<and> (b = CHR 0x85 \<or> b = CHR 0xA0))"

definition ws3 :: "char \<Rightarrow> char \<Rightarrow> char \<Rightarrow> bool" where
  "ws3 a b c =
     ((a = CHR 0xE1 \<and> b = CHR 0x9A \<and> c = CHR 0x80) \<or>
      (a = CHR 0xE2 \<and> b = CHR 0x80 \<and>
         ((0x80 \<le> byte c \<and> byte c \<le> 0x8A) \<or> c = CHR 0xA8 \<or> c = CHR 0xA9 \<or> c = CHR 0xAF)) \<or>
      (a = CHR 0xE2 \<and> b = CHR 0x81 \<and> c = CHR 0x9F) \<or>
      (a = CHR 0xE3 \<and> b = CHR 0x80 \<and> c = CHR 0x80))"

text \<open>The rest of a string that starts with a white-space character.\<close>

fun ws_rest :: "string \<Rightarrow> string option" where
  "ws_rest [] = None"
| "ws_rest [a] = (if ascii_ws a then Some [] else None)"
| "ws_rest [a, b] = (if ascii_ws a then Some [b] else if ws2 a b then Some [] else None)"
| "ws_rest (a # b # c # r) =
     (if ascii_ws a then Some (b # c # r)
      else if ws2 a b then Some (c # r)
      else if ws3 a b c then Some r else None)"

text \<open>The same at the end of a string, which is given reversed.\<close>

fun ws_rest_rev :: "string \<Rightarrow> string option" where
  "ws_rest_rev [] = None"
| "ws_rest_rev [a] = (if ascii_ws a then Some [] else None)"
| "ws_rest_rev [a, b] = (if ascii_ws a then Some [b] else if ws2 b a then Some [] else None)"
| "ws_rest_rev (a # b # c # r) =
     (if ascii_ws a then Some (b # c # r)
      else if ws2 b a then Some (c # r)
      else if ws3 c b a then Some r else None)"

lemma ws_rest_shorter: "ws_rest s = Some r \<Longrightarrow> length r < length s"
  by (induction s rule: ws_rest.induct) (auto split: if_splits)

lemma ws_rest_rev_shorter: "ws_rest_rev s = Some r \<Longrightarrow> length r < length s"
  by (induction s rule: ws_rest_rev.induct) (auto split: if_splits)

function trim_start :: "string \<Rightarrow> string" where
  "trim_start s = (case ws_rest s of None \<Rightarrow> s | Some r \<Rightarrow> trim_start r)"
  by pat_completeness auto
termination
  by (relation "measure length") (auto dest: ws_rest_shorter)

function trim_end_rev :: "string \<Rightarrow> string" where
  "trim_end_rev s = (case ws_rest_rev s of None \<Rightarrow> s | Some r \<Rightarrow> trim_end_rev r)"
  by pat_completeness auto
termination
  by (relation "measure length") (auto dest: ws_rest_rev_shorter)

declare trim_start.simps [simp del] trim_end_rev.simps [simp del]

definition trim_end :: "string \<Rightarrow> string" where
  "trim_end s = rev (trim_end_rev (rev s))"

definition trim :: "string \<Rightarrow> string" where
  "trim s = trim_end (trim_start s)"

text \<open>
  \<open>str::split_whitespace\<close>, scanning with the word read so far in \<open>acc\<close>; empty words are
  not produced.
\<close>

definition flush_word :: "string \<Rightarrow> string list \<Rightarrow> string list" where
  "flush_word acc ws = (if acc = [] then ws else acc # ws)"

function split_ws_from :: "string \<Rightarrow> string \<Rightarrow> string list" where
  "split_ws_from acc s =
     (case ws_rest s of
        Some r \<Rightarrow> flush_word acc (split_ws_from [] r)
      | None \<Rightarrow> (case s of [] \<Rightarrow> flush_word acc [] | c # cs \<Rightarrow> split_ws_from (acc @ [c]) cs))"
  by pat_completeness auto
termination
  by (relation "measure (\<lambda>(acc, s). length s)") (auto dest: ws_rest_shorter)

declare split_ws_from.simps [simp del]

definition split_whitespace :: "string \<Rightarrow> string list" where
  "split_whitespace s = split_ws_from [] s"

section \<open>UTF-8\<close>

text \<open>
  One step of the decoder of \<open>core::str::lossy\<close> on a non-empty byte string: whether the
  bytes at the front are one encoded character, and how many bytes they are; otherwise the
  length of the maximal ill-formed prefix. Reading past the end gives the byte 0.
\<close>

definition safe_get :: "string \<Rightarrow> nat \<Rightarrow> nat" where
  "safe_get s i = (if i < length s then byte (s ! i) else 0)"

definition is_cont :: "nat \<Rightarrow> bool" where
  "is_cont n = (0x80 \<le> n \<and> n \<le> 0xBF)"

definition utf8_width :: "nat \<Rightarrow> nat" where
  "utf8_width n =
     (if n < 0x80 then 1 else if n < 0xC2 then 0 else if n < 0xE0 then 2
      else if n < 0xF0 then 3 else if n < 0xF5 then 4 else 0)"

definition second3 :: "nat \<Rightarrow> nat \<Rightarrow> bool" where
  "second3 a b =
     (if a = 0xE0 then 0xA0 \<le> b \<and> b \<le> 0xBF
      else if a = 0xED then 0x80 \<le> b \<and> b \<le> 0x9F else is_cont b)"

definition second4 :: "nat \<Rightarrow> nat \<Rightarrow> bool" where
  "second4 a b =
     (if a = 0xF0 then 0x90 \<le> b \<and> b \<le> 0xBF
      else if a = 0xF4 then 0x80 \<le> b \<and> b \<le> 0x8F else is_cont b)"

definition utf8_step :: "string \<Rightarrow> bool \<times> nat" where
  "utf8_step s =
     (let a = safe_get s 0; b = safe_get s 1; c = safe_get s 2; d = safe_get s 3 in
      if utf8_width a = 1 then (True, 1)
      else if utf8_width a = 2 then (if is_cont b then (True, 2) else (False, 1))
      else if utf8_width a = 3 then
        (if \<not> second3 a b then (False, 1) else if is_cont c then (True, 3) else (False, 2))
      else if utf8_width a = 4 then
        (if \<not> second4 a b then (False, 1)
         else if \<not> is_cont c then (False, 2) else if is_cont d then (True, 4) else (False, 3))
      else (False, 1))"

lemma utf8_step_pos: "utf8_step s = (ok, n) \<Longrightarrow> 0 < n"
  by (auto simp: utf8_step_def Let_def split: if_splits)

function utf8_valid :: "string \<Rightarrow> bool" where
  "utf8_valid s =
     (if s = [] then True
      else (case utf8_step s of (ok, n) \<Rightarrow> ok \<and> utf8_valid (drop n s)))"
  by pat_completeness auto
termination
  by (relation "measure length") (auto dest!: utf8_step_pos [OF sym])

definition replacement :: string where
  "replacement = [CHR 0xEF, CHR 0xBF, CHR 0xBD]"

function from_utf8_lossy :: "string \<Rightarrow> string" where
  "from_utf8_lossy s =
     (if s = [] then []
      else (case utf8_step s of
              (ok, n) \<Rightarrow> (if ok then take n s else replacement) @ from_utf8_lossy (drop n s)))"
  by pat_completeness auto
termination
  by (relation "measure length") (auto dest!: utf8_step_pos [OF sym])

declare utf8_valid.simps [simp del] from_utf8_lossy.simps [simp del]

section \<open>Integers as text\<close>

definition to_digit :: "nat \<Rightarrow> char \<Rightarrow> nat option" where
  "to_digit radix c =
     (let n = byte c;
          d = (if 48 \<le> n \<and> n \<le> 57 then Some (n - 48)
               else if 97 \<le> n \<and> n \<le> 122 then Some (n - 87)
               else if 65 \<le> n \<and> n \<le> 90 then Some (n - 55) else None)
      in case d of None \<Rightarrow> None | Some k \<Rightarrow> if k < radix then Some k else None)"

fun digits_value :: "nat \<Rightarrow> nat \<Rightarrow> string \<Rightarrow> nat option" where
  "digits_value radix acc [] = Some acc"
| "digits_value radix acc (c # cs) =
     (case to_digit radix c of None \<Rightarrow> None | Some d \<Rightarrow> digits_value radix (acc * radix + d) cs)"

text \<open>
  \<open>from_str_radix\<close> of an unsigned type with maximum \<open>mx\<close>: a leading plus sign is accepted,
  the empty string and a lone sign are not, a value above the maximum is an error.
\<close>

definition from_str_radix :: "nat \<Rightarrow> nat \<Rightarrow> string \<Rightarrow> nat option" where
  "from_str_radix mx radix s =
     (let ds = (case s of [] \<Rightarrow> [] | c # cs \<Rightarrow> if c = CHR ''+'' then cs else s) in
      if ds = [] then None
      else (case digits_value radix 0 ds of
              None \<Rightarrow> None | Some v \<Rightarrow> if v \<le> mx then Some v else None))"

definition parse_u64 :: "string \<Rightarrow> u64 option" where
  "parse_u64 s = map_option of_nat (from_str_radix (2 ^ 64 - 1) 10 s)"

definition parse_u32 :: "string \<Rightarrow> u32 option" where
  "parse_u32 s = map_option of_nat (from_str_radix (2 ^ 32 - 1) 10 s)"

definition parse_usize :: "string \<Rightarrow> nat option" where
  "parse_usize s = from_str_radix (2 ^ 64 - 1) 10 s"

definition digit_char :: "nat \<Rightarrow> char" where
  "digit_char d = char_of (if d < 10 then 48 + d else 87 + d)"

fun string_of_nat :: "nat \<Rightarrow> string" where
  "string_of_nat n =
     (if n < 10 then [digit_char n] else string_of_nat (n div 10) @ [digit_char (n mod 10)])"

declare string_of_nat.simps [simp del]

definition u64_to_string :: "u64 \<Rightarrow> string" where
  "u64_to_string v = string_of_nat (unat v)"

text \<open>\<open>format!("{:04x}", n)\<close> for a number below 65536.\<close>

definition hex4 :: "nat \<Rightarrow> string" where
  "hex4 n = map (\<lambda>k. digit_char (n div 16 ^ k mod 16)) [3, 2, 1, 0]"

text \<open>\<open>Path::join\<close>: an absolute second path replaces the first.\<close>

definition path_join :: "string \<Rightarrow> string \<Rightarrow> string" where
  "path_join d n =
     (if starts_with n ''/'' then n
      else if d = [] \<or> last d = CHR ''/'' then d @ n
      else d @ ''/'' @ n)"

text \<open>\<open>slice::join\<close> with a separator.\<close>

fun join :: "string \<Rightarrow> string list \<Rightarrow> string" where
  "join sep [] = []"
| "join sep [s] = s"
| "join sep (s # t # ts) = s @ sep @ join sep (t # ts)"

section \<open>Laws of searching and splitting\<close>

lemma starts_with_append [simp]: "starts_with (p @ s) p"
  by (induction p) auto

lemma starts_with_iff: "starts_with s p \<longleftrightarrow> (\<exists>r. s = p @ r)"
  by (induction s p rule: starts_with.induct) auto

lemma strip_prefix_append [simp]: "strip_prefix p (p @ s) = Some s"
  by (simp add: strip_prefix_def)

lemma strip_prefix_Some: "strip_prefix p s = Some r \<longleftrightarrow> s = p @ r"
  by (auto simp: strip_prefix_def starts_with_iff split: if_splits)

lemma find_str_Some: "find_str p s = Some i \<Longrightarrow> \<exists>r. s = take i s @ p @ r"
proof (induction s arbitrary: i)
  case Nil
  then show ?case by (auto split: if_splits)
next
  case (Cons c s)
  then show ?case
    by (fastforce simp: starts_with_iff split: if_splits)
qed

lemma find_str_here: "starts_with s p \<Longrightarrow> find_str p s = Some 0"
  by (cases s; cases p) simp_all

lemma contains_iff: "contains s p \<longleftrightarrow> (\<exists>a b. s = a @ p @ b)"
proof
  show "contains s p \<Longrightarrow> \<exists>a b. s = a @ p @ b"
    by (auto simp: contains_def) (metis find_str_Some)
  have "find_str p (a @ p @ b) \<noteq> None" for a b
    by (induction a) (simp_all add: find_str_here)
  then show "\<exists>a b. s = a @ p @ b \<Longrightarrow> contains s p"
    by (auto simp: contains_def)
qed

lemma split_char_not_Nil [simp]: "split_char c s \<noteq> []"
  by (cases s) (auto split: list.split)

lemma split_char_no_sep [simp]: "c \<notin> set s \<Longrightarrow> split_char c s = [s]"
  by (induction s) auto

lemma split_char_append: "c \<notin> set a \<Longrightarrow> split_char c (a @ c # b) = a # split_char c b"
  by (induction a) auto

lemma split_char_pieces: "p \<in> set (split_char c s) \<Longrightarrow> c \<notin> set p \<and> set p \<subseteq> set s"
proof (induction s arbitrary: p)
  case Nil
  then show ?case by simp
next
  case (Cons x xs)
  obtain l ls where "split_char c xs = l # ls"
    by (cases "split_char c xs") auto
  with Cons show ?case by (fastforce split: if_splits)
qed

lemma split_char_join:
  "ps \<noteq> [] \<Longrightarrow> (\<And>p. p \<in> set ps \<Longrightarrow> c \<notin> set p) \<Longrightarrow> split_char c (join [c] ps) = ps"
proof (induction "[c]" ps rule: join.induct)
  case (3 s t ts)
  then show ?case by (simp add: split_char_append)
qed auto

lemma split_once_append: "c \<notin> set a \<Longrightarrow> split_once c (a @ c # b) = Some (a, b)"
  by (induction a) auto

lemma split_once_None [simp]: "split_once c s = None \<longleftrightarrow> c \<notin> set s"
  by (induction s) auto

lemma split_once_Some: "split_once c s = Some (a, b) \<Longrightarrow> s = a @ c # b \<and> c \<notin> set a"
  by (induction s arbitrary: a b) (auto split: if_splits)

section \<open>Laws of lines\<close>

lemma split_inclusive_eq_Nil [simp]: "split_inclusive s = [] \<longleftrightarrow> s = []"
  by (cases s) (auto split: list.split)

lemma split_inclusive_line:
  "newline \<notin> set a \<Longrightarrow> split_inclusive (a @ newline # b) = (a @ [newline]) # split_inclusive b"
  by (induction a) auto

lemma split_inclusive_last: "newline \<notin> set a \<Longrightarrow> a \<noteq> [] \<Longrightarrow> split_inclusive a = [a]"
proof (induction a)
  case Nil
  then show ?case by simp
next
  case (Cons c a)
  then show ?case by (cases a) auto
qed

lemma split_inclusive_append:
  "split_inclusive (a @ newline # b) = split_inclusive (a @ [newline]) @ split_inclusive b"
  by (induction a) (auto split: list.split)

lemma concat_split_inclusive: "concat (split_inclusive s) = s"
  by (induction s) (auto split: list.splits)

lemma str_lines_append:
  "str_lines (a @ newline # b) = str_lines (a @ [newline]) @ str_lines b"
  unfolding str_lines_def by (subst split_inclusive_append) simp

lemma str_lines_Nil [simp]: "str_lines [] = []"
  by (simp add: str_lines_def)

text \<open>A line that \<open>println!\<close> writes and \<open>lines\<close> reads back unchanged.\<close>

definition line_ok :: "string \<Rightarrow> bool" where
  "line_ok l = (newline \<notin> set l \<and> (l = [] \<or> last l \<noteq> carriage_return))"

lemma str_lines_line: "line_ok l \<Longrightarrow> str_lines (l @ newline # b) = l # str_lines b"
  by (auto simp: str_lines_def split_inclusive_line strip_eol_def line_ok_def)

text \<open>The text \<open>println!\<close> produces for a list of lines.\<close>

definition print_lines :: "string list \<Rightarrow> string" where
  "print_lines ls = concat (map (\<lambda>l. l @ [newline]) ls)"

lemma str_lines_print_lines: "list_all line_ok ls \<Longrightarrow> str_lines (print_lines ls) = ls"
  by (induction ls) (auto simp: print_lines_def str_lines_line)

section \<open>Laws of white space\<close>

text \<open>A printable ASCII character other than the space.\<close>

definition plain :: "char \<Rightarrow> bool" where
  "plain c = (33 \<le> byte c \<and> byte c \<le> 126)"

lemma plain_not_special [simp]:
  "plain c \<Longrightarrow> c \<noteq> newline \<and> c \<noteq> carriage_return \<and> c \<noteq> CHR '' '' \<and> c \<noteq> tab \<and> \<not> ascii_ws c"
  by (auto simp: plain_def ascii_ws_def)

lemma plain_not_ws2: "plain a \<Longrightarrow> \<not> ws2 a b" "plain b \<Longrightarrow> \<not> ws2 a b"
  by (auto simp: plain_def ws2_def)

lemma plain_not_ws3: "plain a \<Longrightarrow> \<not> ws3 a b c" "plain c \<Longrightarrow> \<not> ws3 a b c"
  by (auto simp: plain_def ws3_def)

lemma ws_rest_plain [simp]: "plain c \<Longrightarrow> ws_rest (c # s) = None"
  by (cases "c # s" rule: ws_rest.cases) (auto simp: plain_not_ws2 plain_not_ws3)

lemma ws_rest_rev_plain [simp]: "plain c \<Longrightarrow> ws_rest_rev (c # s) = None"
  by (cases "c # s" rule: ws_rest_rev.cases) (auto simp: plain_not_ws2 plain_not_ws3)

lemma ws_rest_space [simp]: "ws_rest (CHR '' '' # s) = Some s"
  by (cases "CHR '' '' # s" rule: ws_rest.cases) (auto simp: ascii_ws_def)

lemma ws_rest_rev_space [simp]: "ws_rest_rev (CHR '' '' # s) = Some s"
  by (cases "CHR '' '' # s" rule: ws_rest_rev.cases) (auto simp: ascii_ws_def)

lemma trim_start_Nil [simp]: "trim_start [] = []"
  by (subst trim_start.simps) simp

lemma trim_start_plain [simp]: "plain c \<Longrightarrow> trim_start (c # s) = c # s"
  by (subst trim_start.simps) simp

lemma trim_start_space [simp]: "trim_start (CHR '' '' # s) = trim_start s"
  by (subst trim_start.simps) simp

lemma trim_end_plain [simp]: "plain c \<Longrightarrow> trim_end (s @ [c]) = s @ [c]"
  by (simp add: trim_end_def trim_end_rev.simps [of "c # rev s"])

lemma trim_end_Nil [simp]: "trim_end [] = []"
  by (simp add: trim_end_def trim_end_rev.simps [of "[]"])

lemma trim_end_space [simp]: "trim_end (s @ [CHR '' '']) = trim_end s"
  by (simp add: trim_end_def trim_end_rev.simps [of "CHR '' '' # rev s"])

lemma trim_end_last_plain: "s \<noteq> [] \<Longrightarrow> plain (last s) \<Longrightarrow> trim_end s = s"
  by (metis append_butlast_last_id trim_end_plain)

lemma split_ws_from_plain:
  "list_all plain w \<Longrightarrow> split_ws_from acc (w @ s) = split_ws_from (acc @ w) s"
proof (induction w arbitrary: acc)
  case Nil
  then show ?case by simp
next
  case (Cons c w)
  then show ?case by (simp add: split_ws_from.simps [of acc "c # w @ s"])
qed

lemma split_ws_from_Nil [simp]: "split_ws_from acc [] = flush_word acc []"
  by (subst split_ws_from.simps) simp

lemma split_ws_from_space [simp]:
  "split_ws_from acc (CHR '' '' # s) = flush_word acc (split_ws_from [] s)"
  by (subst split_ws_from.simps) simp

lemma split_whitespace_two:
  assumes "list_all plain a" "a \<noteq> []" "list_all plain b" "b \<noteq> []"
  shows "split_whitespace (a @ CHR '' '' # b) = [a, b]"
  using assms split_ws_from_plain [of a "[]" "CHR '' '' # b"] split_ws_from_plain [of b "[]" "[]"]
  by (simp add: split_whitespace_def flush_word_def)

section \<open>Laws of UTF-8\<close>

lemma utf8_step_length: "s \<noteq> [] \<Longrightarrow> utf8_step s = (ok, n) \<Longrightarrow> n \<le> length s"
  by (cases s rule: list.exhaust; cases "tl s" rule: list.exhaust; cases "tl (tl s)" rule: list.exhaust;
      cases "tl (tl (tl s))" rule: list.exhaust)
    (auto simp: utf8_step_def Let_def safe_get_def is_cont_def second3_def second4_def split: if_splits)

lemma utf8_step_ascii: "byte c < 128 \<Longrightarrow> utf8_step (c # s) = (True, 1)"
  by (simp add: utf8_step_def safe_get_def utf8_width_def)

text \<open>
  An ASCII byte ends the character or the ill-formed sequence before it: no continuation
  test accepts it, as none accepts the end of the input.
\<close>

lemma utf8_step_append_ascii:
  assumes "a \<noteq> []" "byte c < 128"
  shows "utf8_step (a @ c # b) = utf8_step a"
proof (cases a)
  case (Cons x1 a1)
  show ?thesis
  proof (cases a1)
    case Nil
    with Cons assms show ?thesis
      by (simp add: utf8_step_def Let_def safe_get_def is_cont_def second3_def second4_def utf8_width_def)
  next
    case Cons2: (Cons x2 a2)
    show ?thesis
    proof (cases a2)
      case Nil
      with Cons Cons2 assms show ?thesis
        by (simp add: utf8_step_def Let_def safe_get_def is_cont_def numeral_eq_Suc)
    next
      case Cons3: (Cons x3 a3)
      with Cons Cons2 assms show ?thesis
        by (cases a3) (simp_all add: utf8_step_def Let_def safe_get_def is_cont_def numeral_eq_Suc)
    qed
  qed
qed (use assms in simp)

lemma from_utf8_lossy_Nil [simp]: "from_utf8_lossy [] = []"
  by (subst from_utf8_lossy.simps) simp

lemma utf8_valid_Nil [simp]: "utf8_valid []"
  by (subst utf8_valid.simps) simp

lemma utf8_valid_ascii [simp]: "byte c < 128 \<Longrightarrow> utf8_valid (c # s) = utf8_valid s"
  by (subst utf8_valid.simps) (simp add: utf8_step_ascii)

lemma utf8_valid_all_ascii: "list_all (\<lambda>c. byte c < 128) s \<Longrightarrow> utf8_valid s"
  by (induction s) auto

lemma from_utf8_lossy_ascii [simp]: "byte c < 128 \<Longrightarrow> from_utf8_lossy (c # s) = c # from_utf8_lossy s"
  by (subst from_utf8_lossy.simps) (simp add: utf8_step_ascii)

lemma from_utf8_lossy_append:
  assumes "byte c < 128"
  shows "from_utf8_lossy (a @ c # b) = from_utf8_lossy a @ c # from_utf8_lossy b"
proof (induction a rule: from_utf8_lossy.induct)
  case (1 a)
  show ?case
  proof (cases "a = []")
    case True
    with assms show ?thesis by simp
  next
    case False
    obtain ok n where st: "utf8_step a = (ok, n)" by fastforce
    then have n: "n \<le> length a" using False utf8_step_length by blast
    have IH: "from_utf8_lossy (drop n a @ c # b) = from_utf8_lossy (drop n a) @ c # from_utf8_lossy b"
      using 1 False st by fastforce
    have "utf8_step (a @ c # b) = (ok, n)"
      using st False assms by (simp add: utf8_step_append_ascii)
    with n False IH st show ?thesis
      by (simp add: from_utf8_lossy.simps [of "a @ c # b"] from_utf8_lossy.simps [of a])
  qed
qed

lemma from_utf8_lossy_id: "utf8_valid s \<Longrightarrow> from_utf8_lossy s = s"
proof (induction s rule: from_utf8_lossy.induct)
  case (1 s)
  show ?case
  proof (cases "s = []")
    case False
    obtain ok n where st: "utf8_step s = (ok, n)" by fastforce
    with 1 False have "ok" "utf8_valid (drop n s)"
      by (auto simp: utf8_valid.simps [of s])
    with 1 False st show ?thesis
      by (simp add: from_utf8_lossy.simps [of s])
  qed simp
qed

lemma utf8_step_take:
  assumes "s \<noteq> []" "utf8_step s = (True, n)"
  shows "utf8_step (take n s @ t) = (True, n)"
proof -
  have n: "n \<le> length s" by (rule utf8_step_length [OF assms])
  have "n \<in> {1, 2, 3, 4}"
    using assms(2) by (auto simp: utf8_step_def Let_def split: if_splits)
  moreover have "safe_get (take n s @ t) i = safe_get s i" if "i < n" for i
    using that n by (simp add: safe_get_def nth_append)
  ultimately show ?thesis
    using assms(2) by (auto simp: utf8_step_def Let_def split: if_splits)
qed

lemma utf8_valid_lossy: "utf8_valid (from_utf8_lossy s)"
proof (induction s rule: from_utf8_lossy.induct)
  case (1 s)
  show ?case
  proof (cases "s = []")
    case False
    obtain ok n where st: "utf8_step s = (ok, n)" by fastforce
    with 1 False have IH: "utf8_valid (from_utf8_lossy (drop n s))" by fastforce
    show ?thesis
    proof (cases ok)
      case True
      with st False have n: "n \<le> length s" "0 < n"
        using utf8_step_length utf8_step_pos by blast+
      have "utf8_step (take n s @ from_utf8_lossy (drop n s)) = (True, n)"
        using st True False by (simp add: utf8_step_take)
      with n IH st True False show ?thesis
        by (simp add: from_utf8_lossy.simps [of s] utf8_valid.simps [of "take n s @ _"])
    next
      case False
      have "utf8_valid (replacement @ t) = utf8_valid t" for t
        by (subst utf8_valid.simps)
          (simp add: replacement_def utf8_step_def safe_get_def utf8_width_def second3_def is_cont_def)
      with False IH st \<open>s \<noteq> []\<close> show ?thesis
        by (simp add: from_utf8_lossy.simps [of s])
    qed
  qed simp
qed

section \<open>Laws of integers as text\<close>

lemma byte_digit_char: "d < 16 \<Longrightarrow> byte (digit_char d) = (if d < 10 then 48 + d else 87 + d)"
  by (simp add: digit_char_def)

lemma to_digit_digit_char: "d < radix \<Longrightarrow> radix \<le> 16 \<Longrightarrow> to_digit radix (digit_char d) = Some d"
  by (auto simp: to_digit_def byte_digit_char Let_def)

lemma plain_digit_char: "d < 16 \<Longrightarrow> plain (digit_char d)"
  by (simp add: plain_def byte_digit_char)

lemma string_of_nat_not_Nil [simp]: "string_of_nat n \<noteq> []"
  by (subst string_of_nat.simps) simp

lemma plain_string_of_nat: "list_all plain (string_of_nat n)"
proof (induction n rule: string_of_nat.induct)
  case (1 n)
  then show ?case
    by (cases "n < 10") (simp_all add: string_of_nat.simps [of n] plain_digit_char)
qed

lemma digits_value_append:
  "digits_value r acc (a @ b) =
     (case digits_value r acc a of None \<Rightarrow> None | Some v \<Rightarrow> digits_value r v b)"
  by (induction a arbitrary: acc) (auto split: option.split)

lemma digits_value_string_of_nat: "digits_value 10 0 (string_of_nat n) = Some n"
proof (induction n rule: string_of_nat.induct)
  case (1 n)
  then show ?case
    by (cases "n < 10")
      (simp_all add: string_of_nat.simps [of n] digits_value_append to_digit_digit_char)
qed

lemma hd_string_of_nat_not_plus: "hd (string_of_nat n) \<noteq> CHR ''+''"
proof (induction n rule: string_of_nat.induct)
  case (1 n)
  show ?case
  proof (cases "n < 10")
    case True
    then have "byte (digit_char n) \<noteq> byte (CHR ''+'')" by (simp add: byte_digit_char)
    with True show ?thesis by (auto simp: string_of_nat.simps [of n])
  next
    case False
    with 1 show ?thesis by (simp add: string_of_nat.simps [of n])
  qed
qed

lemma from_str_radix_string_of_nat: "n \<le> mx \<Longrightarrow> from_str_radix mx 10 (string_of_nat n) = Some n"
  using hd_string_of_nat_not_plus [of n] digits_value_string_of_nat [of n] string_of_nat_not_Nil [of n]
  by (cases "string_of_nat n") (auto simp: from_str_radix_def Let_def)

lemma parse_u64_to_string: "parse_u64 (u64_to_string v) = Some v"
proof -
  have "unat v < 2 ^ 64" using unsigned_less [of v] by simp
  then have "unat v \<le> 2 ^ 64 - 1" by simp
  then show ?thesis by (simp add: parse_u64_def u64_to_string_def from_str_radix_string_of_nat)
qed

lemma from_str_radix_bound: "from_str_radix mx r s = Some v \<Longrightarrow> v \<le> mx"
  by (auto simp: from_str_radix_def Let_def split: if_splits option.splits)

section \<open>Windows on a text of lines\<close>

lemma print_lines_simps [simp]:
  "print_lines [] = []" "print_lines (l # ls) = l @ newline # print_lines ls"
  by (simp_all add: print_lines_def)

text \<open>What is left of a text of lines after its first bytes: nothing, or the end of one line and
  then whole lines.\<close>

lemma drop_print_lines:
  assumes "\<And>l. l \<in> set ls \<Longrightarrow> newline \<notin> set l" "k < length (print_lines ls)"
  shows "\<exists>r j. drop k (print_lines ls) = r @ newline # print_lines (drop j ls) \<and> newline \<notin> set r"
  using assms
proof (induction ls arbitrary: k)
  case (Cons l ls)
  show ?case
  proof (cases "k \<le> length l")
    case True
    moreover have "newline \<notin> set (drop k l)" using Cons.prems(1) [of l] by (auto dest: in_set_dropD)
    ultimately show ?thesis
      by (intro exI [of _ "drop k l"] exI [of _ 1]) simp
  next
    case False
    then have "drop k (print_lines (l # ls)) = drop (k - length l - 1) (print_lines ls)"
      by (simp add: drop_Cons')
    moreover have "k - length l - 1 < length (print_lines ls)" using Cons.prems(2) False by simp
    ultimately show ?thesis
      using Cons.IH [of "k - length l - 1"] Cons.prems(1) by (metis drop_Suc_Cons list.set_intros(2))
  qed
qed simp

lemma newline_lossy: "newline \<notin> set s \<Longrightarrow> newline \<notin> set (from_utf8_lossy s)"
proof (induction s rule: from_utf8_lossy.induct)
  case (1 s)
  show ?case
  proof (cases "s = []")
    case False
    obtain ok n where st: "utf8_step s = (ok, n)" by fastforce
    have "newline \<notin> set (from_utf8_lossy (drop n s))"
      using 1 False st by (metis in_set_dropD)
    with False st 1(2) show ?thesis
      by (subst from_utf8_lossy.simps) (auto simp: replacement_def dest: in_set_takeD)
  qed simp
qed

lemma lossy_print_lines:
  "(\<And>l. l \<in> set ls \<Longrightarrow> utf8_valid l) \<Longrightarrow> from_utf8_lossy (print_lines ls) = print_lines ls"
  by (induction ls) (simp_all add: from_utf8_lossy_append from_utf8_lossy_id)

lemma str_lines_fragment:
  "newline \<notin> set r \<Longrightarrow> \<exists>x. str_lines (r @ newline # t) = x # str_lines t"
  by (simp add: str_lines_def split_inclusive_line)

end
