(* ===== verification/Json.thy ===== *)
theory Json
  imports Rust_Str
begin

text \<open>
  The JSON writer of the dashboard (\<open>ui/src/json.rs\<close>): \<open>push_str\<close>, the object builder
  \<open>Obj\<close>, \<open>arr\<close> and \<open>str_arr\<close>. Its specification is a JSON value, the text of a value, and
  a reader for the text that follows RFC 8259; the writer is shown to produce texts the
  reader maps back to the intended value, whatever bytes the strings hold.
\<close>

section \<open>The writer\<close>

text \<open>
  \<open>push_str\<close> matches on characters. All the cases it singles out are ASCII, and every byte
  of a multi-byte character is at least 0x80, so matching on bytes appends the same bytes.
\<close>

definition push_escaped :: "string \<Rightarrow> char \<Rightarrow> string" where
  "push_escaped out c =
     (if c = quote then out @ [backslash, quote]
      else if c = backslash then out @ [backslash, backslash]
      else if c = newline then out @ [backslash, CHR ''n'']
      else if c = carriage_return then out @ [backslash, CHR ''r'']
      else if c = tab then out @ [backslash, CHR ''t'']
      else if byte c < 0x20 then out @ [backslash, CHR ''u''] @ hex4 (byte c)
      else out @ [c])"

definition push_str :: "string \<Rightarrow> string \<Rightarrow> string" where
  "push_str out s = foldl push_escaped (out @ [quote]) s @ [quote]"

record obj =
  buf :: string
  first :: bool

definition obj_new :: obj where
  "obj_new = \<lparr>buf = ''{'', first = True\<rparr>"

definition obj_key :: "obj \<Rightarrow> string \<Rightarrow> obj" where
  "obj_key o1 k =
     (let b = (if \<not> first o1 then buf o1 @ '','' else buf o1)
      in \<lparr>buf = push_str b k @ '':'', first = False\<rparr>)"

definition obj_str :: "obj \<Rightarrow> string \<Rightarrow> string \<Rightarrow> obj" where
  "obj_str o1 k v = (let o2 = obj_key o1 k in o2\<lparr>buf := push_str (buf o2) v\<rparr>)"

definition obj_num :: "obj \<Rightarrow> string \<Rightarrow> u64 \<Rightarrow> obj" where
  "obj_num o1 k v = (let o2 = obj_key o1 k in o2\<lparr>buf := buf o2 @ u64_to_string v\<rparr>)"

definition obj_bool :: "obj \<Rightarrow> string \<Rightarrow> bool \<Rightarrow> obj" where
  "obj_bool o1 k v =
     (let o2 = obj_key o1 k in o2\<lparr>buf := buf o2 @ (if v then ''true'' else ''false'')\<rparr>)"

definition obj_raw :: "obj \<Rightarrow> string \<Rightarrow> string \<Rightarrow> obj" where
  "obj_raw o1 k v = (let o2 = obj_key o1 k in o2\<lparr>buf := buf o2 @ v\<rparr>)"

text \<open>\<open>done\<close> takes the buffer, leaving the builder's own buffer empty.\<close>

definition obj_done :: "obj \<Rightarrow> string \<times> obj" where
  "obj_done o1 = (buf o1 @ ''}'', o1\<lparr>buf := []\<rparr>)"

fun arr_from :: "nat \<Rightarrow> string \<Rightarrow> string list \<Rightarrow> string" where
  "arr_from i out [] = out"
| "arr_from i out (it # its) =
     arr_from (Suc i) ((if i > 0 then out @ '','' else out) @ it) its"

definition arr :: "string list \<Rightarrow> string" where
  "arr items = arr_from 0 ''['' items @ '']''"

fun str_arr_from :: "nat \<Rightarrow> string \<Rightarrow> string list \<Rightarrow> string" where
  "str_arr_from i out [] = out"
| "str_arr_from i out (it # its) =
     str_arr_from (Suc i) (push_str (if i > 0 then out @ '','' else out) it) its"

definition str_arr :: "string list \<Rightarrow> string" where
  "str_arr items = str_arr_from 0 ''['' items @ '']''"

section \<open>Specification: JSON values and a reader\<close>

datatype json =
    JStr string
  | JNum u64
  | JBool bool
  | JArr "json list"
  | JObj "(string \<times> json) list"

definition quoted :: "string \<Rightarrow> string" where
  "quoted s = push_str [] s"

fun json_text :: "json \<Rightarrow> string" where
  "json_text (JStr s) = quoted s"
| "json_text (JNum v) = u64_to_string v"
| "json_text (JBool b) = (if b then ''true'' else ''false'')"
| "json_text (JArr vs) = ''['' @ join '','' (map json_text vs) @ '']''"
| "json_text (JObj kvs) =
     ''{'' @ join '','' (map (\<lambda>(k, v). quoted k @ '':'' @ json_text v) kvs) @ ''}''"

abbreviation field_text :: "string \<times> json \<Rightarrow> string" where
  "field_text kv \<equiv> (case kv of (k, v) \<Rightarrow> quoted k @ '':'' @ json_text v)"

text \<open>
  The reader of RFC 8259 without insignificant white space. A string ends at the first
  unescaped quote and must not hold a raw control character; \<open>\u\<close> escapes are read below
  0x80, where the character is one byte. The first argument of \<open>read_value\<close> and of the
  element readers is fuel; the length of the text is enough.
\<close>

definition unescape :: "char \<Rightarrow> char option" where
  "unescape e =
     (if e = quote then Some quote
      else if e = backslash then Some backslash
      else if e = CHR ''/'' then Some (CHR ''/'')
      else if e = CHR ''b'' then Some (CHR 0x08)
      else if e = CHR ''f'' then Some (CHR 0x0C)
      else if e = CHR ''n'' then Some newline
      else if e = CHR ''r'' then Some carriage_return
      else if e = CHR ''t'' then Some tab
      else None)"

definition cons_fst :: "char \<Rightarrow> (string \<times> string) option \<Rightarrow> (string \<times> string) option" where
  "cons_fst c r = map_option (\<lambda>(s, rest). (c # s, rest)) r"

fun read_chars :: "string \<Rightarrow> (string \<times> string) option" where
  "read_chars [] = None"
| "read_chars (c # cs) =
     (if c = quote then Some ([], cs)
      else if c = backslash then
        (case cs of
           [] \<Rightarrow> None
         | e # cs1 \<Rightarrow>
             if e = CHR ''u'' then
               (case cs1 of
                  h1 # h2 # h3 # h4 # cs2 \<Rightarrow>
                    (case digits_value 16 0 [h1, h2, h3, h4] of
                       None \<Rightarrow> None
                     | Some v \<Rightarrow> if v < 0x80 then cons_fst (char_of v) (read_chars cs2) else None)
                | _ \<Rightarrow> None)
             else (case unescape e of None \<Rightarrow> None | Some d \<Rightarrow> cons_fst d (read_chars cs1)))
      else if byte c < 0x20 then None
      else cons_fst c (read_chars cs))"

fun read_string :: "string \<Rightarrow> (string \<times> string) option" where
  "read_string [] = None"
| "read_string (c # cs) = (if c = quote then read_chars cs else None)"

definition is_digit :: "char \<Rightarrow> bool" where
  "is_digit c = (to_digit 10 c \<noteq> None)"

definition read_number :: "string \<Rightarrow> (u64 \<times> string) option" where
  "read_number s =
     (case parse_u64 (takeWhile is_digit s) of
        None \<Rightarrow> None | Some v \<Rightarrow> Some (v, dropWhile is_digit s))"

fun read_value :: "nat \<Rightarrow> string \<Rightarrow> (json \<times> string) option"
and read_items :: "nat \<Rightarrow> string \<Rightarrow> (json list \<times> string) option"
and read_fields :: "nat \<Rightarrow> string \<Rightarrow> ((string \<times> json) list \<times> string) option" where
  "read_value 0 s = None"
| "read_value (Suc f) s =
     (case s of
        [] \<Rightarrow> None
      | c # cs \<Rightarrow>
          if c = quote then map_option (\<lambda>(x, r). (JStr x, r)) (read_chars cs)
          else if c = CHR ''['' then
            (if starts_with cs '']'' then Some (JArr [], tl cs)
             else map_option (\<lambda>(x, r). (JArr x, r)) (read_items f cs))
          else if c = CHR ''{'' then
            (if starts_with cs ''}'' then Some (JObj [], tl cs)
             else map_option (\<lambda>(x, r). (JObj x, r)) (read_fields f cs))
          else if starts_with s ''true'' then Some (JBool True, drop 4 s)
          else if starts_with s ''false'' then Some (JBool False, drop 5 s)
          else map_option (\<lambda>(x, r). (JNum x, r)) (read_number s))"
| "read_items 0 s = None"
| "read_items (Suc f) s =
     (case read_value f s of
        Some (v, c # r) \<Rightarrow>
          if c = CHR '']'' then Some ([v], r)
          else if c = CHR '','' then map_option (\<lambda>(vs, r). (v # vs, r)) (read_items f r)
          else None
      | _ \<Rightarrow> None)"
| "read_fields 0 s = None"
| "read_fields (Suc f) s =
     (case read_string s of
        Some (k, c # r) \<Rightarrow>
          if c = CHR '':'' then
            (case read_value f r of
               Some (v, d # r) \<Rightarrow>
                 if d = CHR ''}'' then Some ([(k, v)], r)
                 else if d = CHR '','' then map_option (\<lambda>(kvs, r). ((k, v) # kvs, r)) (read_fields f r)
                 else None
             | _ \<Rightarrow> None)
          else None
      | _ \<Rightarrow> None)"

definition parse_json :: "string \<Rightarrow> json option" where
  "parse_json s = (case read_value (length s) s of Some (v, []) \<Rightarrow> Some v | _ \<Rightarrow> None)"

section \<open>Strings\<close>

definition esc :: "char \<Rightarrow> string" where
  "esc c = push_escaped [] c"

lemma push_escaped_esc: "push_escaped out c = out @ esc c"
  by (simp add: push_escaped_def esc_def)

lemma foldl_push_escaped: "foldl push_escaped out s = out @ concat (map esc s)"
  by (induction s arbitrary: out) (simp_all add: push_escaped_esc)

lemma push_str_quoted: "push_str out s = out @ quoted s"
  by (simp add: push_str_def quoted_def foldl_push_escaped)

lemma quoted_esc: "quoted s = quote # concat (map esc s) @ [quote]"
  by (simp add: quoted_def push_str_def foldl_push_escaped)

lemma digits_value_hex4: "n < 0x80 \<Longrightarrow>
    hex4 n = [h1, h2, h3, h4] \<Longrightarrow> digits_value 16 0 [h1, h2, h3, h4] = Some n"
  by (auto simp: hex4_def to_digit_digit_char)

lemma read_chars_esc: "read_chars (esc c @ r) = cons_fst c (read_chars r)"
proof (cases "c \<in> {quote, backslash, newline, carriage_return, tab}")
  case True
  then show ?thesis by (auto simp: esc_def push_escaped_def unescape_def)
next
  case False
  show ?thesis
  proof (cases "byte c < 0x20")
    case True
    have "esc c = backslash # CHR ''u'' # hex4 (byte c)"
      using False True by (simp add: esc_def push_escaped_def)
    moreover obtain h1 h2 h3 h4 where h: "hex4 (byte c) = [h1, h2, h3, h4]"
      by (simp add: hex4_def)
    moreover have "digits_value 16 0 [h1, h2, h3, h4] = Some (byte c)"
      by (rule digits_value_hex4 [OF _ h]) (use True in simp)
    ultimately show ?thesis using True by simp
  next
    case False2: False
    then have "esc c = [c]"
      using False by (simp add: esc_def push_escaped_def)
    with False False2 show ?thesis by simp
  qed
qed

lemma read_chars_escs: "read_chars (concat (map esc s) @ quote # r) = Some (s, r)"
  by (induction s) (simp_all add: read_chars_esc cons_fst_def del: read_chars.simps(2), simp)

lemma read_string_quoted: "read_string (quoted s @ r) = Some (s, r)"
  by (simp add: quoted_esc read_chars_escs del: read_chars.simps)

section \<open>Values\<close>

lemma quoted_not_Nil [simp]: "quoted s \<noteq> []"
  by (simp add: quoted_esc)

lemma length_quoted: "2 \<le> length (quoted s)"
  by (simp add: quoted_esc)

lemma all_digits_string_of_nat: "list_all is_digit (string_of_nat n)"
proof (induction n rule: string_of_nat.induct)
  case (1 n)
  then show ?case
    by (cases "n < 10") (simp_all add: string_of_nat.simps [of n] is_digit_def to_digit_digit_char)
qed

lemma u64_to_string_digits: "\<exists>c cs. u64_to_string v = c # cs \<and> is_digit c \<and> list_all is_digit cs"
  using all_digits_string_of_nat [of "unat v"] string_of_nat_not_Nil [of "unat v"]
  unfolding u64_to_string_def by (cases "string_of_nat (unat v)") auto

definition digit_free :: "string \<Rightarrow> bool" where
  "digit_free r = (r = [] \<or> \<not> is_digit (hd r))"

lemma takeWhile_digits:
  "list_all is_digit ds \<Longrightarrow> digit_free r \<Longrightarrow> takeWhile is_digit (ds @ r) = ds \<and> dropWhile is_digit (ds @ r) = r"
  by (cases r) (simp_all add: list_all_iff digit_free_def)

lemma read_number_to_string:
  assumes "digit_free r"
  shows "read_number (u64_to_string v @ r) = Some (v, r)"
proof -
  have "list_all is_digit (u64_to_string v)"
    using u64_to_string_digits [of v] by auto
  from takeWhile_digits [OF this assms] show ?thesis
    by (simp add: read_number_def parse_u64_to_string)
qed

lemma is_digit_not_special:
  "is_digit c \<Longrightarrow> c \<noteq> quote \<and> c \<noteq> CHR ''['' \<and> c \<noteq> CHR ''{'' \<and> c \<noteq> CHR '']'' \<and> c \<noteq> CHR ''}''
     \<and> c \<noteq> CHR ''t'' \<and> c \<noteq> CHR ''f'' \<and> c \<noteq> CHR '',''"
  by (auto simp: is_digit_def to_digit_def)

lemma digit_free_Cons [simp]: "digit_free (c # r) = (\<not> is_digit c)"
  by (simp add: digit_free_def)

lemma not_digit_sep [simp]: "\<not> is_digit (CHR '','')" "\<not> is_digit (CHR '']'')" "\<not> is_digit (CHR ''}'')"
  by (auto simp: is_digit_def to_digit_def)

lemma json_text_Cons: "\<exists>c cs. json_text v = c # cs \<and> c \<noteq> CHR '']''"
  using is_digit_not_special u64_to_string_digits
  by (cases v) (auto simp: quoted_esc, fastforce)

lemma json_text_not_Nil [simp]: "json_text v \<noteq> []"
  using json_text_Cons [of v] by auto

lemma read_value_num:
  assumes "digit_free r"
  shows "read_value (Suc f) (u64_to_string v @ r) = Some (JNum v, r)"
proof -
  obtain c cs where c: "u64_to_string v = c # cs" "is_digit c"
    using u64_to_string_digits by blast
  with read_number_to_string [OF assms, of v] is_digit_not_special [OF c(2)] show ?thesis
    by simp
qed

definition reads_back :: "json \<Rightarrow> bool" where
  "reads_back v =
     (\<forall>f r. length (json_text v) \<le> f \<longrightarrow> digit_free r \<longrightarrow> read_value f (json_text v @ r) = Some (v, r))"

lemma read_items_join:
  assumes "\<And>v. v \<in> set vs \<Longrightarrow> reads_back v" "vs \<noteq> []"
    and "length (join '','' (map json_text vs)) < f"
  shows "read_items f (join '','' (map json_text vs) @ CHR '']'' # r) = Some (vs, r)"
  using assms
proof (induction vs arbitrary: f)
  case (Cons v vs)
  then obtain f' where f: "f = Suc f'" by (cases f) auto
  have v: "reads_back v" using Cons.prems(1) by simp
  show ?case
  proof (cases vs)
    case Nil
    with f Cons.prems(3) v show ?thesis by (simp add: reads_back_def)
  next
    case (Cons w ws)
    let ?rest = "join '','' (map json_text vs) @ CHR '']'' # r"
    have len: "length (json_text v) \<le> f'" "length (join '','' (map json_text vs)) < f'"
      using Cons.prems(3) f Cons json_text_not_Nil [of v] by (auto simp: Suc_le_eq)
    have "read_value f' (json_text v @ CHR '','' # ?rest) = Some (v, CHR '','' # ?rest)"
      using v len(1) by (simp add: reads_back_def)
    moreover have "read_items f' ?rest = Some (vs, r)"
      using Cons.IH [of f'] Cons.prems(1) Cons len(2) by simp
    ultimately show ?thesis using f Cons by simp
  qed
qed simp

lemma read_fields_join:
  assumes "\<And>k v. (k, v) \<in> set kvs \<Longrightarrow> reads_back v" "kvs \<noteq> []"
    and "length (join '','' (map field_text kvs)) < f"
  shows "read_fields f (join '','' (map field_text kvs) @ CHR ''}'' # r) = Some (kvs, r)"
  using assms
proof (induction kvs arbitrary: f)
  case (Cons kv kvs)
  obtain k v where kv: "kv = (k, v)" by fastforce
  obtain f' where f: "f = Suc f'" using Cons.prems(3) by (cases f) auto
  have v: "reads_back v" using Cons.prems(1) [of k v] kv by simp
  show ?case
  proof (cases kvs)
    case Nil
    with f kv Cons.prems(3) v length_quoted [of k] show ?thesis
      by (simp add: reads_back_def read_string_quoted)
  next
    case (Cons w ws)
    let ?rest = "join '','' (map field_text kvs) @ CHR ''}'' # r"
    have len: "length (json_text v) \<le> f'" "length (join '','' (map field_text kvs)) < f'"
      using Cons.prems(3) f kv Cons length_quoted [of k] by auto
    have "read_value f' (json_text v @ CHR '','' # ?rest) = Some (v, CHR '','' # ?rest)"
      using v len(1) by (simp add: reads_back_def)
    moreover have "read_fields f' ?rest = Some (kvs, r)"
    proof (rule Cons.IH)
      show "reads_back v'" if "(k', v') \<in> set kvs" for k' v'
        using Cons.prems(1) [of k' v'] that by simp
    qed (use Cons len(2) in simp_all)
    ultimately show ?thesis using f kv Cons by (simp add: read_string_quoted)
  qed
qed simp

lemma starts_with_json_items:
  "vs \<noteq> [] \<Longrightarrow> \<not> starts_with (join '','' (map json_text vs) @ r) '']''"
  using json_text_Cons [of "hd vs"] by (cases vs; cases "tl vs") auto

lemma starts_with_json_fields:
  "kvs \<noteq> [] \<Longrightarrow> \<not> starts_with (join '','' (map field_text kvs) @ r) ''}''"
  by (cases kvs; cases "tl kvs") (auto simp: quoted_esc)

lemma json_reads_back: "reads_back v"
proof (induction v)
  case (JStr s)
  show ?case unfolding reads_back_def
  proof (intro allI impI)
    fix f r
    assume "length (json_text (JStr s)) \<le> f"
    then obtain f' where "f = Suc f'" by (cases f) (auto simp: quoted_esc)
    then show "read_value f (json_text (JStr s) @ r) = Some (JStr s, r)"
      by (simp add: quoted_esc read_chars_escs del: read_chars.simps)
  qed
next
  case (JNum x)
  show ?case unfolding reads_back_def
  proof (intro allI impI)
    fix f r
    assume "length (json_text (JNum x)) \<le> f" "digit_free r"
    moreover then obtain f' where "f = Suc f'"
      using u64_to_string_digits [of x] by (cases f) auto
    ultimately show "read_value f (json_text (JNum x) @ r) = Some (JNum x, r)"
      by (simp add: read_value_num del: read_value.simps)
  qed
next
  case (JBool b)
  show ?case unfolding reads_back_def
  proof (intro allI impI)
    fix f r
    assume "length (json_text (JBool b)) \<le> f"
    then obtain f' where "f = Suc f'" by (cases f) (auto split: if_splits)
    then show "read_value f (json_text (JBool b) @ r) = Some (JBool b, r)"
      by (cases b) simp_all
  qed
next
  case (JArr vs)
  show ?case unfolding reads_back_def
  proof (intro allI impI)
    fix f r
    assume len: "length (json_text (JArr vs)) \<le> f"
    then obtain f' where "f = Suc f'" by (cases f) auto
    with len JArr read_items_join [of vs f' r] starts_with_json_items [of vs "CHR '']'' # r"]
    show "read_value f (json_text (JArr vs) @ r) = Some (JArr vs, r)"
      by (cases "vs = []") auto
  qed
next
  case (JObj kvs)
  have IH: "reads_back v" if "(k, v) \<in> set kvs" for k v
    using JObj [of "(k, v)" v] that by simp
  show ?case unfolding reads_back_def
  proof (intro allI impI)
    fix f r
    assume len: "length (json_text (JObj kvs)) \<le> f"
    then obtain f' where "f = Suc f'" by (cases f) auto
    with len IH read_fields_join [of kvs f' r] starts_with_json_fields [of kvs "CHR ''}'' # r"]
    show "read_value f (json_text (JObj kvs) @ r) = Some (JObj kvs, r)"
      by (cases "kvs = []") auto
  qed
qed

lemma parse_json_text [simp]: "parse_json (json_text v) = Some v"
  using json_reads_back [of v]
  by (simp add: parse_json_def reads_back_def digit_free_def)

section \<open>The builder against its specification\<close>

text \<open>
  The contract of a JSON object builder, as its clients rely on it: \<open>holds b kvs\<close> says that
  the builder has been given exactly the fields \<open>kvs\<close>, in this order. A field added with
  \<open>raw\<close> must be the text of a value.
\<close>

locale json_builder =
  fixes new :: 'b
    and add_str :: "'b \<Rightarrow> string \<Rightarrow> string \<Rightarrow> 'b"
    and add_num :: "'b \<Rightarrow> string \<Rightarrow> u64 \<Rightarrow> 'b"
    and add_bool :: "'b \<Rightarrow> string \<Rightarrow> bool \<Rightarrow> 'b"
    and add_raw :: "'b \<Rightarrow> string \<Rightarrow> string \<Rightarrow> 'b"
    and finish :: "'b \<Rightarrow> string"
    and holds :: "'b \<Rightarrow> (string \<times> json) list \<Rightarrow> bool"
  assumes new_holds: "holds new []"
    and str_holds: "holds b kvs \<Longrightarrow> holds (add_str b k s) (kvs @ [(k, JStr s)])"
    and num_holds: "holds b kvs \<Longrightarrow> holds (add_num b k n) (kvs @ [(k, JNum n)])"
    and bool_holds: "holds b kvs \<Longrightarrow> holds (add_bool b k x) (kvs @ [(k, JBool x)])"
    and raw_holds: "holds b kvs \<Longrightarrow> holds (add_raw b k (json_text v)) (kvs @ [(k, v)])"
    and finish_text: "holds b kvs \<Longrightarrow> finish b = json_text (JObj kvs)"
begin

text \<open>Adding a list of fields of any kind, and reading the finished text back.\<close>

definition add_value :: "'b \<Rightarrow> string \<times> json \<Rightarrow> 'b" where
  "add_value b kv =
     (case kv of
        (k, JStr s) \<Rightarrow> add_str b k s
      | (k, JNum n) \<Rightarrow> add_num b k n
      | (k, JBool x) \<Rightarrow> add_bool b k x
      | (k, v) \<Rightarrow> add_raw b k (json_text v))"

lemma add_value_holds: "holds b kvs \<Longrightarrow> holds (add_value b kv) (kvs @ [kv])"
  by (cases kv; cases "snd kv")
    (auto simp: add_value_def simp del: json_text.simps intro: str_holds num_holds bool_holds raw_holds)

lemma foldl_add_value_holds: "holds b kvs \<Longrightarrow> holds (foldl add_value b new_kvs) (kvs @ new_kvs)"
proof (induction new_kvs arbitrary: b kvs)
  case (Cons kv new_kvs)
  then show ?case
    using Cons.IH [OF add_value_holds [OF Cons.prems]] by simp
qed simp

lemma finish_parses: "holds b kvs \<Longrightarrow> parse_json (finish b) = Some (JObj kvs)"
  using finish_text [of b kvs] parse_json_text [of "JObj kvs"] by (simp only:)

lemma build_parses: "parse_json (finish (foldl add_value new kvs)) = Some (JObj kvs)"
  using finish_parses [OF foldl_add_value_holds [OF new_holds]] by simp

end

definition obj_holds :: "obj \<Rightarrow> (string \<times> json) list \<Rightarrow> bool" where
  "obj_holds o1 kvs =
     (buf o1 = ''{'' @ join '','' (map field_text kvs) \<and> first o1 = (kvs = []))"

lemma join_snoc: "xs \<noteq> [] \<Longrightarrow> join sep (xs @ [x]) = join sep xs @ sep @ x"
  by (induction sep xs rule: join.induct) auto

lemma obj_key_holds:
  "obj_holds o1 kvs \<Longrightarrow>
     buf (obj_key o1 k) @ json_text v = ''{'' @ join '','' (map field_text (kvs @ [(k, v)]))
     \<and> \<not> first (obj_key o1 k)"
  by (cases "kvs = []") (auto simp: obj_holds_def obj_key_def Let_def push_str_quoted join_snoc)

lemmas obj_add_defs = obj_str_def obj_num_def obj_bool_def obj_raw_def

interpretation jobj: json_builder obj_new obj_str obj_num obj_bool obj_raw "\<lambda>o1. fst (obj_done o1)" obj_holds
proof unfold_locales
  show "obj_holds obj_new []" by (simp add: obj_holds_def obj_new_def)
next
  fix o1 kvs k s
  assume "obj_holds o1 kvs"
  from obj_key_holds [OF this, of k "JStr s"]
  show "obj_holds (obj_str o1 k s) (kvs @ [(k, JStr s)])"
    by (simp add: obj_holds_def obj_add_defs Let_def push_str_quoted)
next
  fix o1 kvs k n
  assume "obj_holds o1 kvs"
  from obj_key_holds [OF this, of k "JNum n"]
  show "obj_holds (obj_num o1 k n) (kvs @ [(k, JNum n)])"
    by (simp add: obj_holds_def obj_add_defs Let_def)
next
  fix o1 kvs k x
  assume "obj_holds o1 kvs"
  from obj_key_holds [OF this, of k "JBool x"]
  show "obj_holds (obj_bool o1 k x) (kvs @ [(k, JBool x)])"
    by (simp add: obj_holds_def obj_add_defs Let_def)
next
  fix o1 kvs k v
  assume "obj_holds o1 kvs"
  from obj_key_holds [OF this, of k v]
  show "obj_holds (obj_raw o1 k (json_text v)) (kvs @ [(k, v)])"
    by (simp add: obj_holds_def obj_add_defs Let_def)
next
  fix o1 kvs
  assume "obj_holds o1 kvs"
  then show "fst (obj_done o1) = json_text (JObj kvs)"
    by (simp add: obj_holds_def obj_done_def)
qed

lemmas obj_holds_intros =
  jobj.new_holds jobj.str_holds jobj.num_holds jobj.bool_holds jobj.raw_holds

section \<open>Arrays\<close>

lemma arr_from_Suc: "arr_from (Suc i) out its = out @ concat (map (\<lambda>it. '','' @ it) its)"
  by (induction its arbitrary: i out) simp_all

lemma join_concat: "join sep (x # xs) = x @ concat (map (\<lambda>it. sep @ it) xs)"
  by (induction xs arbitrary: x) auto

lemma arr_join: "arr its = ''['' @ join '','' its @ '']''"
proof (cases its)
  case Nil
  then show ?thesis by (simp add: arr_def)
next
  case (Cons x xs)
  then show ?thesis
    by (cases xs) (simp_all add: arr_def arr_from_Suc join_concat)
qed

lemma str_arr_from_eq: "str_arr_from i out its = arr_from i out (map quoted its)"
  by (induction its arbitrary: i out) (simp_all add: push_str_quoted)

lemma arr_text: "arr (map json_text vs) = json_text (JArr vs)"
  by (simp add: arr_join)

lemma str_arr_text [json_build]: "str_arr ss = json_text (JArr (map JStr ss))"
proof -
  have "str_arr ss = arr (map quoted ss)"
    by (simp add: str_arr_def arr_def str_arr_from_eq)
  then show ?thesis by (simp add: arr_join comp_def)
qed

text \<open>The builder in equational form: the one state that holds the fields \<open>kvs\<close>.\<close>

definition obj_of :: "(string \<times> json) list \<Rightarrow> obj" where
  "obj_of kvs = \<lparr>buf = ''{'' @ join '','' (map field_text kvs), first = (kvs = [])\<rparr>"

lemma obj_holds_iff: "obj_holds o1 kvs \<longleftrightarrow> o1 = obj_of kvs"
  by (auto simp: obj_holds_def obj_of_def)

lemma obj_build [json_build]:
  "obj_new = obj_of []"
  "obj_str (obj_of kvs) k s = obj_of (kvs @ [(k, JStr s)])"
  "obj_num (obj_of kvs) k n = obj_of (kvs @ [(k, JNum n)])"
  "obj_bool (obj_of kvs) k x = obj_of (kvs @ [(k, JBool x)])"
  "obj_raw (obj_of kvs) k (json_text v) = obj_of (kvs @ [(k, v)])"
  "fst (obj_done (obj_of kvs)) = json_text (JObj kvs)"
  by (rule jobj.new_holds [unfolded obj_holds_iff] jobj.str_holds [unfolded obj_holds_iff, OF refl]
      jobj.num_holds [unfolded obj_holds_iff, OF refl] jobj.bool_holds [unfolded obj_holds_iff, OF refl]
      jobj.raw_holds [unfolded obj_holds_iff, OF refl] jobj.finish_text [unfolded obj_holds_iff, OF refl])+

lemma arr_map_text [json_build]: "arr (map (\<lambda>x. json_text (f x)) xs) = json_text (JArr (map f xs))"
  using arr_text [of "map f xs"] by (simp add: comp_def)

declare append.simps [json_build] append_assoc [json_build]

lemma empty_array_text: "''[]'' = json_text (JArr [])"
  by simp

section \<open>Properties of the writer\<close>

text \<open>C26. A string written by \<open>push_str\<close> after any text is read back as exactly that string
  by a JSON reader, which stops at the closing quote the writer added: no byte of the string,
  attacker-influenced or not, can end the string early or extend it past its end.\<close>

theorem push_str_roundtrip:
  "\<exists>q. push_str out s = out @ q \<and> read_string (q @ rest) = Some (s, rest)"
  by (intro exI [of _ "quoted s"]) (simp add: push_str_quoted read_string_quoted)

text \<open>C31. An object built with any sequence of \<open>str\<close>, \<open>num\<close>, \<open>bool\<close> and \<open>raw\<close> calls (the
  latter with the text of a value) is finished as one JSON document that a reader maps back to
  exactly those fields, in the order of the calls and with duplicates kept.\<close>

theorem obj_fields_roundtrip:
  "parse_json (fst (obj_done (foldl (\<lambda>b (k, v).
       case v of JStr s \<Rightarrow> obj_str b k s | JNum n \<Rightarrow> obj_num b k n | JBool x \<Rightarrow> obj_bool b k x
       | _ \<Rightarrow> obj_raw b k (json_text v)) obj_new kvs)))
   = Some (JObj kvs)"
proof -
  have "jobj.add_value = (\<lambda>b (k, v).
       case v of JStr s \<Rightarrow> obj_str b k s | JNum n \<Rightarrow> obj_num b k n | JBool x \<Rightarrow> obj_bool b k x
       | _ \<Rightarrow> obj_raw b k (json_text v))"
    by (auto simp: fun_eq_iff jobj.add_value_def split: json.split)
  with jobj.build_parses [of kvs] show ?thesis by simp
qed

text \<open>\<open>arr\<close> applied to the texts of values and \<open>str_arr\<close> applied to any strings produce
  one JSON array each, which a reader maps back to exactly those elements.\<close>

theorem arr_roundtrip:
  "parse_json (arr (map json_text vs)) = Some (JArr vs) \<and>
   parse_json (str_arr ss) = Some (JArr (map JStr ss))"
  by (simp add: arr_text str_arr_text del: json_text.simps)

end
