(* ===== verification/Collect.thy ===== *)
theory Collect
  imports Json
begin

text \<open>
  The state the dashboard reads (\<open>ui/src/collect.rs\<close>): the configuration and the services it
  names, the bans, the counters of the guard, and the tail of a log. The environment is a
  parameter: running a command, and opening, seeking and reading a file, on a state \<open>'w\<close>.
\<close>

section \<open>The environment\<close>

record cmd_output =
  success :: bool
  status_text :: string
  out_bytes :: string
  err_bytes :: string

datatype io_error = NotFound | OtherIo string

text \<open>A path is its bytes. Handles of open files are numbers; seeks are from the end.\<close>

record 'w env =
  exec :: "string \<Rightarrow> string list \<Rightarrow> 'w \<Rightarrow> (string + cmd_output) \<times> 'w"
  file_open :: "string \<Rightarrow> 'w \<Rightarrow> (io_error + nat) \<times> 'w"
  seek_end :: "nat \<Rightarrow> i64 \<Rightarrow> 'w \<Rightarrow> (io_error + u64) \<times> 'w"
  read_exact :: "nat \<Rightarrow> nat \<Rightarrow> 'w \<Rightarrow> (io_error + string) \<times> 'w"
  wall_clock :: "'w \<Rightarrow> u64 option \<times> 'w"
  file_exists :: "string \<Rightarrow> 'w \<Rightarrow> bool \<times> 'w"

definition to_str :: "string \<Rightarrow> string option" where
  "to_str path = (if utf8_valid path then Some path else None)"

section \<open>Commands\<close>

definition run :: "'w env \<Rightarrow> string \<Rightarrow> string list \<Rightarrow> 'w \<Rightarrow> (string + string) \<times> 'w" where
  "run E bin args w =
     (case exec E bin args w of
        (Inl e, w) \<Rightarrow> (Inl (bin @ '': '' @ e), w)
      | (Inr out, w) \<Rightarrow>
          if success out then (Inr (from_utf8_lossy (out_bytes out)), w)
          else
            (let err = from_utf8_lossy (err_bytes out);
                 first = (case find (\<lambda>l. trim l \<noteq> []) (str_lines err) of None \<Rightarrow> [] | Some l \<Rightarrow> l)
             in if first = [] then (Inl (bin @ '' exited '' @ status_text out), w)
                else (Inl (bin @ '': '' @ first), w)))"

section \<open>Configuration\<close>

text \<open>Source, key and value of each entry.\<close>

record uconfig =
  entries :: "(string \<times> string \<times> string) list"

definition config_line :: "string \<Rightarrow> (string \<times> string \<times> string) option" where
  "config_line l =
     (case splitn 3 tab l of
        s # k # v # _ \<Rightarrow> Some (s, k, v)
      | [s, k] \<Rightarrow> Some (s, k, [])
      | _ \<Rightarrow> None)"

definition config_load :: "'w env \<Rightarrow> string \<Rightarrow> string option \<Rightarrow> 'w \<Rightarrow> (string + uconfig) \<times> 'w" where
  "config_load E shield_config env_file w =
     (case to_str shield_config of
        None \<Rightarrow> (Inl ''shield-config path is not valid UTF-8'', w)
      | Some bin \<Rightarrow>
          bind_ok
            (case Option.bind env_file to_str of
               Some f \<Rightarrow> run E bin [''show'', ''--porcelain'', ''-f'', f] w
             | None \<Rightarrow> run E bin [''show'', ''--porcelain''] w)
            (\<lambda>out w. (Inr \<lparr>entries = filter_map config_line (str_lines out)\<rparr>, w)))"

definition ucfg_get :: "uconfig \<Rightarrow> string \<Rightarrow> string option" where
  "ucfg_get cfg key = map_option (\<lambda>(_, _, v). v) (find (\<lambda>(_, k, _). k = key) (entries cfg))"

definition ucfg_source :: "uconfig \<Rightarrow> string \<Rightarrow> string option" where
  "ucfg_source cfg key = map_option (\<lambda>(s, _, _). s) (find (\<lambda>(_, k, _). k = key) (entries cfg))"

definition unwrap_or :: "'a option \<Rightarrow> 'a \<Rightarrow> 'a" where
  "unwrap_or x d = (case x of None \<Rightarrow> d | Some v \<Rightarrow> v)"

definition profiles :: "uconfig \<Rightarrow> string list" where
  "profiles cfg =
     filter (\<lambda>s. s \<noteq> [])
       (map trim (split_char (CHR '','') (unwrap_or (ucfg_get cfg ''SHIELD_PROFILES'') ''strfry'')))"

section \<open>Services\<close>

record service =
  svc_profile :: string
  log_name :: string
  listen_port :: string
  upstream :: string
  preset :: string
  limits :: "(string \<times> string \<times> string) list"

definition keys_for :: "string \<Rightarrow> string \<times> string \<times> string \<times> string" where
  "keys_for profile =
     (if profile = ''strfry'' then
        ('''', ''SHIELD_LISTEN_PORT'', ''SHIELD_UPSTREAM'', ''SHIELD_STRFRY_CONN_RATE'')
      else if profile = ''http'' then
        (''SHIELD_HTTP_SERVICE'', ''SHIELD_HTTP_LISTEN_PORT'', ''SHIELD_HTTP_UPSTREAM'', ''SHIELD_HTTP_CONN_RATE'')
      else if profile = ''tcp'' then
        (''SHIELD_TCP_SERVICE'', ''SHIELD_TCP_LISTEN_PORT'', ''SHIELD_TCP_UPSTREAM'', ''SHIELD_TCP_CONN_RATE'')
      else ('''', '''', '''', ''''))"

definition relevant_to :: "string \<Rightarrow> string \<Rightarrow> bool" where
  "relevant_to key profile =
     (if profile = ''http'' then starts_with key ''SHIELD_HTTP_''
      else if profile = ''tcp'' then starts_with key ''SHIELD_TCP_''
      else if profile = ''strfry'' then
        starts_with key ''SHIELD_WS_'' \<or> starts_with key ''SHIELD_STRFRY_''
        \<or> key = ''SHIELD_MAX_CONNS_PER_NODE'' \<or> starts_with key ''SHIELD_HANDSHAKE_''
      else False)"

definition is_limit :: "string \<Rightarrow> bool" where
  "is_limit k = (contains k ''RATE'' \<or> contains k ''MAX'' \<or> contains k ''TIMEOUT'' \<or> contains k ''BURST'')"

definition preset_of :: "uconfig \<Rightarrow> string \<Rightarrow> string" where
  "preset_of cfg rate_key =
     unwrap_or
       (Option.bind (Option.bind (ucfg_source cfg rate_key) (strip_prefix ''preset:''))
          (\<lambda>s. let ps = split_char (CHR ''/'') s in if 1 < length ps then Some (ps ! 1) else None))
       ''custom''"

definition service_of :: "uconfig \<Rightarrow> string \<Rightarrow> service" where
  "service_of cfg profile =
     (case keys_for profile of
        (svc_key, port_key, up_key, rate_key) \<Rightarrow>
          \<lparr>svc_profile = profile,
           log_name = (if svc_key = [] then profile else unwrap_or (ucfg_get cfg svc_key) profile),
           listen_port = unwrap_or (ucfg_get cfg port_key) [],
           upstream = unwrap_or (ucfg_get cfg up_key) [],
           preset = preset_of cfg rate_key,
           limits = map (\<lambda>(s, k, v). (k, v, s))
                      (filter (\<lambda>(_, k, _). is_limit k \<and> relevant_to k profile) (entries cfg))\<rparr>)"

definition services :: "uconfig \<Rightarrow> service list" where
  "services cfg = map (service_of cfg) (profiles cfg)"

section \<open>Bans and counters\<close>

record ban =
  ban_addr :: string
  ban_until :: u64

definition ban_of_line :: "string \<Rightarrow> ban option" where
  "ban_of_line l =
     (case split_whitespace l of
        a # u # _ \<Rightarrow> map_option (\<lambda>t. \<lparr>ban_addr = a, ban_until = t\<rparr>) (parse_u64 u)
      | _ \<Rightarrow> None)"

definition bans :: "'w env \<Rightarrow> string \<Rightarrow> 'w \<Rightarrow> (string + ban list) \<times> 'w" where
  "bans E shield_ban w =
     (case to_str shield_ban of
        None \<Rightarrow> (Inl ''shield-ban path is not valid UTF-8'', w)
      | Some bin \<Rightarrow>
          bind_ok (run E bin [''list''] w) (\<lambda>out w.
          (Inr (filter_map ban_of_line (str_lines out)), w)))"

definition stat_of_line :: "string \<Rightarrow> (string \<times> string) option" where
  "stat_of_line l0 =
     (let l = trim_end l0 in
      map_option (\<lambda>idx. (trim (take idx l), trim (drop idx l))) (find_str ''  '' l))"

definition guard_stats :: "'w env \<Rightarrow> string \<Rightarrow> 'w \<Rightarrow> (string + (string \<times> string) list) \<times> 'w" where
  "guard_stats E fips_guard w =
     (case to_str fips_guard of
        None \<Rightarrow> (Inl ''fips-guard path is not valid UTF-8'', w)
      | Some bin \<Rightarrow>
          bind_ok (run E bin [''stats''] w) (\<lambda>out w.
          (Inr (filter_map stat_of_line (str_lines out)), w)))"

section \<open>Logs\<close>

definition tail :: "'w env \<Rightarrow> string \<Rightarrow> nat \<Rightarrow> u64 \<Rightarrow> 'w \<Rightarrow> (io_error + string list) \<times> 'w" where
  "tail E path n max_bytes w =
     bind_ok (file_open E path w) (\<lambda>f w.
     bind_ok (seek_end E f 0 w) (\<lambda>len w.
     (let want = min max_bytes len in
      bind_ok (seek_end E f (- want) w) (\<lambda>_ w.
      bind_ok (read_exact E f (unat want) w) (\<lambda>buf w.
      (let lines = str_lines (from_utf8_lossy buf);
           lines = (if want < len \<and> lines \<noteq> [] then tl lines else lines);
           start = length lines - n
       in (Inr (drop start lines), w)))))))"

definition log_path :: "string \<Rightarrow> string \<Rightarrow> string \<Rightarrow> string" where
  "log_path log_dir name kind = path_join log_dir (''shield-'' @ name @ ''.'' @ kind @ ''.log'')"

section \<open>As JSON\<close>

definition limit_json :: "string \<times> string \<times> string \<Rightarrow> string" where
  "limit_json l =
     (case l of (k, v, src) \<Rightarrow>
        fst (obj_done (obj_str (obj_str (obj_str obj_new ''key'' k) ''value'' v) ''source'' src)))"

definition service_json :: "service \<Rightarrow> string" where
  "service_json s =
     (let ls = arr (map limit_json (limits s));
          o1 = obj_str obj_new ''profile'' (svc_profile s);
          o1 = obj_str o1 ''name'' (log_name s);
          o1 = obj_str o1 ''port'' (listen_port s);
          o1 = obj_str o1 ''upstream'' (upstream s);
          o1 = obj_str o1 ''preset'' (preset s);
          o1 = obj_raw o1 ''limits'' ls
      in fst (obj_done o1))"

definition ban_json :: "u64 \<Rightarrow> ban \<Rightarrow> string" where
  "ban_json now b =
     (let o1 = obj_num (obj_str obj_new ''addr'' (ban_addr b)) ''until'' (ban_until b);
          o1 = obj_bool o1 ''permanent'' (ban_until b = 0);
          o1 = obj_num o1 ''remaining'' (sat_sub (ban_until b) now)
      in fst (obj_done o1))"

definition now_s :: "'w env \<Rightarrow> 'w \<Rightarrow> u64 \<times> 'w" where
  "now_s E w = (case wall_clock E w of (d, w) \<Rightarrow> (unwrap_or d 0, w))"

section \<open>JSON texts\<close>

definition limit_value :: "string \<times> string \<times> string \<Rightarrow> json" where
  "limit_value l = (case l of (k, v, src) \<Rightarrow> JObj [(''key'', JStr k), (''value'', JStr v), (''source'', JStr src)])"

definition service_value :: "service \<Rightarrow> json" where
  "service_value s =
     JObj [(''profile'', JStr (svc_profile s)), (''name'', JStr (log_name s)), (''port'', JStr (listen_port s)),
           (''upstream'', JStr (upstream s)), (''preset'', JStr (preset s)),
           (''limits'', JArr (map limit_value (limits s)))]"

definition ban_value_json :: "u64 \<Rightarrow> ban \<Rightarrow> json" where
  "ban_value_json t b =
     JObj [(''addr'', JStr (ban_addr b)), (''until'', JNum (ban_until b)), (''permanent'', JBool (ban_until b = 0)),
           (''remaining'', JNum (sat_sub (ban_until b) t))]"

lemma limit_json_text: "limit_json l = json_text (limit_value l)"
  by (cases l) (simp only: limit_json_def limit_value_def json_build prod.case)

lemma service_json_text: "service_json s = json_text (service_value s)"
proof -
  have ls: "map limit_json (limits s) = map (\<lambda>l. json_text (limit_value l)) (limits s)"
    by (simp only: limit_json_text [abs_def])
  show ?thesis
    unfolding service_json_def service_value_def Let_def ls by (simp only: json_build)
qed

lemma ban_json_text: "ban_json t b = json_text (ban_value_json t b)"
  by (simp only: ban_json_def ban_value_json_def Let_def json_build)

section \<open>The tail of a log\<close>

text \<open>
  What the reader relies on of files: an open file has its bytes and a position, seeking from
  the end sets the position and reports it, and an exact read within the file returns the
  bytes. Lengths are below the range of a signed offset.
\<close>

locale log_files =
  fixes E :: "'w env"
    and content :: "'w \<Rightarrow> string \<Rightarrow> string option"
    and opened :: "'w \<Rightarrow> nat \<Rightarrow> (string \<times> nat) option"
  assumes open_hit: "content w path = Some s \<Longrightarrow>
      \<exists>f w'. file_open E path w = (Inr f, w') \<and> opened w' f = Some (s, 0)"
    and open_miss: "content w path = None \<Longrightarrow> \<exists>w'. file_open E path w = (Inl NotFound, w')"
    and seek: "opened w f = Some (s, i) \<Longrightarrow> length s < 2 ^ 63 \<Longrightarrow> d \<le> length s \<Longrightarrow>
      \<exists>w'. seek_end E f (- of_nat d) w = (Inr (of_nat (length s - d)), w') \<and> opened w' f = Some (s, length s - d)"
    and read: "opened w f = Some (s, i) \<Longrightarrow> i + n \<le> length s \<Longrightarrow>
      \<exists>w'. read_exact E f n w = (Inr (take n (drop i s)), w')"
begin

lemma tail_bytes:
  fixes max_bytes :: u64
  assumes "content w path = Some s" "length s < 2 ^ 63"
  defines "want \<equiv> min (unat max_bytes) (length s)"
  shows "\<exists>w'. tail E path n max_bytes w =
    (Inr (let ls = str_lines (from_utf8_lossy (drop (length s - want) s));
              ls' = (if want < length s \<and> ls \<noteq> [] then tl ls else ls)
          in drop (length ls' - n) ls'), w')"
proof -
  obtain f w1 where 1: "file_open E path w = (Inr f, w1)" "opened w1 f = Some (s, 0)"
    using open_hit assms(1) by blast
  obtain w2 where 2: "seek_end E f 0 w1 = (Inr (of_nat (length s)), w2)" "opened w2 f = Some (s, length s)"
    using seek [OF 1(2) assms(2), of 0] by auto
  have len: "unat (of_nat (length s) :: u64) = length s"
    using assms(2) by (simp add: unat_of_nat)
  have mn: "unat (min max_bytes (of_nat (length s))) = want"
    by (auto simp: want_def min_def word_le_nat_alt len)
  then have mn': "min max_bytes (of_nat (length s)) = of_nat want"
    by (metis of_nat_unat ucast_id)
  obtain w3 where 3: "seek_end E f (- of_nat want) w2 = (Inr (of_nat (length s - want)), w3)"
      "opened w3 f = Some (s, length s - want)"
    using seek [OF 2(2) assms(2), of want] by (auto simp: want_def)
  obtain w4 where 4: "read_exact E f want w3 = (Inr (drop (length s - want) s), w4)"
    using read [OF 3(2), of want] by (auto simp: want_def)
  have lt: "(of_nat want < (of_nat (length s) :: u64)) = (want < length s)"
    using mn mn' len by (simp add: word_less_nat_alt)
  have uw: "unat (of_nat want :: u64) = want" using mn mn' by simp
  show ?thesis
    using 1 2 3 4 by (simp add: tail_def mn' lt uw Let_def)
qed

lemma tail_missing: "content w path = None \<Longrightarrow> \<exists>w'. tail E path n max_bytes w = (Inl NotFound, w')"
  using open_miss [of w path] by (auto simp: tail_def)

lemma tail_lines:
  assumes "content w path = Some (print_lines ls)" "length (print_lines ls) < 2 ^ 63"
    and ok: "\<And>l. l \<in> set ls \<Longrightarrow> line_ok l \<and> utf8_valid l"
  shows "\<exists>k w'. tail E path n max_bytes w = (Inr (drop k ls), w') \<and> length ls \<le> k + n
    \<and> (length (print_lines ls) \<le> unat max_bytes \<longrightarrow> k = length ls - n)"
proof -
  let ?s = "print_lines ls"
  let ?want = "min (unat max_bytes) (length ?s)"
  let ?win = "drop (length ?s - ?want) ?s"
  obtain w' where w': "tail E path n max_bytes w =
    (Inr (let l1 = str_lines (from_utf8_lossy ?win);
              l2 = (if ?want < length ?s \<and> l1 \<noteq> [] then tl l1 else l1)
          in drop (length l2 - n) l2), w')"
    using tail_bytes [OF assms(1,2)] by blast
  have whole: "str_lines (from_utf8_lossy (print_lines (drop j ls))) = drop j ls" for j
  proof -
    have "list_all line_ok (drop j ls)" "\<And>l. l \<in> set (drop j ls) \<Longrightarrow> utf8_valid l"
      using ok by (auto simp: list_all_iff dest!: in_set_dropD)
    then show ?thesis by (simp add: lossy_print_lines str_lines_print_lines)
  qed
  show ?thesis
  proof (cases "length ?s \<le> unat max_bytes")
    case True
    then have "?want = length ?s" by simp
    with w' whole [of 0] show ?thesis by (intro exI [of _ "length ls - n"]) (simp add: Let_def)
  next
    case False
    then have win: "?want = unat max_bytes" "?want < length ?s" by simp_all
    have "\<exists>j. tl (str_lines (from_utf8_lossy ?win)) = drop j ls"
    proof (cases "unat max_bytes = 0")
      case True
      then show ?thesis using win by (intro exI [of _ "length ls"]) simp
    next
      case False
      have "\<And>l. l \<in> set ls \<Longrightarrow> newline \<notin> set l" using ok by (simp add: line_ok_def)
      moreover have "length ?s - ?want < length ?s" using False win by linarith
      ultimately obtain r j where r: "?win = r @ newline # print_lines (drop j ls)" "newline \<notin> set r"
        using drop_print_lines by blast
      then obtain x where "str_lines (from_utf8_lossy ?win) = x # str_lines (from_utf8_lossy (print_lines (drop j ls)))"
        using str_lines_fragment [OF newline_lossy [OF r(2)]] by (auto simp: from_utf8_lossy_append)
      with whole [of j] show ?thesis by auto
    qed
    then obtain j where j: "tl (str_lines (from_utf8_lossy ?win)) = drop j ls" by blast
    let ?l2 = "if ?want < length ?s \<and> str_lines (from_utf8_lossy ?win) \<noteq> []
      then tl (str_lines (from_utf8_lossy ?win)) else str_lines (from_utf8_lossy ?win)"
    obtain j' where j': "?l2 = drop j' ls"
    proof (cases "str_lines (from_utf8_lossy ?win) = []")
      case True
      then show ?thesis using that [of "length ls"] by simp
    next
      case False
      then show ?thesis using that [of j] j win by simp
    qed
    have "tail E path n max_bytes w = (Inr (drop (length (drop j' ls) - n) (drop j' ls)), w')"
      using w' unfolding Let_def j' .
    then show ?thesis
      using False by (intro exI [of _ "length (drop j' ls) - n + j'"] exI [of _ w']) simp
  qed
qed

end

section \<open>Reading the tools\<close>

text \<open>A command that succeeds with whole lines of valid text on standard output.\<close>

lemma run_lines:
  assumes "exec E bin args w = (Inr out, w')" "success out" "out_bytes out = print_lines ls"
    and "\<And>l. l \<in> set ls \<Longrightarrow> line_ok l \<and> utf8_valid l"
  shows "run E bin args w = (Inr (print_lines ls), w') \<and> str_lines (print_lines ls) = ls"
  using assms
  by (auto simp: run_def lossy_print_lines list_all_iff intro!: str_lines_print_lines)

lemma config_line_fields:
  "tab \<notin> set s \<Longrightarrow> tab \<notin> set k \<Longrightarrow> config_line (s @ tab # k @ tab # v) = Some (s, k, v)"
  by (simp add: config_line_def numeral_3_eq_3 split_once_append)

lemma config_load_lines:
  assumes "exec E bin (case ef of None \<Rightarrow> [''show'', ''--porcelain''] | Some f \<Rightarrow> [''show'', ''--porcelain'', ''-f'', f]) w
      = (Inr out, w')"
    and "success out" "out_bytes out = print_lines (map (\<lambda>(s, k, v). s @ tab # k @ tab # v) es)"
    and "\<And>s k v. (s, k, v) \<in> set es \<Longrightarrow> tab \<notin> set s \<and> tab \<notin> set k
        \<and> line_ok (s @ tab # k @ tab # v) \<and> utf8_valid (s @ tab # k @ tab # v)"
    and "utf8_valid bin" "\<And>f. ef = Some f \<Longrightarrow> utf8_valid f"
  shows "config_load E bin ef w = (Inr \<lparr>entries = es\<rparr>, w')"
proof -
  let ?g = "\<lambda>(s, k, v). s @ tab # k @ tab # v"
  have ok: "line_ok l \<and> utf8_valid l" if "l \<in> set (map ?g es)" for l
    using that assms(4) by auto
  have r: "run E bin (case ef of None \<Rightarrow> [''show'', ''--porcelain''] | Some f \<Rightarrow> [''show'', ''--porcelain'', ''-f'', f]) w
      = (Inr (print_lines (map ?g es)), w')" "str_lines (print_lines (map ?g es)) = map ?g es"
    using run_lines [OF assms(1-3) ok] by blast+
  moreover have "filter_map config_line (map ?g es) = es"
    using filter_map_map [of es config_line ?g id] assms(4) by (auto simp: config_line_fields)
  ultimately show ?thesis
    using assms(5,6) by (cases ef) (simp_all add: config_load_def to_str_def)
qed

end
