(* ===== verification/Http.thy ===== *)
theory Http
  imports Json
begin

text \<open>
  The HTTP server of the dashboard (\<open>ui/src/http.rs\<close>): percent-decoding, query parsing, the
  bounded request reader, the response writer and the accept loop. The bytes a peer sends are
  the input of the model; the socket calls that write are parameters.
\<close>

section \<open>Requests and responses\<close>

definition MAX_REQUEST_LINE :: nat where
  "MAX_REQUEST_LINE = 8 * 1024"

definition MAX_HEADER_BYTES :: nat where
  "MAX_HEADER_BYTES = 32 * 1024"

definition MAX_HEADERS :: nat where
  "MAX_HEADERS = 100"

record request =
  req_path :: string
  req_query :: "(string \<times> string) list"

definition param :: "request \<Rightarrow> string \<Rightarrow> string option" where
  "param req key = map_option snd (find (\<lambda>(k, v). k = key) (req_query req))"

record response =
  resp_status :: u16
  resp_content_type :: string
  resp_body :: string

definition response_json :: "string \<Rightarrow> response" where
  "response_json b =
     \<lparr>resp_status = 200, resp_content_type = ''application/json; charset=utf-8'', resp_body = b\<rparr>"

definition response_html :: "string \<Rightarrow> response" where
  "response_html b =
     \<lparr>resp_status = 200, resp_content_type = ''text/html; charset=utf-8'', resp_body = b\<rparr>"

definition response_error :: "u16 \<Rightarrow> string \<Rightarrow> response" where
  "response_error status msg =
     (let o1 = obj_str obj_new ''error'' msg in
      \<lparr>resp_status = status, resp_content_type = ''application/json; charset=utf-8'',
       resp_body = fst (obj_done o1)\<rparr>)"

definition reason :: "u16 \<Rightarrow> string" where
  "reason status =
     (if status = 200 then ''OK''
      else if status = 400 then ''Bad Request''
      else if status = 404 then ''Not Found''
      else if status = 405 then ''Method Not Allowed''
      else if status = 413 then ''Payload Too Large''
      else if status = 500 then ''Internal Server Error''
      else ''Unknown'')"

section \<open>Percent-decoding and the query\<close>

definition hex_byte :: "char \<Rightarrow> char \<Rightarrow> nat option" where
  "hex_byte h1 h2 = (if utf8_valid [h1, h2] then from_str_radix 255 16 [h1, h2] else None)"

text \<open>The loop of \<open>percent_decode\<close>, on the bytes from index \<open>i\<close> on.\<close>

fun decode_bytes :: "string \<Rightarrow> string" where
  "decode_bytes [] = []"
| "decode_bytes (c # cs) =
     (if c = CHR ''+'' then CHR '' '' # decode_bytes cs
      else if c = CHR ''%'' then
        (case cs of
           h1 # h2 # cs2 \<Rightarrow>
             (case hex_byte h1 h2 of
                Some v \<Rightarrow> char_of v # decode_bytes cs2
              | None \<Rightarrow> c # decode_bytes cs)
         | _ \<Rightarrow> c # decode_bytes cs)
      else c # decode_bytes cs)"

definition percent_decode :: "string \<Rightarrow> string" where
  "percent_decode s = from_utf8_lossy (decode_bytes s)"

definition parse_query :: "string \<Rightarrow> (string \<times> string) list" where
  "parse_query q =
     map (\<lambda>p. case split_once (CHR ''='') p of
                Some (k, v) \<Rightarrow> (percent_decode k, percent_decode v)
              | None \<Rightarrow> (percent_decode p, []))
       (filter (\<lambda>p. p \<noteq> []) (split_char (CHR ''&'') q))"

section \<open>Reading a request\<close>

text \<open>
  What a peer sends: the bytes that arrive, and whether the connection then fails (a read
  error or the read timeout) or is closed in order.
\<close>

record tcp_in =
  pending :: string
  fails :: bool

text \<open>
  \<open>take(lim).read_line\<close>: up to and including the first newline, but no more than \<open>lim\<close> bytes;
  an error when the connection fails first or the bytes are not UTF-8.
\<close>

definition read_line :: "nat \<Rightarrow> tcp_in \<Rightarrow> (string \<times> tcp_in) option" where
  "read_line lim st =
     (let w = take lim (pending st);
          line = (if newline \<in> set w then takeWhile (\<lambda>c. c \<noteq> newline) w @ [newline] else w)
      in if newline \<notin> set w \<and> length (pending st) < lim \<and> fails st then None
         else if \<not> utf8_valid line then None
         else Some (line, st\<lparr>pending := drop (length line) (pending st)\<rparr>))"

function drain_headers :: "nat \<Rightarrow> nat \<Rightarrow> tcp_in \<Rightarrow> response + tcp_in" where
  "drain_headers i tot st =
     (if i \<ge> MAX_HEADERS then Inl (response_error 413 ''too many headers'')
      else case read_line MAX_REQUEST_LINE st of
        None \<Rightarrow> Inl (response_error 400 ''unreadable headers'')
      | Some (h, st') \<Rightarrow>
          if length h = 0 \<or> h = [carriage_return, newline] \<or> h = [newline] then Inr st'
          else if tot + length h > MAX_HEADER_BYTES then Inl (response_error 413 ''headers too large'')
          else drain_headers (Suc i) (tot + length h) st')"
  by pat_completeness auto
termination
  by (relation "measure (\<lambda>(i, tot, st). MAX_HEADERS - i)") auto

declare drain_headers.simps [simp del]

definition nth_or_empty :: "string list \<Rightarrow> nat \<Rightarrow> string" where
  "nth_or_empty ps i = (if i < length ps then ps ! i else [])"

definition read_request :: "tcp_in \<Rightarrow> response + request" where
  "read_request st =
     (case read_line MAX_REQUEST_LINE st of
        None \<Rightarrow> Inl (response_error 400 ''unreadable request'')
      | Some (line, st1) \<Rightarrow>
          if length line = 0 then Inl (response_error 400 ''empty request'')
          else if length line \<ge> MAX_REQUEST_LINE \<and> \<not> ends_with line [newline]
          then Inl (response_error 413 ''request line too long'')
          else
            (let parts = split_char (CHR '' '') (trim_end line);
                 meth = nth_or_empty parts 0;
                 target = nth_or_empty parts 1
             in if meth \<noteq> ''GET'' then Inl (response_error 405 ''only GET is served'')
                else case drain_headers 0 0 st1 of
                  Inl e \<Rightarrow> Inl e
                | Inr _ \<Rightarrow>
                    (let (p, q) = (case split_once (CHR ''?'') target of
                                     Some (p, q) \<Rightarrow> (p, parse_query q)
                                   | None \<Rightarrow> (target, []))
                     in Inr \<lparr>req_path = percent_decode p, req_query = q\<rparr>)))"

section \<open>Writing a response\<close>

abbreviation crlf :: string where
  "crlf \<equiv> [carriage_return, newline]"

definition response_head :: "response \<Rightarrow> string" where
  "response_head r =
     ''HTTP/1.1 '' @ string_of_nat (unat (resp_status r)) @ '' '' @ reason (resp_status r) @ crlf @
     ''Content-Type: '' @ resp_content_type r @ crlf @
     ''Content-Length: '' @ string_of_nat (length (resp_body r)) @ crlf @
     ''Connection: close'' @ crlf @
     ''Cache-Control: no-store'' @ crlf @
     ''X-Content-Type-Options: nosniff'' @ crlf @
     ''X-Frame-Options: DENY'' @ crlf @
     ''Referrer-Policy: no-referrer'' @ crlf @
     ''Content-Security-Policy: default-src 'none'; style-src 'unsafe-inline'; '' @
     ''script-src 'unsafe-inline'; connect-src 'self'' @ [CHR 0x27] @ crlf @
     crlf"

text \<open>
  The calls on the connected socket that can fail, on the state \<open>'s\<close> of the socket. The
  result \<open>False\<close> is an I/O error.
\<close>

record 's sock =
  sock_write_all :: "string \<Rightarrow> 's \<Rightarrow> bool \<times> 's"
  sock_flush :: "'s \<Rightarrow> bool \<times> 's"
  sock_shutdown :: "'s \<Rightarrow> bool \<times> 's"

definition write_response :: "'s sock \<Rightarrow> response \<Rightarrow> 's \<Rightarrow> bool \<times> 's" where
  "write_response K resp s =
     (case sock_write_all K (response_head resp) s of
        (False, s1) \<Rightarrow> (False, s1)
      | (True, s1) \<Rightarrow>
          (case sock_write_all K (resp_body resp) s1 of
             (False, s2) \<Rightarrow> (False, s2)
           | (True, s2) \<Rightarrow> sock_flush K s2))"

text \<open>
  The body of a worker thread. The handler reads the state \<open>'w\<close> of the host; both errors of
  the write and of the shutdown are dropped.
\<close>

definition serve_connection ::
  "(request \<Rightarrow> 'w \<Rightarrow> response \<times> 'w) \<Rightarrow> 's sock \<Rightarrow> tcp_in \<Rightarrow> 's \<Rightarrow> 'w \<Rightarrow> 's \<times> 'w" where
  "serve_connection handler K st s w =
     (let (resp, w1) = (case read_request st of Inr req \<Rightarrow> handler req w | Inl e \<Rightarrow> (e, w));
          (_, s1) = write_response K resp s;
          (_, s2) = sock_shutdown K s1
      in (s2, w1))"

text \<open>The accept loop over the connections accepted so far; a failed accept is skipped.\<close>

fun serve ::
  "(request \<Rightarrow> 'w \<Rightarrow> response \<times> 'w) \<Rightarrow> 's sock \<Rightarrow> (tcp_in \<times> 's) option list \<Rightarrow> 'w \<Rightarrow> 's list \<times> 'w" where
  "serve handler K [] w = ([], w)"
| "serve handler K (None # cs) w = serve handler K cs w"
| "serve handler K (Some (st, s) # cs) w =
     (let (s1, w1) = serve_connection handler K st s w;
          (ss, w2) = serve handler K cs w1
      in (s1 # ss, w2))"

section \<open>Percent-encoding, the inverse used in the round trips\<close>

text \<open>Letters, digits and the marks that RFC 3986 leaves unescaped.\<close>

definition unreserved :: "char \<Rightarrow> bool" where
  "unreserved c =
     (let n = byte c in
      (48 \<le> n \<and> n \<le> 57) \<or> (65 \<le> n \<and> n \<le> 90) \<or> (97 \<le> n \<and> n \<le> 122) \<or>
      c = CHR ''-'' \<or> c = CHR ''.'' \<or> c = CHR ''_'' \<or> c = CHR ''~'' \<or> c = CHR ''/'')"

definition percent_encode :: "string \<Rightarrow> string" where
  "percent_encode s =
     concat (map (\<lambda>c. if unreserved c then [c]
                      else [CHR ''%'', digit_char (byte c div 16), digit_char (byte c mod 16)]) s)"

definition encode_query :: "(string \<times> string) list \<Rightarrow> string" where
  "encode_query kvs = join ''&'' (map (\<lambda>(k, v). percent_encode k @ ''='' @ percent_encode v) kvs)"

section \<open>Laws of the codec\<close>

lemma byte_bound: "byte c < 256"
  using nat_of_char_less_256 by (simp add: of_char_def)

lemma hex_byte_digits:
  assumes "a < 16" "b < 16"
  shows "hex_byte (digit_char a) (digit_char b) = Some (a * 16 + b)"
proof -
  have "byte (digit_char a) \<noteq> byte (CHR ''+'')" using assms by (simp add: byte_digit_char)
  then have "digit_char a \<noteq> CHR ''+''" by metis
  moreover have "utf8_valid [digit_char a, digit_char b]"
    by (rule utf8_valid_all_ascii) (use assms in \<open>simp add: byte_digit_char\<close>)
  moreover have "a * 16 + b \<le> 255" using assms by linarith
  ultimately show ?thesis
    using assms by (simp add: hex_byte_def from_str_radix_def to_digit_digit_char)
qed

lemma percent_encode_Cons:
  "percent_encode (c # s) =
     (if unreserved c then [c]
      else [CHR ''%'', digit_char (byte c div 16), digit_char (byte c mod 16)]) @ percent_encode s"
  by (simp add: percent_encode_def)

lemma decode_percent_encode: "decode_bytes (percent_encode s) = s"
proof (induction s)
  case Nil
  then show ?case by (simp add: percent_encode_def)
next
  case (Cons c s)
  have "byte c div 16 < 16" using byte_bound [of c] by (simp add: less_mult_imp_div_less)
  then have "hex_byte (digit_char (byte c div 16)) (digit_char (byte c mod 16)) = Some (byte c)"
    by (simp add: hex_byte_digits)
  moreover have "c \<noteq> CHR ''+''" "c \<noteq> CHR ''%''" if "unreserved c"
    using that by (auto simp: unreserved_def)
  ultimately show ?case
    using Cons by (simp add: percent_encode_Cons)
qed

lemma percent_decode_encode: "utf8_valid s \<Longrightarrow> percent_decode (percent_encode s) = s"
  by (simp add: percent_decode_def decode_percent_encode from_utf8_lossy_id)

text \<open>The characters an encoded text can hold: none of the delimiters of a request line.\<close>

definition target_char :: "char \<Rightarrow> bool" where
  "target_char c = (plain c \<and> c \<noteq> CHR ''&'' \<and> c \<noteq> CHR ''='' \<and> c \<noteq> CHR ''?'')"

lemma target_char_digit: "d < 16 \<Longrightarrow> target_char (digit_char d)"
proof -
  assume "d < 16"
  then have "byte (digit_char d) \<notin> {byte (CHR ''&''), byte (CHR ''=''), byte (CHR ''?'')}"
    by (simp add: byte_digit_char)
  with \<open>d < 16\<close> show ?thesis by (auto simp: target_char_def plain_digit_char)
qed

lemma target_char_encode: "list_all target_char (percent_encode s)"
proof (induction s)
  case Nil
  then show ?case by (simp add: percent_encode_def)
next
  case (Cons c s)
  have "byte c div 16 < 16" using byte_bound [of c] by (simp add: less_mult_imp_div_less)
  moreover have "target_char c" if "unreserved c"
    using that by (auto simp: unreserved_def target_char_def plain_def Let_def)
  moreover have "target_char (CHR ''%'')" by (simp add: target_char_def plain_def)
  ultimately show ?case using Cons by (simp add: percent_encode_Cons target_char_digit)
qed

lemma encode_no_delims:
  "CHR ''&'' \<notin> set (percent_encode s)" "CHR ''='' \<notin> set (percent_encode s)"
  "CHR ''?'' \<notin> set (percent_encode s)"
  using target_char_encode [of s] by (auto simp: list_all_iff target_char_def)

lemma parse_query_encode:
  assumes "\<And>k v. (k, v) \<in> set kvs \<Longrightarrow> utf8_valid k \<and> utf8_valid v"
  shows "parse_query (encode_query kvs) = kvs"
proof -
  let ?piece = "\<lambda>(k, v). percent_encode k @ ''='' @ percent_encode v"
  have split: "split_char (CHR ''&'') (encode_query kvs) = (if kvs = [] then [[]] else map ?piece kvs)"
  proof (cases "kvs = []")
    case False
    then show ?thesis unfolding encode_query_def
      by (subst split_char_join) (auto simp: encode_no_delims)
  qed (simp add: encode_query_def)
  have keep: "filter (\<lambda>p. p \<noteq> []) (map ?piece kvs) = map ?piece kvs"
    by (rule filter_True) auto
  have undo: "map (\<lambda>p. case split_once (CHR ''='') p of
                Some (k, v) \<Rightarrow> (percent_decode k, percent_decode v)
              | None \<Rightarrow> (percent_decode p, [])) (map ?piece kvs) = kvs"
    using assms by (auto intro!: map_idI simp: split_once_append encode_no_delims percent_decode_encode)
  show ?thesis
    unfolding parse_query_def split using keep undo by (cases "kvs = []") auto
qed

section \<open>Laws of the request reader\<close>

lemma read_line_complete:
  assumes "newline \<notin> set l" "length l < lim" "utf8_valid (l @ [newline])"
  shows "read_line lim \<lparr>pending = l @ newline # r, fails = f\<rparr> =
           Some (l @ [newline], \<lparr>pending = r, fails = f\<rparr>)"
proof -
  obtain d where d: "lim = length l + Suc d"
    using assms(2) less_imp_Suc_add by auto
  have "takeWhile (\<lambda>c. c \<noteq> newline) (l @ newline # take d r) = l"
    using assms(1) by (simp add: takeWhile_append)
  then show ?thesis
    using assms(3) by (simp add: read_line_def d)
qed

lemma ends_with_snoc [simp]: "ends_with (l @ [c]) [c]"
  by (simp add: ends_with_def)

lemma trim_end_ascii_ws: "ascii_ws c \<Longrightarrow> trim_end (s @ [c]) = trim_end s"
proof -
  assume "ascii_ws c"
  then have "ws_rest_rev (c # rev s) = Some (rev s)"
    by (cases "c # rev s" rule: ws_rest_rev.cases) auto
  then show ?thesis by (simp add: trim_end_def trim_end_rev.simps [of "c # rev s"])
qed

text \<open>A header line as a client sends it, without its line end.\<close>

definition header_ok :: "string \<Rightarrow> bool" where
  "header_ok h =
     (h \<noteq> [] \<and> newline \<notin> set h \<and> utf8_valid (h @ crlf) \<and> length (h @ crlf) \<le> MAX_REQUEST_LINE)"

lemma drain_headers_ok:
  assumes "list_all header_ok hs" "i + length hs < MAX_HEADERS"
    and "t + length (concat (map (\<lambda>h. h @ crlf) hs)) \<le> MAX_HEADER_BYTES"
  shows "drain_headers i t \<lparr>pending = concat (map (\<lambda>h. h @ crlf) hs) @ crlf @ rest, fails = f\<rparr>
           = Inr \<lparr>pending = rest, fails = f\<rparr>"
  using assms
proof (induction hs arbitrary: i t)
  case Nil
  then show ?case
    using read_line_complete [of "[carriage_return]" MAX_REQUEST_LINE rest f]
    by (simp add: drain_headers.simps [of i] MAX_REQUEST_LINE_def)
next
  case (Cons h hs)
  let ?tail = "concat (map (\<lambda>h. h @ crlf) hs) @ crlf @ rest"
  have "read_line MAX_REQUEST_LINE \<lparr>pending = (h @ [carriage_return]) @ newline # ?tail, fails = f\<rparr>
          = Some ((h @ [carriage_return]) @ [newline], \<lparr>pending = ?tail, fails = f\<rparr>)"
    using Cons.prems(1) by (intro read_line_complete) (simp_all add: header_ok_def)
  moreover have "drain_headers (Suc i) (t + length (h @ crlf)) \<lparr>pending = ?tail, fails = f\<rparr>
      = Inr \<lparr>pending = rest, fails = f\<rparr>"
    using Cons.prems by (intro Cons.IH) simp_all
  ultimately show ?case
    using Cons.prems by (simp add: drain_headers.simps [of i] header_ok_def)
qed

lemma read_line_window:
  assumes "lim \<le> length p"
  shows "\<exists>ol. (\<forall>x f. read_line lim \<lparr>pending = p @ x, fails = f\<rparr> =
             map_option (\<lambda>l. (l, \<lparr>pending = drop (length l) p @ x, fails = f\<rparr>)) ol)
           \<and> (\<forall>l. ol = Some l \<longrightarrow> length l \<le> lim)"
proof -
  let ?w = "take lim p"
  let ?line = "if newline \<in> set ?w then takeWhile (\<lambda>c. c \<noteq> newline) ?w @ [newline] else ?w"
  have len: "length ?line \<le> lim"
  proof (cases "newline \<in> set ?w")
    case True
    then obtain a b where "?w = a @ newline # b" "newline \<notin> set a"
      by (metis split_list_first)
    moreover then have "length a < length ?w" by simp
    ultimately have "length (takeWhile (\<lambda>c. c \<noteq> newline) ?w) < length ?w"
      by (simp add: takeWhile_append)
    with True show ?thesis by simp
  qed simp
  then have "length ?line \<le> length p" using assms by linarith
  with len assms show ?thesis
    by (intro exI [of _ "if utf8_valid ?line then Some ?line else None"])
      (simp add: read_line_def Let_def)
qed

definition outcome :: "'e + 'a \<Rightarrow> 'e option" where
  "outcome r = (case r of Inl e \<Rightarrow> Some e | Inr _ \<Rightarrow> None)"

lemma drain_headers_window:
  assumes "t \<le> MAX_HEADER_BYTES" "MAX_HEADER_BYTES - t + MAX_REQUEST_LINE \<le> length p"
  shows "outcome (drain_headers i t \<lparr>pending = p @ x, fails = f\<rparr>) =
         outcome (drain_headers i t \<lparr>pending = p @ y, fails = g\<rparr>)"
  using assms
proof (induction "MAX_HEADERS - i" arbitrary: i t p)
  case 0
  then show ?case by (simp add: drain_headers.simps [of i] outcome_def)
next
  case (Suc n)
  obtain ol where ol: "\<And>x f. read_line MAX_REQUEST_LINE \<lparr>pending = p @ x, fails = f\<rparr> =
             map_option (\<lambda>l. (l, \<lparr>pending = drop (length l) p @ x, fails = f\<rparr>)) ol"
    using read_line_window [of MAX_REQUEST_LINE p] Suc.prems by force
  have step: "outcome (drain_headers (Suc i) (t + length l) \<lparr>pending = drop (length l) p @ x, fails = f\<rparr>) =
      outcome (drain_headers (Suc i) (t + length l) \<lparr>pending = drop (length l) p @ y, fails = g\<rparr>)"
    if "t + length l \<le> MAX_HEADER_BYTES" for l
    using that Suc.hyps(2) Suc.prems by (intro Suc.hyps(1)) auto
  show ?case
    using step by (cases ol) (auto simp: drain_headers.simps [of i] ol outcome_def not_less)
qed

lemma drain_headers_error:
  "drain_headers i t st = Inl e \<Longrightarrow> resp_status e \<in> {400, 413}"
proof (induction i t st rule: drain_headers.induct)
  case (1 i t st)
  then show ?case
    by (auto simp: drain_headers.simps [of i t st] response_error_def Let_def
        split: if_splits option.splits)
qed

section \<open>Properties of the server\<close>

text \<open>The request line a client sends for a path and query pairs.\<close>

definition get_line :: "string \<Rightarrow> (string \<times> string) list \<Rightarrow> string" where
  "get_line p kvs =
     ''GET '' @ percent_encode p @ ''?'' @ encode_query kvs @ '' HTTP/1.1'' @ crlf"

lemma plain_percent_encode: "list_all plain (percent_encode s)"
  using target_char_encode [of s] by (auto simp: list_all_iff target_char_def)

lemma plain_encode_query: "list_all plain (encode_query kvs)"
proof -
  have join_plain: "list_all plain (join ''&'' ps)" if "\<And>p. p \<in> set ps \<Longrightarrow> list_all plain p" for ps
    using that by (induction "''&''" ps rule: join.induct) (auto simp: plain_def)
  show ?thesis unfolding encode_query_def
    by (rule join_plain) (auto simp: plain_percent_encode, simp add: plain_def)
qed

lemma plain_ascii: "list_all plain s \<Longrightarrow> list_all (\<lambda>c. byte c < 128) s"
  by (auto simp: list_all_iff plain_def)

lemma plain_no_space: "list_all plain s \<Longrightarrow> CHR '' '' \<notin> set s \<and> newline \<notin> set s"
  by (auto simp: list_all_iff plain_def)

lemma get_line_parts:
  defines "tgt \<equiv> \<lambda>p kvs. percent_encode p @ ''?'' @ encode_query kvs"
  shows "split_char (CHR '' '') (trim_end (get_line p kvs)) = [''GET'', tgt p kvs, ''HTTP/1.1'']"
proof -
  have "get_line p kvs = (((''GET '' @ tgt p kvs @ '' HTTP/1.'') @ ''1'') @ [carriage_return]) @ [newline]"
    by (simp add: get_line_def tgt_def)
  moreover have "trim_end (((s @ ''1'') @ [carriage_return]) @ [newline]) = s @ ''1''" for s
    using trim_end_ascii_ws [of newline "(s @ ''1'') @ [carriage_return]"]
      trim_end_ascii_ws [of carriage_return "s @ ''1''"] trim_end_plain [of "CHR ''1''" s]
    by (simp add: ascii_ws_def plain_def)
  ultimately have "trim_end (get_line p kvs) = (''GET '' @ tgt p kvs @ '' HTTP/1.'') @ ''1''"
    by (simp only:)
  moreover have "CHR '' '' \<notin> set (tgt p kvs)"
    using plain_no_space [OF plain_percent_encode] plain_no_space [OF plain_encode_query]
    by (simp add: tgt_def)
  ultimately show ?thesis
    using split_char_append [of "CHR '' ''" "''GET''"] split_char_append [of "CHR '' ''" "tgt p kvs"]
    by simp
qed

text \<open>C33. A well-formed GET request is understood exactly: the server recovers the path and
  the query pairs a client percent-encoded into the request line, with every byte of them,
  and consumes up to 99 headers of 32 KiB in total on the way.\<close>

theorem read_request_roundtrip:
  assumes "utf8_valid p" "\<And>k v. (k, v) \<in> set kvs \<Longrightarrow> utf8_valid k \<and> utf8_valid v"
    and "length (get_line p kvs) \<le> MAX_REQUEST_LINE"
    and "list_all header_ok hs" "length hs < MAX_HEADERS"
    and "length (concat (map (\<lambda>h. h @ crlf) hs)) \<le> MAX_HEADER_BYTES"
  shows "read_request \<lparr>pending = get_line p kvs @ concat (map (\<lambda>h. h @ crlf) hs) @ crlf @ rest, fails = f\<rparr>
           = Inr \<lparr>req_path = p, req_query = kvs\<rparr>"
proof -
  let ?l = "''GET '' @ percent_encode p @ ''?'' @ encode_query kvs @ '' HTTP/1.1'' @ [carriage_return]"
  let ?hs = "concat (map (\<lambda>h. h @ crlf) hs) @ crlf @ rest"
  have line: "get_line p kvs = ?l @ [newline]" by (simp add: get_line_def)
  have ascii: "list_all (\<lambda>c. byte c < 128) (?l @ [newline])"
    using plain_ascii [OF plain_percent_encode] plain_ascii [OF plain_encode_query] by simp
  have "read_line MAX_REQUEST_LINE \<lparr>pending = ?l @ newline # ?hs, fails = f\<rparr>
          = Some (?l @ [newline], \<lparr>pending = ?hs, fails = f\<rparr>)"
    using assms(3) line plain_no_space [OF plain_percent_encode] plain_no_space [OF plain_encode_query]
    by (intro read_line_complete utf8_valid_all_ascii ascii) auto
  then have read: "read_line MAX_REQUEST_LINE \<lparr>pending = get_line p kvs @ ?hs, fails = f\<rparr>
          = Some (get_line p kvs, \<lparr>pending = ?hs, fails = f\<rparr>)"
    by (simp add: line)
  have "ends_with (get_line p kvs) [newline]" "get_line p kvs \<noteq> []"
    unfolding line by (simp_all only: ends_with_snoc) simp
  moreover have "drain_headers 0 0 \<lparr>pending = ?hs, fails = f\<rparr> = Inr \<lparr>pending = rest, fails = f\<rparr>"
    using assms(4-6) by (intro drain_headers_ok) simp_all
  moreover have "split_once (CHR ''?'') (percent_encode p @ ''?'' @ encode_query kvs)
      = Some (percent_encode p, encode_query kvs)"
    using split_once_append [OF encode_no_delims(3)] by simp
  ultimately show ?thesis
    unfolding read_request_def read using assms(1,2)
    by (simp add: get_line_parts nth_or_empty_def Let_def
        percent_decode_encode parse_query_encode)
qed

theorem read_request_roundtrip_witness:
  "read_request \<lparr>pending = get_line ''/api/logs'' [(''service'', ''a b''), (''n'', ''5'')]
       @ concat (map (\<lambda>h. h @ crlf) [''Host: x'']) @ crlf @ [], fails = True\<rparr>
     = Inr \<lparr>req_path = ''/api/logs'', req_query = [(''service'', ''a b''), (''n'', ''5'')]\<rparr>"
proof (rule read_request_roundtrip)
  show "utf8_valid ''/api/logs''" by (rule utf8_valid_all_ascii) simp
  show "utf8_valid k \<and> utf8_valid v" if "(k, v) \<in> set [(''service'', ''a b''), (''n'', ''5'')]" for k v
    using that by (auto intro!: utf8_valid_all_ascii)
  show "length (get_line ''/api/logs'' [(''service'', ''a b''), (''n'', ''5'')]) \<le> MAX_REQUEST_LINE"
    by (simp add: get_line_def encode_query_def percent_encode_def unreserved_def MAX_REQUEST_LINE_def)
  show "list_all header_ok [''Host: x'']"
    by (simp add: header_ok_def MAX_REQUEST_LINE_def)
qed (simp_all add: MAX_HEADERS_def MAX_HEADER_BYTES_def)

text \<open>C32. A peer cannot make the server read or allocate without bound: what the server does
  with a connection, error response or request, is decided by the first 48 KiB it sends,
  whatever follows and however the connection then ends.\<close>

theorem read_request_bounded:
  assumes "2 * MAX_REQUEST_LINE + MAX_HEADER_BYTES \<le> length p"
  shows "read_request \<lparr>pending = p @ x, fails = f\<rparr> = read_request \<lparr>pending = p @ y, fails = g\<rparr>"
proof -
  obtain ol where ol: "\<And>x f. read_line MAX_REQUEST_LINE \<lparr>pending = p @ x, fails = f\<rparr> =
             map_option (\<lambda>l. (l, \<lparr>pending = drop (length l) p @ x, fails = f\<rparr>)) ol"
    and len: "\<And>l. ol = Some l \<Longrightarrow> length l \<le> MAX_REQUEST_LINE"
    using read_line_window [of MAX_REQUEST_LINE p] assms by force
  show ?thesis
  proof (cases ol)
    case None
    then show ?thesis by (simp add: read_request_def ol)
  next
    case (Some l)
    let ?d = "\<lambda>x f. drain_headers 0 0 \<lparr>pending = drop (length l) p @ x, fails = f\<rparr>"
    have "outcome (?d x f) = outcome (?d y g)"
      using len [OF Some] assms by (intro drain_headers_window) auto
    then show ?thesis
      using Some by (cases "?d x f"; cases "?d y g") (auto simp: read_request_def ol outcome_def Let_def)
  qed
qed

theorem read_request_bounded_witness:
  "2 * MAX_REQUEST_LINE + MAX_HEADER_BYTES \<le> length (replicate 49152 (CHR ''a'')) \<and>
   read_request \<lparr>pending = replicate 49152 (CHR ''a'') @ [], fails = False\<rparr>
     = read_request \<lparr>pending = replicate 49152 (CHR ''a'') @ ''more'', fails = True\<rparr>"
proof -
  have h: "2 * MAX_REQUEST_LINE + MAX_HEADER_BYTES \<le> length (replicate 49152 (CHR ''a''))"
    by (simp add: MAX_REQUEST_LINE_def MAX_HEADER_BYTES_def)
  show ?thesis using h read_request_bounded [OF h] by blast
qed

text \<open>Only GET is served. A request is accepted only when its line was read and its
  first word is exactly GET; a complete line with any other first word is answered 405
  whatever the headers; every refusal of the reader has status 400, 405 or 413.\<close>

theorem read_request_get_only:
  "(case read_request st of
      Inr req \<Rightarrow> (\<exists>line st1. read_line MAX_REQUEST_LINE st = Some (line, st1) \<and>
                  hd (split_char (CHR '' '') (trim_end line)) = ''GET'')
    | Inl e \<Rightarrow> resp_status e \<in> {400, 405, 413})
   \<and> (\<forall>line st1. read_line MAX_REQUEST_LINE st = Some (line, st1) \<longrightarrow> ends_with line [newline] \<longrightarrow>
        hd (split_char (CHR '' '') (trim_end line)) \<noteq> ''GET'' \<longrightarrow>
        read_request st = Inl (response_error 405 ''only GET is served''))"
proof -
  have hd: "nth_or_empty (split_char (CHR '' '') s) 0 = hd (split_char (CHR '' '') s)" for s
    by (simp add: nth_or_empty_def hd_conv_nth)
  have ne: "line \<noteq> []" if "ends_with line [newline]" for line
    using that by (auto simp: ends_with_def)
  show ?thesis
    by (auto simp: read_request_def hd Let_def response_error_def
        split: option.split sum.split prod.split dest!: drain_headers_error ne)
qed

theorem read_request_get_only_witness:
  "read_request \<lparr>pending = ''POST / HTTP/1.1'' @ crlf, fails = False\<rparr>
     = Inl (response_error 405 ''only GET is served'')"
proof -
  let ?st = "\<lparr>pending = ''POST / HTTP/1.1'' @ crlf, fails = False\<rparr>"
  let ?line = "''POST / HTTP/1.1'' @ crlf"
  have read: "read_line MAX_REQUEST_LINE ?st = Some (?line, \<lparr>pending = [], fails = False\<rparr>)"
    using read_line_complete [of "''POST / HTTP/1.1'' @ [carriage_return]" MAX_REQUEST_LINE "[]" False]
    by (simp add: MAX_REQUEST_LINE_def)
  have "ends_with ?line [newline]" by (simp add: ends_with_def)
  moreover have "hd (split_char (CHR '' '') (trim_end ?line)) \<noteq> ''GET''"
    by (simp add: trim_end_def trim_end_rev.simps ascii_ws_def ws2_def ws3_def)
  ultimately show ?thesis
    using read_request_get_only [of ?st] read by blast
qed

text \<open>
  How a client reads a response: lines up to CRLF, until the first empty line; the rest is
  the body.
\<close>

fun split_crlf :: "string \<Rightarrow> (string \<times> string) option" where
  "split_crlf (c # d # cs) =
     (if c = carriage_return \<and> d = newline then Some ([], cs)
      else map_option (\<lambda>(l, r). (c # l, r)) (split_crlf (d # cs)))"
| "split_crlf _ = None"

lemma split_crlf_shorter: "split_crlf s = Some (l, r) \<Longrightarrow> length r < length s"
  by (induction s arbitrary: l rule: split_crlf.induct) (auto split: if_splits)

function read_head :: "string \<Rightarrow> (string list \<times> string) option" where
  "read_head s =
     (case split_crlf s of
        None \<Rightarrow> None
      | Some (l, r) \<Rightarrow>
          if l = [] then Some ([], r) else map_option (\<lambda>(ls, b). (l # ls, b)) (read_head r))"
  by pat_completeness auto
termination
  by (relation "measure length") (auto dest: split_crlf_shorter)

declare read_head.simps [simp del]

lemma split_crlf_line:
  "carriage_return \<notin> set l \<Longrightarrow> split_crlf (l @ carriage_return # newline # r) = Some (l, r)"
proof (induction l)
  case (Cons c l)
  then show ?case by (cases l) auto
qed simp

lemma read_head_lines:
  "list_all (\<lambda>l. l \<noteq> [] \<and> carriage_return \<notin> set l) ls \<Longrightarrow>
   read_head (concat (map (\<lambda>l. l @ crlf) ls) @ crlf @ b) = Some (ls, b)"
proof (induction ls)
  case Nil
  then show ?case using split_crlf_line [of "[]" b] by (simp add: read_head.simps [of "_ # _"])
next
  case (Cons l ls)
  then show ?case
    using split_crlf_line [of l "concat (map (\<lambda>l. l @ crlf) ls) @ crlf @ b"]
    by (simp add: read_head.simps [of "l @ _"])
qed

definition head_lines :: "response \<Rightarrow> string list" where
  "head_lines r =
     [''HTTP/1.1 '' @ string_of_nat (unat (resp_status r)) @ '' '' @ reason (resp_status r),
      ''Content-Type: '' @ resp_content_type r,
      ''Content-Length: '' @ string_of_nat (length (resp_body r)),
      ''Connection: close'', ''Cache-Control: no-store'', ''X-Content-Type-Options: nosniff'',
      ''X-Frame-Options: DENY'', ''Referrer-Policy: no-referrer'',
      ''Content-Security-Policy: default-src 'none'; style-src 'unsafe-inline'; '' @
        ''script-src 'unsafe-inline'; connect-src 'self'' @ [CHR 0x27]]"

lemma response_head_lines: "response_head r = concat (map (\<lambda>l. l @ crlf) (head_lines r)) @ crlf"
  by (simp add: response_head_def head_lines_def)

lemma head_lines_ok:
  assumes "carriage_return \<notin> set (resp_content_type r)"
  shows "list_all (\<lambda>l. l \<noteq> [] \<and> carriage_return \<notin> set l) (head_lines r)"
proof -
  have "carriage_return \<notin> set (string_of_nat n)" for n
    using plain_string_of_nat [of n] by (auto simp: list_all_iff plain_def)
  moreover have "carriage_return \<notin> set (reason s)" for s
    by (simp add: reason_def)
  ultimately show ?thesis using assms by (simp add: head_lines_def)
qed

text \<open>A response is framed so that it cannot be split: on a socket that accepts the
  writes, a client that reads the header lines up to the empty line finds exactly the nine
  header lines of the server, among them the true length of the body, and then exactly the
  body.\<close>

theorem write_response_framing:
  assumes "\<And>d s. sock_write_all K d s = (True, s @ d)" "\<And>s. sock_flush K s = (True, s)"
    and "carriage_return \<notin> set (resp_content_type r)"
  shows "\<exists>sent. write_response K r [] = (True, sent) \<and> read_head sent = Some (head_lines r, resp_body r)
           \<and> ''Content-Length: '' @ string_of_nat (length (resp_body r)) \<in> set (head_lines r)"
proof -
  have "write_response K r [] = (True, response_head r @ resp_body r)"
    by (simp add: write_response_def assms(1,2))
  moreover have "read_head (response_head r @ resp_body r) = Some (head_lines r, resp_body r)"
    using read_head_lines [OF head_lines_ok [OF assms(3)]] by (simp add: response_head_lines)
  moreover have "''Content-Length: '' @ string_of_nat (length (resp_body r)) \<in> set (head_lines r)"
    by (simp add: head_lines_def)
  ultimately show ?thesis by blast
qed

theorem write_response_framing_witness:
  "\<exists>sent. write_response \<lparr>sock_write_all = \<lambda>d s. (True, s @ d), sock_flush = \<lambda>s. (True, s),
                sock_shutdown = \<lambda>s. (True, s)\<rparr> (response_error 404 ''no such endpoint'') [] = (True, sent) \<and>
      read_head sent = Some (head_lines (response_error 404 ''no such endpoint''),
             resp_body (response_error 404 ''no such endpoint''))"
  using write_response_framing [of "\<lparr>sock_write_all = \<lambda>d s. (True, s @ d), sock_flush = \<lambda>s. (True, s),
                sock_shutdown = \<lambda>s. (True, s)\<rparr>" "response_error 404 ''no such endpoint''"]
  by (force simp: response_error_def)

text \<open>Decoding is the inverse of percent-encoding on every UTF-8 text, its result is
  always UTF-8, and text with neither a plus sign nor a percent sign is left as it is.\<close>

theorem percent_decode_correct:
  "(utf8_valid s \<longrightarrow> percent_decode (percent_encode s) = s) \<and> utf8_valid (percent_decode t)
   \<and> (utf8_valid u \<and> CHR ''+'' \<notin> set u \<and> CHR ''%'' \<notin> set u \<longrightarrow> percent_decode u = u)"
proof -
  have "decode_bytes u = u" if "CHR ''+'' \<notin> set u" "CHR ''%'' \<notin> set u"
    using that by (induction u) auto
  then show ?thesis
    by (auto simp: decode_percent_encode percent_decode_def utf8_valid_lossy from_utf8_lossy_id)
qed

theorem percent_decode_correct_witness:
  "percent_decode (percent_encode ''a b/..%'') = ''a b/..%'' \<and> percent_decode ''plain'' = ''plain''"
proof -
  have "utf8_valid ''a b/..%''" "utf8_valid ''plain''"
    by (rule utf8_valid_all_ascii, simp)+
  then show ?thesis
    using percent_decode_correct [of "''a b/..%''" "[]" "''plain''"] by auto
qed

text \<open>
  A sign is a digit to \<open>from_str_radix\<close>: an escape such as \<open>%+f\<close>, which is not a valid one,
  is decoded instead of being left alone.
\<close>

lemma percent_decode_plus_escape: "percent_decode ''%+f'' = [CHR 0x0F]"
proof -
  have "utf8_valid ''+f''" by (rule utf8_valid_all_ascii) simp
  then have "hex_byte (CHR ''+'') (CHR ''f'') = Some 15"
    by (simp add: hex_byte_def from_str_radix_def to_digit_def)
  moreover have "char_of (15 :: nat) = CHR 0x0F" by code_simp
  ultimately show ?thesis by (simp add: percent_decode_def)
qed

end
