(* ===== verification/Unit_Tests.thy ===== *)
theory Unit_Tests
  imports Collect Http
begin

text \<open>
  The unit tests of the dashboard (the \<open>tests\<close> modules of \<open>ui/src/json.rs\<close>, \<open>ui/src/http.rs\<close> and
  \<open>ui/src/collect.rs\<close>), as statements about the model. A test is the conjunction of its assertions;
  that each holds says that the model passes the suite the code passes.
\<close>

section \<open>The tests of \<open>json.rs\<close>\<close>

definition escapes_what_would_break_out_of_a_string :: bool where
  "escapes_what_would_break_out_of_a_string \<longleftrightarrow>
     push_str [] (''a'' @ quote # ''b'' @ backslash # ''c'' @ newline # ''d'' @ tab # ''e'' @ CHR 0x01 # ''f'')
       = quote # ''a'' @ [backslash, quote] @ ''b'' @ [backslash, backslash] @ ''c'' @ backslash # ''nd'' @
         backslash # ''te'' @ backslash # ''u0001f'' @ [quote]"

lemma escapes_what_would_break_out_of_a_string: escapes_what_would_break_out_of_a_string
  by code_simp

definition a_log_line_with_a_quote_stays_one_string :: bool where
  "a_log_line_with_a_quote_stays_one_string \<longleftrightarrow>
     (let s = push_str [] ([quote, CHR '','', quote] @ ''admin'' @ quote # '':true,'' @ quote # ''x'' @ [quote, CHR '':'', quote]);
          inner = take (length s - 2) (drop 1 s)
      in starts_with s [quote] \<and> ends_with s [quote] \<and> contains inner [quote]
         \<and> list_all (\<lambda>i. inner ! i = quote \<longrightarrow> ends_with (take i inner) [backslash]) [0..<length inner])"

lemma a_log_line_with_a_quote_stays_one_string: a_log_line_with_a_quote_stays_one_string
  by code_simp

definition object_and_array_shapes :: bool where
  "object_and_array_shapes \<longleftrightarrow>
     fst (obj_done (obj_bool (obj_num (obj_str obj_new ''a'' ''1'') ''b'' 2) ''c'' True))
       = CHR ''{'' # quote # ''a'' @ [quote, CHR '':'', quote] @ ''1'' @ [quote, CHR '','', quote] @ ''b'' @ quote # '':2,'' @
         quote # ''c'' @ quote # '':true}''
     \<and> arr [''1'', ''2''] = ''[1,2]''
     \<and> str_arr [''x'', ''y''] = CHR ''['' # quote # ''x'' @ [quote, CHR '','', quote] @ ''y'' @ [quote, CHR '']'']
     \<and> fst (obj_done obj_new) = ''{}''"

lemma object_and_array_shapes: object_and_array_shapes
  by code_simp

section \<open>The tests of \<open>http.rs\<close>\<close>

definition decodes_percent_and_plus :: bool where
  "decodes_percent_and_plus \<longleftrightarrow>
     percent_decode ''a%20b+c'' = ''a b c'' \<and> percent_decode ''%2e%2e%2f'' = ''../''
     \<and> percent_decode ''100%zz'' = ''100%zz'' \<and> percent_decode ''trailing%'' = ''trailing%''"

lemma decodes_percent_and_plus: decodes_percent_and_plus
  by code_simp

definition parses_query_pairs :: bool where
  "parses_query_pairs \<longleftrightarrow>
     (let q = parse_query ''service=web&n=50&flag''
      in length q = 3 \<and> q ! 0 = (''service'', ''web'') \<and> q ! 2 = (''flag'', []) \<and> parse_query [] = [])"

lemma parses_query_pairs: parses_query_pairs
  by code_simp

definition request_param_lookup :: bool where
  "request_param_lookup \<longleftrightarrow>
     (let r = \<lparr>req_path = ''/api/logs'', req_query = parse_query ''service=web&n=10''\<rparr>
      in param r ''service'' = Some ''web'' \<and> param r ''missing'' = None)"

lemma request_param_lookup: request_param_lookup
  by code_simp

section \<open>The tests of \<open>collect.rs\<close>\<close>

definition test_cfg :: "(string \<times> string \<times> string) list \<Rightarrow> uconfig" where
  "test_cfg pairs = \<lparr>entries = pairs\<rparr>"

definition profiles_split_and_trim :: bool where
  "profiles_split_and_trim \<longleftrightarrow>
     profiles (test_cfg [(''custom'', ''SHIELD_PROFILES'', ''strfry, http ,tcp'')]) = [''strfry'', ''http'', ''tcp'']
     \<and> profiles (test_cfg []) = [''strfry'']
     \<and> profiles (test_cfg [(''custom'', ''SHIELD_PROFILES'', ''tcp,'')]) = [''tcp'']"

lemma profiles_split_and_trim: profiles_split_and_trim
  by code_simp

definition strfry_uses_unprefixed_keys :: bool where
  "strfry_uses_unprefixed_keys \<longleftrightarrow>
     (let c = test_cfg [(''custom'', ''SHIELD_PROFILES'', ''strfry''), (''preset:strfry/strict'', ''SHIELD_LISTEN_PORT'', ''80''),
                   (''preset:strfry/strict'', ''SHIELD_UPSTREAM'', ''127.0.0.1:7777''),
                   (''preset:strfry/strict'', ''SHIELD_STRFRY_CONN_RATE'', ''30'')];
          s = services c ! 0
      in listen_port s = ''80'' \<and> upstream s = ''127.0.0.1:7777'' \<and> log_name s = ''strfry'' \<and> preset s = ''strict'')"

lemma strfry_uses_unprefixed_keys: strfry_uses_unprefixed_keys
  by code_simp

definition service_name_comes_from_the_service_key :: bool where
  "service_name_comes_from_the_service_key \<longleftrightarrow>
     (let c = test_cfg [(''custom'', ''SHIELD_PROFILES'', ''tcp''), (''custom'', ''SHIELD_TCP_SERVICE'', ''ssh''),
                   (''preset:tcp/loose'', ''SHIELD_TCP_CONN_RATE'', ''30'')];
          s = services c ! 0
      in log_name s = ''ssh'' \<and> preset s = ''loose'')"

lemma service_name_comes_from_the_service_key: service_name_comes_from_the_service_key
  by code_simp

definition a_custom_rate_reports_as_custom_not_a_preset_name :: bool where
  "a_custom_rate_reports_as_custom_not_a_preset_name \<longleftrightarrow>
     (let c = test_cfg [(''custom'', ''SHIELD_PROFILES'', ''tcp''), (''custom'', ''SHIELD_TCP_CONN_RATE'', ''7'')]
      in preset (services c ! 0) = ''custom'')"

lemma a_custom_rate_reports_as_custom_not_a_preset_name: a_custom_rate_reports_as_custom_not_a_preset_name
  by code_simp

definition limits_do_not_leak_between_profiles :: bool where
  "limits_do_not_leak_between_profiles \<longleftrightarrow>
     (let c = test_cfg [(''custom'', ''SHIELD_PROFILES'', ''tcp''), (''preset:tcp/default'', ''SHIELD_TCP_CONN_RATE'', ''10''),
                   (''preset:http/default'', ''SHIELD_HTTP_CONN_RATE'', ''120'')];
          s = services c ! 0
      in list_ex (\<lambda>(k, _, _). k = ''SHIELD_TCP_CONN_RATE'') (limits s)
         \<and> \<not> list_ex (\<lambda>(k, _, _). starts_with k ''SHIELD_HTTP_'') (limits s))"

lemma limits_do_not_leak_between_profiles: limits_do_not_leak_between_profiles
  by code_simp

text \<open>The file of the test: the lines \<open>line-0\<close> to \<open>line-499\<close>. The calls are those of the test, the file
  system is the one it runs on.\<close>

definition test_lines :: "string list" where
  "test_lines = map (\<lambda>i. ''line-'' @ string_of_nat i) [0..<500]"

definition tail_returns_the_last_lines_and_drops_a_partial_first :: "'w env \<Rightarrow> string \<Rightarrow> 'w \<Rightarrow> bool" where
  "tail_returns_the_last_lines_and_drops_a_partial_first E p w \<longleftrightarrow>
     (case tail E p 3 (2 ^ 20) w of
        (Inr got, _) \<Rightarrow> got = [''line-497'', ''line-498'', ''line-499'']
      | (Inl _, _) \<Rightarrow> False)
     \<and> (case tail E p 1000 40 w of
          (Inr got, _) \<Rightarrow> list_all (\<lambda>l. starts_with l ''line-'') got \<and> length got < 500
        | (Inl _, _) \<Rightarrow> False)
     \<and> (case tail E p 10000 (2 ^ 20) w of
          (Inr got, _) \<Rightarrow> length got = 500
        | (Inl _, _) \<Rightarrow> False)"

lemma test_lines_ok: "l \<in> set test_lines \<Longrightarrow> line_ok l \<and> utf8_valid l"
proof -
  assume "l \<in> set test_lines"
  then obtain n where l: "l = ''line-'' @ string_of_nat n" by (auto simp: test_lines_def)
  have p: "list_all plain l" by (simp add: l plain_string_of_nat) (simp add: plain_def)
  then have "list_all (\<lambda>c. byte c < 128) l" by (rule plain_ascii)
  moreover have "newline \<notin> set l" "carriage_return \<notin> set l" using p by (auto simp: list_all_iff plain_def)
  ultimately show "line_ok l \<and> utf8_valid l" by (auto simp: line_ok_def utf8_valid_all_ascii dest: last_in_set)
qed

lemma length_string_of_nat: "length (string_of_nat n) \<le> Suc n"
proof (induction n rule: string_of_nat.induct)
  case (1 n)
  show ?case
  proof (cases "n < 10")
    case False
    then show ?thesis using 1 by (subst string_of_nat.simps) simp
  qed (subst string_of_nat.simps, simp)
qed

lemma length_print_lines: "(\<And>l. l \<in> set ls \<Longrightarrow> length l < n) \<Longrightarrow> length (print_lines ls) \<le> n * length ls"
proof (induction ls)
  case (Cons l ls)
  then have "length l < n" "length (print_lines ls) \<le> n * length ls" by simp_all
  then show ?case by (simp add: print_lines_def)
qed (simp add: print_lines_def)

lemma test_lines_length: "length (print_lines test_lines) < 2 ^ 20"
proof -
  have "length l < 507" if "l \<in> set test_lines" for l
  proof -
    from that have "l \<in> (\<lambda>n. ''line-'' @ string_of_nat n) ` {0..<500}" by (simp only: test_lines_def set_map set_upt)
    then obtain n where "l = ''line-'' @ string_of_nat n" "n < 500" by (elim imageE) simp
    then show ?thesis using length_string_of_nat [of n] by simp
  qed
  then have "length (print_lines test_lines) \<le> 507 * length test_lines" by (rule length_print_lines)
  moreover have "length test_lines = 500" by (simp add: test_lines_def)
  ultimately show ?thesis by simp
qed

lemma test_lines_start: "l \<in> set test_lines \<Longrightarrow> starts_with l ''line-''"
  by (auto simp: test_lines_def)

lemma test_lines_last: "drop 497 test_lines = [''line-497'', ''line-498'', ''line-499'']"
proof -
  have numbers: "drop 497 [0..<500] = [497, 498, 499]"
  proof (rule nth_equalityI)
    fix i assume "i < length (drop 497 [0..<500])"
    then have "i = 0 \<or> i = 1 \<or> i = 2" by auto
    then show "drop 497 [0..<500] ! i = [497, 498, 499] ! i" by auto
  qed simp
  have lines: "drop 497 test_lines = map (\<lambda>i. ''line-'' @ string_of_nat i) [497, 498, 499]"
    using numbers by (simp only: test_lines_def drop_map)
  have "digit_char 4 = CHR ''4''" "digit_char 7 = CHR ''7''" "digit_char 8 = CHR ''8''" "digit_char 9 = CHR ''9''"
    by code_simp+
  then have "map (\<lambda>i. ''line-'' @ string_of_nat i) [497, 498, 499] = [''line-497'', ''line-498'', ''line-499'']"
    by (simp add: string_of_nat.simps [of 497] string_of_nat.simps [of 498] string_of_nat.simps [of 499]
        string_of_nat.simps [of 49] string_of_nat.simps [of 4])
  then show ?thesis by (simp only: lines)
qed

text \<open>A window of few bytes has few lines.\<close>

lemma length_split_inclusive: "length (split_inclusive s) \<le> length s"
  by (induction s rule: split_inclusive.induct) (auto split: list.splits)

lemma lossy_ascii: "list_all (\<lambda>c. byte c < 128) s \<Longrightarrow> from_utf8_lossy s = s"
  by (induction s) simp_all

lemma test_bytes_ascii: "list_all (\<lambda>c. byte c < 128) (print_lines test_lines)"
proof -
  have "list_all (\<lambda>c. byte c < 128) l" if "l \<in> set test_lines" for l
    using that plain_ascii plain_string_of_nat by (auto simp: test_lines_def)
  then show ?thesis by (auto simp: print_lines_def list_all_iff)
qed

context log_files begin

lemma tail_test:
  assumes "content w p = Some (print_lines test_lines)"
  shows "tail_returns_the_last_lines_and_drops_a_partial_first E p w"
proof -
  have len: "length test_lines = 500" by (simp add: test_lines_def)
  have bytes: "length (print_lines test_lines) < 2 ^ 63" using test_lines_length by simp
  note t = tail_lines [OF assms bytes test_lines_ok]
  have big: "length (print_lines test_lines) \<le> unat (2 ^ 20 :: u64)" using test_lines_length by simp
  obtain w1 where 1: "tail E p 3 (2 ^ 20) w = (Inr (drop 497 test_lines), w1)"
    using t [of 3 "2 ^ 20"] big by (auto simp: len)
  obtain k w2 where 2: "tail E p 1000 40 w = (Inr (drop k test_lines), w2)" using t [of 1000 40] by blast
  let ?s = "print_lines test_lines"
  let ?win = "drop (length ?s - min 40 (length ?s)) ?s"
  have "list_all (\<lambda>c. byte c < 128) ?win" using test_bytes_ascii by (auto simp: list_all_iff dest: in_set_dropD)
  then have "length (str_lines (from_utf8_lossy ?win)) \<le> 40"
    using length_split_inclusive [of ?win] by (simp add: lossy_ascii str_lines_def)
  then have few: "length (drop k test_lines) \<le> 40"
    using tail_bytes [OF assms bytes, of 1000 40] 2 by (auto simp: Let_def split: if_splits)
  obtain w3 where 3: "tail E p 10000 (2 ^ 20) w = (Inr test_lines, w3)"
    using t [of 10000 "2 ^ 20"] big by (auto simp: len)
  show ?thesis
    unfolding tail_returns_the_last_lines_and_drops_a_partial_first_def 1 2 3
    using few by (auto simp: test_lines_last len list_all_iff test_lines_start dest: in_set_dropD)
qed

end

definition guard_stats_labels_may_contain_spaces :: bool where
  "guard_stats_labels_may_contain_spaces \<longleftrightarrow>
     (let line = ''dropped (ban)      12'' in
      case find_str ''  '' line of
        None \<Rightarrow> False
      | Some idx \<Rightarrow> trim (take idx line) = ''dropped (ban)'' \<and> trim (drop idx line) = ''12'')"

lemma guard_stats_labels_may_contain_spaces: guard_stats_labels_may_contain_spaces
  by code_simp

end
