(* ===== verification/Config_Tool.thy ===== *)
theory Config_Tool
  imports Rust_Str
begin

text \<open>
  The configuration resolver \<open>bin/shield-config\<close>, a POSIX shell script: the custom layer read from an
  environment file over the presets of core and of each profile, and the commands that print the
  result. The streams between the parts of a pipeline are lists of lines. The file tree and the
  environment are a record, with \<open>sort -u\<close>, pathname expansion and what \<open>awk\<close> makes of a \<open>-v\<close>
  assignment; \<open>echo\<close> is taken to print its argument, and \<open>awk\<close> to compare keys as the strings they
  are (a key starts with a letter or an underscore).
\<close>

section \<open>The calls\<close>

record conf =
  c_file :: "string \<Rightarrow> string option"
  c_dir :: "string \<Rightarrow> bool"
  c_subdirs :: "string \<Rightarrow> string list"
  c_env :: "(string \<times> string) list"
  c_self :: string
  c_usage :: string
  c_sort_u :: "string list \<Rightarrow> string list"
  c_glob :: "string \<Rightarrow> string list"
  c_awk_v :: "string \<Rightarrow> string"

section \<open>Lines and fields\<close>

definition text_lines :: "string \<Rightarrow> string list" where
  "text_lines s = map (\<lambda>l. if last l = newline then butlast l else l) (split_inclusive s)"

definition before_tab :: "string \<Rightarrow> string" where
  "before_tab l = (case split_once tab l of None \<Rightarrow> l | Some (a, b) \<Rightarrow> a)"

definition after_tab :: "string \<Rightarrow> string" where
  "after_tab l = (case split_once tab l of None \<Rightarrow> l | Some (a, b) \<Rightarrow> b)"

definition before_last_tab :: "string \<Rightarrow> string" where
  "before_last_tab l = (case split_once tab (rev l) of None \<Rightarrow> l | Some (a, b) \<Rightarrow> rev b)"

definition after_last_tab :: "string \<Rightarrow> string" where
  "after_last_tab l = (case split_once tab (rev l) of None \<Rightarrow> l | Some (a, b) \<Rightarrow> rev a)"

definition key_start :: "char \<Rightarrow> bool" where
  "key_start ch \<longleftrightarrow> 65 \<le> byte ch \<and> byte ch \<le> 90 \<or> 97 \<le> byte ch \<and> byte ch \<le> 122 \<or> ch = CHR ''_''"

definition env_line :: "string \<Rightarrow> string option" where
  "env_line line =
     (if line = [] \<or> hd line = CHR ''#'' then None
      else (case split_once (CHR ''='') line of
              None \<Rightarrow> None
            | Some (key, v) \<Rightarrow> if key \<noteq> [] \<and> key_start (hd key) then Some (key @ tab # v) else None))"

definition parse_envfile :: "string \<Rightarrow> string list" where
  "parse_envfile s = filter_map env_line (text_lines s)"

section \<open>The presets\<close>

definition LEVELS :: string where
  "LEVELS = ''strict default loose''"

definition has_core :: "conf \<Rightarrow> string \<Rightarrow> bool" where
  "has_core C d \<longleftrightarrow> c_dir C (d @ ''/core'')"

definition lookup_env :: "conf \<Rightarrow> string \<Rightarrow> string option" where
  "lookup_env C k = map_of (c_env C) k"

definition preset_dir :: "conf \<Rightarrow> string + string" where
  "preset_dir C =
     (let self = c_self C @ ''/../presets'';
          given = (case lookup_env C ''SHIELD_PRESET_DIR'' of None \<Rightarrow> [] | Some d \<Rightarrow> d);
          cands = [self, ''/usr/local/share/fips-shield/presets'', ''/etc/fips-shield/presets''];
          d = (if given \<noteq> [] then given
               else (case filter (has_core C) cands of [] \<Rightarrow> self | c # _ \<Rightarrow> c))
      in if has_core C d then Inr d
         else Inl (''shield-config: no presets found (looked in '' @ self @
                   '', /usr/local/share/fips-shield/presets, /etc/fips-shield/presets). Set SHIELD_PRESET_DIR.''))"

definition preset_file :: "string \<Rightarrow> string \<Rightarrow> string \<Rightarrow> string" where
  "preset_file P scope level = P @ ''/'' @ scope @ ''/'' @ level @ ''.env''"

definition env_keys :: "conf \<Rightarrow> string \<Rightarrow> string list" where
  "env_keys C path = (case c_file C path of None \<Rightarrow> [] | Some s \<Rightarrow> map before_tab (parse_envfile s))"

definition all_preset_keys :: "conf \<Rightarrow> string \<Rightarrow> string list" where
  "all_preset_keys C P = c_sort_u C (concat (map (\<lambda>d. env_keys C (preset_file P d ''default'')) (c_subdirs C P)))"

section \<open>The custom layer\<close>

text \<open>The variables that are set, the keys of the presets first; a value may have several lines.\<close>

definition collect_from_env :: "conf \<Rightarrow> string \<Rightarrow> string list" where
  "collect_from_env C P =
     (let known = all_preset_keys C P;
          others = filter (\<lambda>k. k \<notin> set known) (c_sort_u C (filter (\<lambda>k. starts_with k ''SHIELD_'') (map fst (c_env C))));
          assign = (\<lambda>k. case lookup_env C k of None \<Rightarrow> [] | Some v \<Rightarrow> k @ tab # v @ [newline])
      in text_lines (concat (map assign (known @ others))))"

text \<open>The last occurrence wins.\<close>

definition custom_get :: "conf \<Rightarrow> string list \<Rightarrow> string \<Rightarrow> string option" where
  "custom_get C custom k =
     (let v = c_awk_v C k; hits = filter (\<lambda>l. before_tab l = v) custom in
      if hits = [] then None else Some (drop (length v + 1) (last hits)))"

definition upper :: "string \<Rightarrow> string" where
  "upper s = map (\<lambda>ch. if 97 \<le> byte ch \<and> byte ch \<le> 122 then char_of (byte ch - 32) else ch) s"

definition or_empty :: "string option \<Rightarrow> string" where
  "or_empty v = (case v of None \<Rightarrow> [] | Some s \<Rightarrow> s)"

text \<open>The check for a known level looks for the level between blanks in the list of levels.\<close>

definition level_for :: "conf \<Rightarrow> string list \<Rightarrow> string \<Rightarrow> string + string" where
  "level_for C custom scope =
     (let lv = (if scope \<noteq> ''core'' then or_empty (custom_get C custom (''SHIELD_'' @ upper scope @ ''_PRESET'')) else []);
          lv = (if lv \<noteq> [] then lv else or_empty (custom_get C custom ''SHIELD_PRESET''));
          lv = (if lv \<noteq> [] then lv else ''default'')
      in if contains ('' '' @ LEVELS @ '' '') ('' '' @ lv @ '' '') then Inr lv
         else Inl (''shield-config: unknown preset level '' @ [CHR 0x27] @ lv @ [CHR 0x27] @ '' (have:'' @ LEVELS @ '')''))"

definition profile_list :: "conf \<Rightarrow> string list \<Rightarrow> string" where
  "profile_list C custom =
     (let p = (case custom_get C custom ''SHIELD_PROFILES'' of None \<Rightarrow> ''strfry'' | Some v \<Rightarrow> v) in
      if p = [] then ''strfry'' else p)"

definition commas_blank :: "string \<Rightarrow> string" where
  "commas_blank s = map (\<lambda>ch. if ch = CHR '','' then CHR '' '' else ch) s"

text \<open>The scopes up to the first profile without a directory, and the message about that one.\<close>

definition scopes :: "conf \<Rightarrow> string \<Rightarrow> string list \<Rightarrow> string list \<times> string list" where
  "scopes C P custom =
     (let ps = filter (\<lambda>p. p \<noteq> []) (split_char (CHR '' '') (commas_blank (profile_list C custom)));
          good = takeWhile (\<lambda>p. c_dir C (P @ ''/'' @ p)) ps
      in (''core'' # good,
          (case drop (length good) ps of [] \<Rightarrow> []
           | p # _ \<Rightarrow> [''shield-config: no preset for profile '' @ [CHR 0x27] @ p @ [CHR 0x27] @ '' ('' @ P @ ''/'' @ p @ '')''])))"

section \<open>Resolution\<close>

definition resolve_line :: "conf \<Rightarrow> string list \<Rightarrow> string \<Rightarrow> string \<Rightarrow> string \<Rightarrow> string" where
  "resolve_line C custom scope level l =
     (let k = before_tab l; v = after_tab l in
      (case custom_get C custom k of
         Some cv \<Rightarrow> k @ tab # cv @ tab # ''custom''
       | None \<Rightarrow> k @ tab # v @ tab # ''preset:'' @ scope @ ''/'' @ level))"

definition resolve_scope :: "conf \<Rightarrow> string \<Rightarrow> string list \<Rightarrow> string \<Rightarrow> string + string list" where
  "resolve_scope C P custom scope =
     (case level_for C custom scope of
        Inl e \<Rightarrow> Inl e
      | Inr level \<Rightarrow>
          (case c_file C (preset_file P scope level) of
             None \<Rightarrow> Inl (''shield-config: missing preset '' @ preset_file P scope level)
           | Some s \<Rightarrow> Inr (map (resolve_line C custom scope level) (parse_envfile s))))"

definition resolve_extras :: "conf \<Rightarrow> string \<Rightarrow> string list \<Rightarrow> string list" where
  "resolve_extras C P custom =
     (let known = all_preset_keys C P in
      map (\<lambda>k. k @ tab # or_empty (custom_get C custom k) @ tab # ''custom'')
        (filter (\<lambda>k. k \<notin> set known) (map before_tab custom)))"

text \<open>The loop over the scopes ends at the first that fails, and with it the function.\<close>

fun resolve_scopes :: "conf \<Rightarrow> string \<Rightarrow> string list \<Rightarrow> string list \<Rightarrow> string list \<times> string option" where
  "resolve_scopes C P custom [] = ([], None)"
| "resolve_scopes C P custom (s # ss) =
     (case resolve_scope C P custom s of
        Inl e \<Rightarrow> ([], Some e)
      | Inr ls \<Rightarrow> (case resolve_scopes C P custom ss of (ls', e) \<Rightarrow> (ls @ ls', e)))"

record resolved =
  r_ok :: bool
  r_lines :: "string list"
  r_errs :: "string list"

definition resolve_all :: "conf \<Rightarrow> string \<Rightarrow> string list \<Rightarrow> resolved" where
  "resolve_all C P custom =
     (case scopes C P custom of
        (ss, errs) \<Rightarrow>
          (case resolve_scopes C P custom ss of
             (ls, Some e) \<Rightarrow> \<lparr>r_ok = False, r_lines = ls, r_errs = errs @ [e]\<rparr>
           | (ls, None) \<Rightarrow> \<lparr>r_ok = True, r_lines = ls @ resolve_extras C P custom, r_errs = errs\<rparr>))"

section \<open>Checks and filters\<close>

definition is_ifs :: "char \<Rightarrow> bool" where
  "is_ifs ch \<longleftrightarrow> ch = CHR '' '' \<or> ch = tab \<or> ch = newline"

fun ifs_words_from :: "string \<Rightarrow> string \<Rightarrow> string list" where
  "ifs_words_from acc [] = flush_word acc []"
| "ifs_words_from acc (ch # s) =
     (if is_ifs ch then flush_word acc (ifs_words_from [] s) else ifs_words_from (acc @ [ch]) s)"

text \<open>The unquoted profiles are split at blanks and expanded as patterns. \<open>None\<close> is a pass.\<close>

fun validate_scopes :: "conf \<Rightarrow> string \<Rightarrow> string list \<Rightarrow> string list \<Rightarrow> string option" where
  "validate_scopes C P custom [] = None"
| "validate_scopes C P custom (s # ss) =
     (if \<not> c_dir C (P @ ''/'' @ s)
      then Some (''shield-config: no preset directory for '' @ [CHR 0x27] @ s @ [CHR 0x27] @ '' ('' @ P @ ''/'' @ s @ '')'')
      else (case level_for C custom s of
              Inl e \<Rightarrow> Some e
            | Inr lv \<Rightarrow>
                if c_file C (preset_file P s lv) = None then Some (''shield-config: missing preset '' @ preset_file P s lv)
                else validate_scopes C P custom ss))"

definition validate :: "conf \<Rightarrow> string \<Rightarrow> string list \<Rightarrow> string option" where
  "validate C P custom =
     validate_scopes C P custom
       (''core'' # concat (map (c_glob C) (ifs_words_from [] (commas_blank (profile_list C custom)))))"

text \<open>The lines of one service; for one that is unknown no line, and a message.\<close>

definition filter_service :: "conf \<Rightarrow> string \<Rightarrow> string \<Rightarrow> string list \<Rightarrow> string list \<times> string list" where
  "filter_service C P service ls =
     (if service = [] then (ls, [])
      else
        (let keys = env_keys C (preset_file P service ''default'') in
         if keys = []
         then ([], [''shield-config: unknown service '' @ [CHR 0x27] @ service @ [CHR 0x27] @ '' (have:'' @
                    concat (map (\<lambda>d. CHR '' '' # d) (filter (\<lambda>d. d \<noteq> ''core'') (c_subdirs C P))) @ '')''])
         else (filter (\<lambda>l. before_tab l \<in> set (split_char newline (c_awk_v C (join [newline] keys)))) ls, [])))"

section \<open>The commands\<close>

text \<open>The key, the value and the source of a resolved line.\<close>

definition parts :: "string \<Rightarrow> string \<times> string \<times> string" where
  "parts l = (before_tab l, before_last_tab (after_tab l), after_last_tab (after_tab l))"

definition quote_sh :: "string \<Rightarrow> string" where
  "quote_sh v = CHR 0x27 # concat (map (\<lambda>ch. if ch = CHR 0x27 then [CHR 0x27, backslash, CHR 0x27, CHR 0x27] else [ch]) v) @ [CHR 0x27]"

definition pad :: "nat \<Rightarrow> string \<Rightarrow> string" where
  "pad n s = s @ replicate (n - length s) (CHR '' '')"

definition resolve_out :: "bool \<Rightarrow> string \<Rightarrow> string" where
  "resolve_out shell l =
     (case parts l of (k, v, _) \<Rightarrow> if shell then ''export '' @ k @ ''='' @ quote_sh v else k @ CHR ''='' # v)"

definition porcelain_out :: "string \<Rightarrow> string" where
  "porcelain_out l = (case parts l of (k, v, src) \<Rightarrow> src @ tab # k @ tab # v)"

definition show_out :: "string \<Rightarrow> string" where
  "show_out l =
     (case parts l of (k, v, src) \<Rightarrow> ''  '' @ pad 34 k @ '' '' @ pad 26 (if v = [] then ''(empty)'' else v) @ '' '' @ src)"

definition show_head :: "conf \<Rightarrow> string list \<Rightarrow> string \<Rightarrow> string list" where
  "show_head C custom service =
     (let lv = (\<lambda>s. case level_for C custom s of Inl e \<Rightarrow> [] | Inr lv \<Rightarrow> lv);
          top = (if service \<noteq> [] then ''service '' @ service @ ''   preset '' @ lv service
                 else ''profiles '' @ (case custom_get C custom ''SHIELD_PROFILES'' of None \<Rightarrow> ''strfry'' | Some v \<Rightarrow> v) @
                      ''   preset '' @ lv ''core'')
      in [top, [], ''  '' @ pad 34 ''KEY'' @ '' '' @ pad 26 ''VALUE'' @ '' SOURCE''])"

definition diff_out :: "string list \<Rightarrow> string list" where
  "diff_out ls =
     (let own = filter (\<lambda>l. snd (snd (parts l)) = ''custom'') ls;
          row = (\<lambda>l. case parts l of (k, v, _) \<Rightarrow> ''  '' @ pad 34 k @ '' '' @ (if v = [] then ''(empty)'' else v))
      in if own = [] then [] else (''  '' @ pad 34 ''KEY'' @ '' YOUR VALUE'') # map row own)"

definition ACTION_KEYS :: "string list" where
  "ACTION_KEYS = [''SHIELD_BAN_FILE'', ''SHIELD_BAN_ALSO_FILE'', ''SHIELD_GUARD_PIN_DIR'']"

text \<open>The values of all lines of a key, one after the other.\<close>

definition action_value :: "string list \<Rightarrow> string \<Rightarrow> string" where
  "action_value ls k = concat (map (\<lambda>l. before_last_tab (after_tab l)) (filter (\<lambda>l. before_tab l = k) ls))"

definition action_env :: "string list \<Rightarrow> string" where
  "action_env ls =
     (let env = concat (map (\<lambda>k. CHR '' '' # k @ CHR ''='' # quote_sh (action_value ls k))
                 (filter (\<lambda>k. action_value ls k \<noteq> []) ACTION_KEYS))
      in case env of [] \<Rightarrow> [] | ch # s \<Rightarrow> if ch = CHR '' '' then s else ch # s)"

text \<open>Exit status, standard output and standard error.\<close>

type_synonym result = "nat \<times> string list \<times> string list"

definition no_such_command :: "string \<Rightarrow> string" where
  "no_such_command cmd =
     ''shield-config: unknown command '' @ [CHR 0x27] @ cmd @ [CHR 0x27] @ '' (resolve|show|diff|levels|action-env)''"

record options =
  o_file :: string
  o_from_env :: bool
  o_shell :: bool
  o_porcelain :: bool
  o_service :: string

definition run_command :: "conf \<Rightarrow> string \<Rightarrow> string list \<Rightarrow> string \<Rightarrow> options \<Rightarrow> result" where
  "run_command C P custom cmd opts =
     (let res = resolve_all C P custom;
          (ls, errs) = filter_service C P (o_service opts) (r_lines res);
          errs = r_errs res @ errs
      in if cmd = ''resolve'' then (0, map (resolve_out (o_shell opts)) ls, errs)
         else if cmd = ''show'' then
           (if o_porcelain opts then (0, map porcelain_out ls, errs)
            else (0, show_head C custom (o_service opts) @ map show_out ls,
                  (case level_for C custom (if o_service opts = [] then ''core'' else o_service opts) of
                     Inl e \<Rightarrow> [e] | Inr _ \<Rightarrow> []) @ errs))
         else if cmd = ''diff'' then (0, diff_out ls, errs)
         else if cmd = ''action-env'' then
           (if r_ok res then (0, [action_env (r_lines res)], r_errs res) else (1, [], r_errs res))
         else (1, [], [no_such_command cmd]))"

text \<open>\<open>Inl\<close> is the end of the script on an option.\<close>

fun parse_options :: "conf \<Rightarrow> string list \<Rightarrow> options \<Rightarrow> result + options" where
  "parse_options C [] opts = Inr opts"
| "parse_options C (a # as) opts =
     (if a = ''-f'' \<or> a = ''--file'' then
        (case as of
           [] \<Rightarrow> Inl (2, [], [''-f needs a path''])
         | p # as' \<Rightarrow> if p = [] then Inl (2, [], [''-f needs a path'']) else parse_options C as' (opts\<lparr>o_file := p\<rparr>))
      else if a = ''--porcelain'' then parse_options C as (opts\<lparr>o_porcelain := True\<rparr>)
      else if a = ''--from-env'' then parse_options C as (opts\<lparr>o_from_env := True\<rparr>)
      else if a = ''--shell'' then parse_options C as (opts\<lparr>o_shell := True\<rparr>)
      else if a = ''-h'' \<or> a = ''--help'' then Inl (0, [c_usage C], [])
      else if starts_with a ''-'' then Inl (1, [], [''shield-config: unknown option: '' @ a])
      else parse_options C as (opts\<lparr>o_service := a\<rparr>))"

text \<open>The second line of a preset of core, when it is a comment.\<close>

definition level_line :: "conf \<Rightarrow> string \<Rightarrow> string \<Rightarrow> string" where
  "level_line C P l =
     pad 8 l @ CHR '' '' #
       (case c_file C (preset_file P ''core'' l) of
          None \<Rightarrow> []
        | Some s \<Rightarrow>
            (case text_lines s of
               _ # line # _ \<Rightarrow> (case strip_prefix ''# '' line of None \<Rightarrow> [] | Some r \<Rightarrow> r)
             | _ \<Rightarrow> []))"

definition custom_layer :: "conf \<Rightarrow> string \<Rightarrow> options \<Rightarrow> string + string list" where
  "custom_layer C P opts =
     (if o_from_env opts then Inr (collect_from_env C P)
      else if o_file opts \<noteq> [] then
        (case c_file C (o_file opts) of
           None \<Rightarrow> Inl (''shield-config: no such env file: '' @ o_file opts)
         | Some s \<Rightarrow> Inr (parse_envfile s))
      else
        (case filter_map (c_file C) [''shield.env'', ''deploy/container/shield.env''] of
           [] \<Rightarrow> Inl ''shield-config: no shield.env found; pass -f FILE or --from-env''
         | s # _ \<Rightarrow> Inr (parse_envfile s)))"

definition shield_config_main :: "conf \<Rightarrow> string list \<Rightarrow> result" where
  "shield_config_main C args =
     (case preset_dir C of
        Inl e \<Rightarrow> (1, [], [e])
      | Inr P \<Rightarrow>
          (case args of
             [] \<Rightarrow> (1, [c_usage C], [])
           | cmd # rest \<Rightarrow>
               if cmd = [] then (1, [c_usage C], [])
               else if cmd = ''-h'' \<or> cmd = ''--help'' \<or> cmd = ''help'' then (0, [c_usage C], [])
               else if cmd = ''levels'' then (0, map (level_line C P) [''strict'', ''default'', ''loose''], [])
               else
                 (case parse_options C rest \<lparr>o_file = [], o_from_env = False, o_shell = False, o_porcelain = False, o_service = []\<rparr> of
                    Inl res \<Rightarrow> res
                  | Inr opts \<Rightarrow>
                      (case custom_layer C P opts of
                         Inl e \<Rightarrow> (1, [], [e])
                       | Inr custom \<Rightarrow>
                           (case validate C P custom of
                              Some e \<Rightarrow> (1, [], [e])
                            | None \<Rightarrow> run_command C P custom cmd opts)))))"

end
