(* ===== verification/Config_Props.thy ===== *)
theory Config_Props
  imports Config_Tool Collect "HOL-Library.Char_ord" "HOL-Library.List_Lexorder"
begin

text \<open>
  What \<open>shield-config\<close> guarantees: the custom layer wins over the presets key by key, a run either
  fails with nothing printed or prints a complete resolution, what it prints for the shell is read
  by the shell as the values it stands for, and the dashboard reads the porcelain form back.
\<close>

section \<open>Lines and fields\<close>

lemma before_tab_eq [simp]: "tab \<notin> set k \<Longrightarrow> before_tab (k @ tab # v) = k"
  by (simp add: before_tab_def split_once_append)

lemma after_tab_eq [simp]: "tab \<notin> set k \<Longrightarrow> after_tab (k @ tab # v) = v"
  by (simp add: after_tab_def split_once_append)

lemma last_tab_eq [simp]:
  "tab \<notin> set s \<Longrightarrow> before_last_tab (v @ tab # s) = v"
  "tab \<notin> set s \<Longrightarrow> after_last_tab (v @ tab # s) = s"
  by (simp_all add: before_last_tab_def after_last_tab_def split_once_append)

lemma before_tab_no_tab: "tab \<notin> set (before_tab l)"
  by (auto simp: before_tab_def split: option.split dest: split_once_Some)

lemma tab_line: "tab \<in> set l \<Longrightarrow> l = before_tab l @ tab # after_tab l"
  by (auto simp: before_tab_def after_tab_def split: option.split dest: split_once_Some)

lemma parts_eq: "tab \<notin> set k \<Longrightarrow> tab \<notin> set s \<Longrightarrow> parts (k @ tab # v @ tab # s) = (k, v, s)"
  by (simp add: parts_def)

lemma parse_envfile_tab: "l \<in> set (parse_envfile t) \<Longrightarrow> tab \<in> set l"
proof -
  assume "l \<in> set (parse_envfile t)"
  then obtain x where "env_line x = Some l" by (auto simp: parse_envfile_def filter_map_def List.map_filter_def)
  then show ?thesis by (auto simp: env_line_def split: if_splits option.splits)
qed

section \<open>The calls in order\<close>

text \<open>\<open>sort -u\<close> keeps the lines, a text without a backslash is assigned as it is, and a word without
  pattern characters expands to itself.\<close>

locale config_env =
  fixes C :: conf
  assumes sort_u: "set (c_sort_u C ls) = set ls"
    and awk_v: "backslash \<notin> set s \<Longrightarrow> c_awk_v C s = s"
    and glob: "set s \<inter> {CHR ''*'', CHR ''?'', CHR ''['', backslash} = {} \<Longrightarrow> c_glob C s = [s]"
begin

text \<open>The custom layer as a partial function: the last line of a key.\<close>

lemma custom_get_spec:
  assumes "\<forall>l \<in> set custom. tab \<in> set l" "backslash \<notin> set k"
  shows "custom_get C custom k = map_of (rev (map (\<lambda>l. (before_tab l, after_tab l)) custom)) k"
proof (cases "filter (\<lambda>l. before_tab l = k) custom = []")
  case True
  then have "k \<notin> before_tab ` set custom" by (auto simp: filter_empty_conv)
  then have "map_of (rev (map (\<lambda>l. (before_tab l, after_tab l)) custom)) k = None"
    by (auto simp: map_of_eq_None_iff)
  with True show ?thesis using awk_v assms(2) by (simp add: custom_get_def)
next
  case False
  let ?hits = "filter (\<lambda>l. before_tab l = k) custom"
  have l: "last ?hits \<in> set ?hits" using False by (rule last_in_set)
  have drops: "drop (length k + 1) (k @ tab # v) = v" for v by simp
  from l have eq: "last ?hits = k @ tab # after_tab (last ?hits)" using assms(1) tab_line [of "last ?hits"] by auto
  have "drop (length k + 1) (last ?hits) = after_tab (last ?hits)"
    by (subst eq) (rule drops)
  moreover have "map_of (rev (map (\<lambda>l. (before_tab l, after_tab l)) ls)) k = Some (after_tab (last (filter (\<lambda>l. before_tab l = k) ls)))"
    if "filter (\<lambda>l. before_tab l = k) ls \<noteq> []" for ls
    using that by (induction ls rule: rev_induct) (auto simp: map_add_def)
  ultimately show ?thesis using False awk_v assms(2) by (simp add: custom_get_def)
qed

end

section \<open>Quoting for the shell\<close>

text \<open>The words a shell makes of a command line, as far as quotes and backslashes go; a character with
  another meaning outside quotes is refused, since what it does is not a matter of words.\<close>

definition sh_special :: "char \<Rightarrow> bool" where
  "sh_special ch \<longleftrightarrow> ch \<in> set ''$`;&|<>()#*?[]{}~!'' \<or> ch = quote \<or> ch = tab \<or> ch = newline"

fun sh_words :: "bool \<Rightarrow> string option \<Rightarrow> string \<Rightarrow> string list option" where
  "sh_words True w [] = None"
| "sh_words False w [] = Some (case w of None \<Rightarrow> [] | Some x \<Rightarrow> [x])"
| "sh_words True w (ch # s) =
     (if ch = CHR 0x27 then sh_words False (Some (or_empty w)) s else sh_words True (Some (or_empty w @ [ch])) s)"
| "sh_words False w (ch # s) =
     (if ch = CHR 0x27 then sh_words True (Some (or_empty w)) s
      else if ch = CHR '' '' then
        (case w of None \<Rightarrow> sh_words False None s | Some x \<Rightarrow> map_option ((#) x) (sh_words False None s))
      else if ch = backslash then
        (case s of [] \<Rightarrow> None | c # r \<Rightarrow> sh_words False (Some (or_empty w @ [c])) r)
      else if sh_special ch then None
      else sh_words False (Some (or_empty w @ [ch])) s)"

lemma or_empty_simps [simp]: "or_empty None = []" "or_empty (Some s) = s"
  by (simp_all add: or_empty_def)

lemma sh_words_body:
  "sh_words True (Some x) (concat (map (\<lambda>ch. if ch = CHR 0x27 then [CHR 0x27, backslash, CHR 0x27, CHR 0x27] else [ch]) v) @ CHR 0x27 # r)
   = sh_words False (Some (x @ v)) r"
  by (induction v arbitrary: x) auto

lemma sh_words_quote: "sh_words False w (quote_sh v @ r) = sh_words False (Some (or_empty w @ v)) r"
  using sh_words_body [of "or_empty w" v r] by (simp add: quote_sh_def)

definition plain_word :: "string \<Rightarrow> bool" where
  "plain_word k \<longleftrightarrow> list_all (\<lambda>ch. ch \<noteq> CHR 0x27 \<and> ch \<noteq> CHR '' '' \<and> ch \<noteq> backslash \<and> \<not> sh_special ch) k"

lemma sh_words_plain_Some: "plain_word k \<Longrightarrow> sh_words False (Some x) (k @ r) = sh_words False (Some (x @ k)) r"
  by (induction k arbitrary: x) (simp_all add: plain_word_def)

lemma sh_words_plain: "plain_word k \<Longrightarrow> k \<noteq> [] \<Longrightarrow> sh_words False w (k @ r) = sh_words False (Some (or_empty w @ k)) r"
proof (cases k)
  case (Cons ch k')
  assume "plain_word k"
  with Cons have "sh_words False w (k @ r) = sh_words False (Some (or_empty w @ [ch])) (k' @ r)" "plain_word k'"
    by (simp_all add: plain_word_def)
  then show ?thesis using Cons by (simp add: sh_words_plain_Some)
qed simp

lemma sh_words_assign:
  assumes "plain_word k" "k \<noteq> []"
  shows "sh_words False None (k @ CHR ''='' # quote_sh v @ r) = sh_words False (Some (k @ CHR ''='' # v)) r"
proof -
  have "plain_word (k @ ''='')" using assms(1) by (simp add: plain_word_def sh_special_def)
  from sh_words_plain [OF this, of None "quote_sh v @ r"] show ?thesis by (simp add: sh_words_quote)
qed

lemma sh_words_assigns:
  assumes "\<forall>k \<in> set ks. plain_word k \<and> k \<noteq> []"
  shows "sh_words False w (concat (map (\<lambda>k. CHR '' '' # k @ CHR ''='' # quote_sh (f k)) ks))
    = Some ((case w of None \<Rightarrow> [] | Some x \<Rightarrow> [x]) @ map (\<lambda>k. k @ CHR ''='' # f k) ks)"
  using assms
proof (induction ks arbitrary: w)
  case (Cons k ks)
  then show ?case by (cases w) (simp_all add: sh_words_assign)
qed (cases w, simp_all)


section \<open>What a run resolves to\<close>

text \<open>The specification: the last value of a key in the custom layer, the enabled scopes with their
  levels, the pairs of a preset, and the values each key has.\<close>

definition custom_map :: "string list \<Rightarrow> string \<Rightarrow> string option" where
  "custom_map custom = map_of (rev (map (\<lambda>l. (before_tab l, after_tab l)) custom))"

definition enabled :: "conf \<Rightarrow> string list \<Rightarrow> string list" where
  "enabled C custom = ''core'' # filter (\<lambda>p. p \<noteq> []) (split_char (CHR '' '') (commas_blank (profile_list C custom)))"

definition level_of :: "conf \<Rightarrow> string list \<Rightarrow> string \<Rightarrow> string" where
  "level_of C custom s = (case level_for C custom s of Inl e \<Rightarrow> [] | Inr lv \<Rightarrow> lv)"

definition preset_lines :: "conf \<Rightarrow> string \<Rightarrow> string list \<Rightarrow> string \<Rightarrow> string list" where
  "preset_lines C P custom s =
     (case c_file C (preset_file P s (level_of C custom s)) of None \<Rightarrow> [] | Some t \<Rightarrow> parse_envfile t)"

definition preset_pairs :: "conf \<Rightarrow> string \<Rightarrow> string list \<Rightarrow> string \<Rightarrow> (string \<times> string) set" where
  "preset_pairs C P custom s = (\<lambda>l. (before_tab l, after_tab l)) ` set (preset_lines C P custom s)"

definition layered :: "conf \<Rightarrow> string \<Rightarrow> string list \<Rightarrow> (string \<times> string \<times> string) set" where
  "layered C P custom =
     {(k, v, ''custom'') | k v. custom_map custom k = Some v \<and>
        ((\<exists>s \<in> set (enabled C custom). k \<in> fst ` preset_pairs C P custom s) \<or> k \<notin> set (all_preset_keys C P))} \<union>
     {(k, v, ''preset:'' @ s @ ''/'' @ level_of C custom s) | k v s. s \<in> set (enabled C custom) \<and>
        (k, v) \<in> preset_pairs C P custom s \<and> custom_map custom k = None}"

text \<open>Names that no tool takes apart.\<close>

definition plain_names :: "conf \<Rightarrow> string \<Rightarrow> string list \<Rightarrow> bool" where
  "plain_names C P custom \<longleftrightarrow>
     set (profile_list C custom) \<inter> {tab, newline, backslash, CHR ''*'', CHR ''?'', CHR ''[''} = {} \<and>
     (\<forall>l \<in> set custom. tab \<in> set l \<and> backslash \<notin> set (before_tab l)) \<and>
     (\<forall>s \<in> set (enabled C custom). \<forall>l \<in> set (preset_lines C P custom s). backslash \<notin> set (before_tab l))"

lemma ifs_words_split:
  "tab \<notin> set s \<Longrightarrow> newline \<notin> set s \<Longrightarrow>
   ifs_words_from acc s = filter (\<lambda>p. p \<noteq> []) (case split_char (CHR '' '') s of [] \<Rightarrow> [] | l # ls \<Rightarrow> (acc @ l) # ls)"
  by (induction s arbitrary: acc) (auto simp: flush_word_def is_ifs_def split: list.split)

lemma commas_blank_set: "set (commas_blank s) \<subseteq> insert (CHR '' '') (set s)"
  by (auto simp: commas_blank_def)

lemma enabled_chars: "s \<in> set (enabled C custom) \<Longrightarrow> s = ''core'' \<or> set s \<subseteq> set (profile_list C custom)"
proof -
  assume "s \<in> set (enabled C custom)"
  moreover have "set p \<subseteq> set (profile_list C custom)" if "p \<in> set (split_char (CHR '' '') (commas_blank (profile_list C custom)))" for p
    using split_char_pieces [OF that] commas_blank_set [of "profile_list C custom"] by blast
  ultimately show ?thesis by (auto simp: enabled_def)
qed

definition scope_ok :: "conf \<Rightarrow> string \<Rightarrow> string list \<Rightarrow> string \<Rightarrow> bool" where
  "scope_ok C P custom s \<longleftrightarrow> c_dir C (P @ ''/'' @ s) \<and>
     (\<exists>lv. level_for C custom s = Inr lv \<and> c_file C (preset_file P s lv) \<noteq> None)"

lemma validate_scopes_None: "validate_scopes C P custom ss = None \<longleftrightarrow> list_all (scope_ok C P custom) ss"
  by (induction ss) (auto simp: scope_ok_def split: sum.splits)

lemma resolve_scope_ok:
  "scope_ok C P custom s \<Longrightarrow>
   resolve_scope C P custom s = Inr (map (resolve_line C custom s (level_of C custom s)) (preset_lines C P custom s))"
  by (auto simp: scope_ok_def resolve_scope_def level_of_def preset_lines_def)

lemma resolve_scopes_ok:
  "list_all (scope_ok C P custom) ss \<Longrightarrow>
   resolve_scopes C P custom ss
   = (concat (map (\<lambda>s. map (resolve_line C custom s (level_of C custom s)) (preset_lines C P custom s)) ss), None)"
  by (induction ss) (simp_all add: resolve_scope_ok)

lemma contains_set: "contains h p \<Longrightarrow> set p \<subseteq> set h"
  by (auto simp: contains_iff)

lemma level_no_tab: "tab \<notin> set (level_of C custom s)"
proof (cases "level_for C custom s")
  case (Inr lv)
  then have "contains ('' '' @ LEVELS @ '' '') ('' '' @ lv @ '' '')"
    by (auto simp: level_for_def Let_def split: if_splits)
  then have "set lv \<subseteq> set ('' '' @ LEVELS @ '' '')" using contains_set by fastforce
  moreover have "tab \<notin> set ('' '' @ LEVELS @ '' '')" by (simp add: LEVELS_def)
  ultimately show ?thesis using Inr by (auto simp: level_of_def)
qed (simp add: level_of_def)

lemma layer_image:
  "(\<lambda>l. case m (f l) of Some v \<Rightarrow> (f l, v, a) | None \<Rightarrow> (f l, g l, b)) ` L
   = {(k, v, a) | k v. m k = Some v \<and> k \<in> fst ` (\<lambda>l. (f l, g l)) ` L} \<union>
     {(k, v, b) | k v. (k, v) \<in> (\<lambda>l. (f l, g l)) ` L \<and> m k = None}"
proof -
  have "x \<in> (\<lambda>l. case m (f l) of Some v \<Rightarrow> (f l, v, a) | None \<Rightarrow> (f l, g l, b)) ` L \<longleftrightarrow>
      (\<exists>l \<in> L. (\<exists>v. m (f l) = Some v \<and> x = (f l, v, a)) \<or> m (f l) = None \<and> x = (f l, g l, b))" for x
  proof -
    have "x = (case m y of Some v \<Rightarrow> (y, v, a) | None \<Rightarrow> (y, z, b)) \<longleftrightarrow>
        (\<exists>v. m y = Some v \<and> x = (y, v, a)) \<or> m y = None \<and> x = (y, z, b)" for y z
      by (cases "m y") auto
    then show ?thesis by (simp add: image_iff)
  qed
  then show ?thesis unfolding set_eq_iff by (simp only: mem_Collect_eq Un_iff image_iff) auto
qed

lemma graph_image:
  "(\<lambda>k. (k, the (m k), c)) ` {k. (\<exists>v. m k = Some v) \<and> Q k} = {(k, v, c) | k v. m k = Some v \<and> Q k}"
proof -
  have "x \<in> (\<lambda>k. (k, the (m k), c)) ` {k. (\<exists>v. m k = Some v) \<and> Q k} \<longleftrightarrow> (\<exists>k v. x = (k, v, c) \<and> m k = Some v \<and> Q k)" for x
    unfolding image_iff by (cases x) auto
  then show ?thesis by blast
qed

context config_env
begin

lemma custom_get_map:
  "\<forall>l \<in> set custom. tab \<in> set l \<Longrightarrow> backslash \<notin> set k \<Longrightarrow> custom_get C custom k = custom_map custom k"
  unfolding custom_map_def by (rule custom_get_spec)

lemma validated:
  assumes "plain_names C P custom"
  shows "validate C P custom = None \<longleftrightarrow> list_all (scope_ok C P custom) (enabled C custom)"
proof -
  let ?p = "commas_blank (profile_list C custom)"
  have p: "set ?p \<inter> {tab, newline, backslash, CHR ''*'', CHR ''?'', CHR ''[''} = {}"
    using assms commas_blank_set [of "profile_list C custom"] by (auto simp: plain_names_def)
  then have w: "ifs_words_from [] ?p = filter (\<lambda>p. p \<noteq> []) (split_char (CHR '' '') ?p)"
    using ifs_words_split [of ?p "[]"] by (cases "split_char (CHR '' '') ?p") auto
  have "concat (map (c_glob C) ws) = ws" if "\<forall>w \<in> set ws. set w \<inter> {CHR ''*'', CHR ''?'', CHR ''['', backslash} = {}" for ws
    using that by (induction ws) (simp_all add: glob)
  moreover have "set w \<inter> {CHR ''*'', CHR ''?'', CHR ''['', backslash} = {}" if "w \<in> set (split_char (CHR '' '') ?p)" for w
    using split_char_pieces [OF that] p by blast
  ultimately have c: "concat (map (c_glob C) (filter (\<lambda>p. p \<noteq> []) (split_char (CHR '' '') ?p)))
      = filter (\<lambda>p. p \<noteq> []) (split_char (CHR '' '') ?p)" by simp
  show ?thesis unfolding validate_def enabled_def w c by (rule validate_scopes_None)
qed

lemma resolve_all_ok:
  assumes "plain_names C P custom" "validate C P custom = None"
  shows "resolve_all C P custom =
    \<lparr>r_ok = True,
     r_lines = concat (map (\<lambda>s. map (resolve_line C custom s (level_of C custom s)) (preset_lines C P custom s)) (enabled C custom))
       @ resolve_extras C P custom,
     r_errs = []\<rparr>"
proof -
  let ?ps = "filter (\<lambda>p. p \<noteq> []) (split_char (CHR '' '') (commas_blank (profile_list C custom)))"
  have ok: "list_all (scope_ok C P custom) (enabled C custom)" using validated [OF assms(1)] assms(2) by blast
  then have "takeWhile (\<lambda>p. c_dir C (P @ ''/'' @ p)) ?ps = ?ps"
    by (subst takeWhile_eq_all_conv) (auto simp: enabled_def scope_ok_def list_all_iff)
  then have "scopes C P custom = (enabled C custom, [])"
    by (simp add: scopes_def Let_def enabled_def del: takeWhile_eq_all_conv)
  then show ?thesis by (simp add: resolve_all_def resolve_scopes_ok [OF ok])
qed

lemma resolve_line_parts:
  assumes "\<forall>l \<in> set custom. tab \<in> set l" "backslash \<notin> set (before_tab l)" "tab \<notin> set s"
  shows "parts (resolve_line C custom s (level_of C custom s) l) =
    (case custom_map custom (before_tab l) of
       Some v \<Rightarrow> (before_tab l, v, ''custom'')
     | None \<Rightarrow> (before_tab l, after_tab l, ''preset:'' @ s @ ''/'' @ level_of C custom s))"
  using assms before_tab_no_tab [of l] level_no_tab [of C custom s]
  by (simp add: resolve_line_def custom_get_map parts_eq Let_def split: option.split)

lemma extras_parts:
  assumes "\<forall>l \<in> set custom. tab \<in> set l \<and> backslash \<notin> set (before_tab l)"
  shows "set (map parts (resolve_extras C P custom))
    = {(k, v, ''custom'') | k v. custom_map custom k = Some v \<and> k \<notin> set (all_preset_keys C P)}"
proof -
  have dom: "k \<in> before_tab ` set custom \<longleftrightarrow> (\<exists>v. custom_map custom k = Some v)" for k
    using map_of_eq_None_iff [of "rev (map (\<lambda>l. (before_tab l, after_tab l)) custom)" k]
    by (simp add: custom_map_def image_image flip: not_None_eq)
  have "parts (k @ tab # or_empty (custom_get C custom k) @ tab # ''custom'') = (k, the (custom_map custom k), ''custom'')"
    if "k \<in> before_tab ` set custom" for k
  proof -
    from \<open>k \<in> before_tab ` set custom\<close> obtain l where "l \<in> set custom" "k = before_tab l" ..
    then have k: "tab \<notin> set k" "backslash \<notin> set k" using before_tab_no_tab assms by simp_all
    moreover from that obtain v where "custom_map custom k = Some v" unfolding dom ..
    moreover have "custom_get C custom k = custom_map custom k"
      using assms k(2) by (simp add: custom_get_map)
    ultimately show ?thesis using k(1) by (simp add: parts_eq)
  qed
  note part = this
  have "set (map parts (resolve_extras C P custom))
      = (\<lambda>k. parts (k @ tab # or_empty (custom_get C custom k) @ tab # ''custom'')) ` {k \<in> before_tab ` set custom. k \<notin> set (all_preset_keys C P)}"
    by (simp add: resolve_extras_def Let_def image_image)
  also have "\<dots> = (\<lambda>k. (k, the (custom_map custom k), ''custom'')) ` {k \<in> before_tab ` set custom. k \<notin> set (all_preset_keys C P)}"
    by (rule image_cong [OF refl]) (use part in simp)
  also have "\<dots> = {(k, v, ''custom'') | k v. custom_map custom k = Some v \<and> k \<notin> set (all_preset_keys C P)}"
    unfolding dom by (rule graph_image)
  finally show ?thesis .
qed

lemma scope_parts:
  assumes "plain_names C P custom" "s \<in> set (enabled C custom)"
  shows "parts ` resolve_line C custom s (level_of C custom s) ` set (preset_lines C P custom s)
    = {(k, v, ''custom'') | k v. custom_map custom k = Some v \<and> k \<in> fst ` preset_pairs C P custom s} \<union>
      {(k, v, ''preset:'' @ s @ ''/'' @ level_of C custom s) | k v. (k, v) \<in> preset_pairs C P custom s \<and> custom_map custom k = None}"
proof -
  have "tab \<notin> set s" using enabled_chars [OF assms(2)] assms(1) by (auto simp: plain_names_def)
  then have "parts (resolve_line C custom s (level_of C custom s) l) =
    (case custom_map custom (before_tab l) of
       Some v \<Rightarrow> (before_tab l, v, ''custom'')
     | None \<Rightarrow> (before_tab l, after_tab l, ''preset:'' @ s @ ''/'' @ level_of C custom s))"
    if "l \<in> set (preset_lines C P custom s)" for l
    using that assms by (intro resolve_line_parts) (auto simp: plain_names_def)
  then have "parts ` resolve_line C custom s (level_of C custom s) ` set (preset_lines C P custom s)
    = (\<lambda>l. case custom_map custom (before_tab l) of
         Some v \<Rightarrow> (before_tab l, v, ''custom'')
       | None \<Rightarrow> (before_tab l, after_tab l, ''preset:'' @ s @ ''/'' @ level_of C custom s)) ` set (preset_lines C P custom s)"
    unfolding image_image by (rule image_cong [OF refl])
  then show ?thesis unfolding preset_pairs_def layer_image .
qed

end

text \<open>The tools as POSIX describes them, on a tree where no pattern matches a file: \<open>sort -u\<close> by bytes,
  and \<open>awk\<close> reading escapes in an assigned value.\<close>

fun awk_text :: "string \<Rightarrow> string" where
  "awk_text [] = []"
| "awk_text [ch] = [ch]"
| "awk_text (ch # c # s) =
     (if ch \<noteq> backslash then ch # awk_text (c # s)
      else if c = CHR ''n'' then newline # awk_text s
      else if c = CHR ''t'' then tab # awk_text s
      else if c = backslash then backslash # awk_text s
      else ch # c # awk_text s)"

lemma awk_text_plain: "backslash \<notin> set s \<Longrightarrow> awk_text s = s"
  by (induction s rule: awk_text.induct) auto

definition posix :: "conf \<Rightarrow> conf" where
  "posix C = C\<lparr>c_sort_u := \<lambda>ls. sort (remdups ls), c_glob := \<lambda>s. [s], c_awk_v := awk_text\<rparr>"

interpretation posix: config_env "posix C" for C
  by unfold_locales (simp_all add: posix_def awk_text_plain)

text \<open>Custom over preset, key by key: a run that passes the checks fails nowhere later, and its lines
  are the custom values of the keys of the enabled presets and of the keys no preset knows, with
  the preset values of the keys that have no custom value.\<close>

lemma layered_fields:
  assumes "plain_names C P custom" "(k, v, s) \<in> layered C P custom"
  shows "tab \<notin> set s \<and> tab \<notin> set k"
proof -
  have k: "tab \<notin> set k'" if "custom_map custom k' = Some v'" for k' v'
    using map_of_SomeD [OF that [unfolded custom_map_def]] before_tab_no_tab by auto
  have p: "tab \<notin> set k'" if "(k', v') \<in> preset_pairs C P custom s'" for k' v' s'
    using that before_tab_no_tab by (auto simp: preset_pairs_def)
  have s: "tab \<notin> set s'" if "s' \<in> set (enabled C custom)" for s'
    using enabled_chars [OF that] assms(1) by (auto simp: plain_names_def)
  from assms(2) show ?thesis
    unfolding layered_def using k p s level_no_tab by (elim UnE CollectE exE conjE) auto
qed

lemma layers_union:
  "(\<Union>s \<in> A. {(k, v, a) | k v. m k = Some v \<and> k \<in> D s} \<union> {(k, v, b s) | k v. (k, v) \<in> Q s \<and> m k = None})
     \<union> {(k, v, a) | k v. m k = Some v \<and> k \<notin> K}
   = {(k, v, a) | k v. m k = Some v \<and> ((\<exists>s \<in> A. k \<in> D s) \<or> k \<notin> K)}
     \<union> {(k, v, b s) | k v s. s \<in> A \<and> (k, v) \<in> Q s \<and> m k = None}"
  by auto

lemma resolve_all_layered:
  assumes "config_env C" "plain_names C P custom" "validate C P custom = None"
  shows "r_ok (resolve_all C P custom)" "r_errs (resolve_all C P custom) = []"
    and "parts ` set (r_lines (resolve_all C P custom)) = layered C P custom"
proof -
  note all = config_env.resolve_all_ok [OF assms]
  show "r_ok (resolve_all C P custom)" "r_errs (resolve_all C P custom) = []" by (simp_all add: all)
  have "\<forall>l \<in> set custom. tab \<in> set l \<and> backslash \<notin> set (before_tab l)"
    using assms(2) by (simp add: plain_names_def)
  note ex = config_env.extras_parts [OF assms(1) this, of P]
  let ?S = "\<lambda>s. parts ` resolve_line C custom s (level_of C custom s) ` set (preset_lines C P custom s)"
  have "parts ` set (r_lines (resolve_all C P custom))
      = (\<Union>s \<in> set (enabled C custom). ?S s) \<union> set (map parts (resolve_extras C P custom))"
    by (simp add: all image_Un image_UN)
  also have "\<dots> = (\<Union>s \<in> set (enabled C custom).
        {(k, v, ''custom'') | k v. custom_map custom k = Some v \<and> k \<in> fst ` preset_pairs C P custom s} \<union>
        {(k, v, ''preset:'' @ s @ ''/'' @ level_of C custom s) | k v. (k, v) \<in> preset_pairs C P custom s \<and> custom_map custom k = None}) \<union>
      {(k, v, ''custom'') | k v. custom_map custom k = Some v \<and> k \<notin> set (all_preset_keys C P)}"
    unfolding ex by (simp only: config_env.scope_parts [OF assms(1,2)] cong: SUP_cong)
  also have "\<dots> = layered C P custom"
    unfolding layered_def by (rule layers_union)
  finally show "parts ` set (r_lines (resolve_all C P custom)) = layered C P custom" .
qed

text \<open>C11. A run of \<open>resolve\<close> over all services either ends with status 1, nothing on its output and one
  message, or with status 0, no message, and every value the two layers give.\<close>

theorem resolve_all_or_nothing:
  assumes "config_env C"
    and "parse_options C rest \<lparr>o_file = [], o_from_env = False, o_shell = False, o_porcelain = False, o_service = []\<rparr> = Inr opts"
    and "o_service opts = []"
    and "\<And>P custom. preset_dir C = Inr P \<Longrightarrow> custom_layer C P opts = Inr custom \<Longrightarrow> plain_names C P custom"
  shows "(\<exists>e. shield_config_main C (''resolve'' # rest) = (1, [], [e])) \<or>
    (\<exists>P custom ls. preset_dir C = Inr P \<and> custom_layer C P opts = Inr custom \<and> parts ` set ls = layered C P custom \<and>
      shield_config_main C (''resolve'' # rest) = (0, map (resolve_out (o_shell opts)) ls, []))"
proof (cases "preset_dir C")
  case (Inr P)
  show ?thesis
  proof (cases "custom_layer C P opts")
    case layer: (Inr custom)
    show ?thesis
    proof (cases "validate C P custom")
      case None
      note res = resolve_all_layered [OF assms(1) assms(4) [OF Inr layer] None]
      have "shield_config_main C (''resolve'' # rest) = (0, map (resolve_out (o_shell opts)) (r_lines (resolve_all C P custom)), [])"
        using assms(2,3) Inr layer None res(2) by (simp add: shield_config_main_def run_command_def filter_service_def)
      with Inr layer res(3) show ?thesis by blast
    qed (use assms(2) Inr layer in \<open>simp add: shield_config_main_def\<close>)
  qed (use assms(2) Inr in \<open>simp add: shield_config_main_def\<close>)
qed (simp add: shield_config_main_def)

section \<open>The dashboard reads the layers\<close>


text \<open>C10. The dashboard, which runs \<open>show --porcelain\<close> on an environment file and splits its lines, has
  read the value and the source that the two layers give each key, no more and no less.\<close>

theorem dashboard_reads_layers:
  assumes "config_env C" "preset_dir C = Inr P" "f \<noteq> []" "c_file C f = Some text"
    and "plain_names C P (parse_envfile text)" "validate C P (parse_envfile text) = None"
    and "exec E bin [''show'', ''--porcelain'', ''-f'', f] w = (Inr out, w')" "success out"
    and "out_bytes out = print_lines (fst (snd (shield_config_main C [''show'', ''--porcelain'', ''-f'', f])))"
    and "\<And>k v s. (k, v, s) \<in> layered C P (parse_envfile text) \<Longrightarrow>
        line_ok (s @ tab # k @ tab # v) \<and> utf8_valid (s @ tab # k @ tab # v)"
    and "utf8_valid bin" "utf8_valid f"
  shows "\<exists>es. config_load E bin (Some f) w = (Inr \<lparr>entries = es\<rparr>, w') \<and>
    (\<lambda>(s, k, v). (k, v, s)) ` set es = layered C P (parse_envfile text)"
proof -
  let ?custom = "parse_envfile text"
  let ?ls = "r_lines (resolve_all C P ?custom)"
  let ?es = "map (\<lambda>l. case parts l of (k, v, s) \<Rightarrow> (s, k, v)) ?ls"
  note res = resolve_all_layered [OF assms(1,5,6)]
  have "shield_config_main C [''show'', ''--porcelain'', ''-f'', f] = (0, map porcelain_out ?ls, [])"
    using assms(2-4,6) res(2)
    by (simp add: shield_config_main_def custom_layer_def run_command_def filter_service_def)
  moreover have "map porcelain_out ?ls = map (\<lambda>(s, k, v). s @ tab # k @ tab # v) ?es"
    by (simp add: porcelain_out_def split_beta)
  ultimately have out: "out_bytes out = print_lines (map (\<lambda>(s, k, v). s @ tab # k @ tab # v) ?es)"
    using assms(9) by simp
  have "config_load E bin (Some f) w = (Inr \<lparr>entries = ?es\<rparr>, w')"
  proof (rule config_load_lines [OF _ assms(8) out])
    show "exec E bin (case Some f of None \<Rightarrow> [''show'', ''--porcelain''] | Some f \<Rightarrow> [''show'', ''--porcelain'', ''-f'', f]) w = (Inr out, w')"
      using assms(7) by simp
    show "tab \<notin> set s \<and> tab \<notin> set k \<and> line_ok (s @ tab # k @ tab # v) \<and> utf8_valid (s @ tab # k @ tab # v)"
      if "(s, k, v) \<in> set ?es" for s k v
    proof -
      from that obtain l where l: "l \<in> set ?ls" and "(s, k, v) = (case parts l of (k, v, s) \<Rightarrow> (s, k, v))" by auto
      then have "parts l = (k, v, s)" by (cases "parts l") simp
      with l have "(k, v, s) \<in> layered C P ?custom" unfolding res(3) [symmetric] by (metis imageI)
      then show ?thesis using assms(10) layered_fields [OF assms(5)] by blast
    qed
  qed (use assms(11,12) in simp_all)
  moreover have "(\<lambda>(s, k, v). (k, v, s)) ` set ?es = layered C P ?custom"
    unfolding res(3) [symmetric] by (simp add: image_image split_beta)
  ultimately show ?thesis by blast
qed

text \<open>Core and one profile, with one key of each layer.\<close>

definition demo_tree :: "(string \<times> string) list" where
  "demo_tree =
     [(''/p/core/default.env'', ''# core'' @ [newline] @ ''SHIELD_BAN_FILE=/run/bans.json'' @ [newline] @ ''SHIELD_BAN_ALSO_FILE='' @ [newline]),
      (''/p/strfry/strict.env'', ''SHIELD_RATE=5'' @ [newline]),
      (''/p/strfry/default.env'', ''SHIELD_RATE=9'' @ [newline]),
      (''/s.env'', ''SHIELD_BIND=a='' @ [tab, newline] @ ''SHIELD_STRFRY_PRESET=strict'' @ [newline] @ ''SHIELD_BAN_FILE=/b'')]"

definition demo_conf :: conf where
  "demo_conf = posix
     \<lparr>c_file = map_of demo_tree, c_dir = (\<lambda>d. d \<in> {''/p/core'', ''/p/strfry''}), c_subdirs = (\<lambda>d. [''core'', ''strfry'']),
      c_env = [(''SHIELD_PRESET_DIR'', ''/p'')], c_self = ''/bin'', c_usage = [],
      c_sort_u = (\<lambda>ls. ls), c_glob = (\<lambda>s. []), c_awk_v = (\<lambda>s. s)\<rparr>"

definition demo_custom :: "string list" where
  "demo_custom = [''SHIELD_BIND'' @ tab # ''a='' @ [tab], ''SHIELD_STRFRY_PRESET'' @ tab # ''strict'', ''SHIELD_BAN_FILE'' @ tab # ''/b'']"

lemma demo_text: "c_file demo_conf ''/s.env'' = Some (''SHIELD_BIND=a='' @ [tab, newline] @ ''SHIELD_STRFRY_PRESET=strict'' @ [newline] @ ''SHIELD_BAN_FILE=/b'')"
  by (simp add: demo_conf_def posix_def demo_tree_def)

lemma demo_parse: "parse_envfile (''SHIELD_BIND=a='' @ [tab, newline] @ ''SHIELD_STRFRY_PRESET=strict'' @ [newline] @ ''SHIELD_BAN_FILE=/b'') = demo_custom"
  by code_simp

lemma demo_preset_dir: "preset_dir demo_conf = Inr ''/p''"
  by (simp add: preset_dir_def demo_conf_def posix_def lookup_env_def has_core_def)

lemma demo_profile: "profile_list demo_conf demo_custom = ''strfry''"
  by code_simp

lemma demo_enabled: "enabled demo_conf demo_custom = [''core'', ''strfry'']"
  by (simp add: enabled_def demo_profile commas_blank_def)

lemma demo_levels: "level_for demo_conf demo_custom ''core'' = Inr ''default''" "level_for demo_conf demo_custom ''strfry'' = Inr ''strict''"
  by code_simp+

lemma demo_presets:
  "preset_lines demo_conf ''/p'' demo_custom ''core'' = [''SHIELD_BAN_FILE'' @ tab # ''/run/bans.json'', ''SHIELD_BAN_ALSO_FILE'' @ [tab]]"
  "preset_lines demo_conf ''/p'' demo_custom ''strfry'' = [''SHIELD_RATE'' @ tab # ''5'']"
  by code_simp+

lemma demo_names: "plain_names demo_conf ''/p'' demo_custom"
proof -
  have "\<forall>l \<in> set demo_custom. tab \<in> set l \<and> backslash \<notin> set (before_tab l)"
    by (simp add: demo_custom_def before_tab_def)
  moreover have "\<forall>s \<in> set [''core'', ''strfry'']. \<forall>l \<in> set (preset_lines demo_conf ''/p'' demo_custom s). backslash \<notin> set (before_tab l)"
    by (simp add: demo_presets before_tab_def)
  ultimately show ?thesis unfolding plain_names_def demo_enabled demo_profile by simp
qed

lemma demo_valid: "validate demo_conf ''/p'' demo_custom = None"
  by code_simp

theorem resolve_all_or_nothing_witness:
  "(\<exists>e. shield_config_main demo_conf [''resolve'', ''-f'', ''/s.env''] = (1, [], [e])) \<or>
    (\<exists>P custom ls. preset_dir demo_conf = Inr P \<and>
      custom_layer demo_conf P \<lparr>o_file = ''/s.env'', o_from_env = False, o_shell = False, o_porcelain = False, o_service = []\<rparr> = Inr custom \<and>
      parts ` set ls = layered demo_conf P custom \<and>
      shield_config_main demo_conf [''resolve'', ''-f'', ''/s.env''] = (0, map (resolve_out False) ls, []))"
proof -
  let ?opts = "\<lparr>o_file = ''/s.env'', o_from_env = False, o_shell = False, o_porcelain = False, o_service = []\<rparr>"
  have "config_env demo_conf" unfolding demo_conf_def by (rule posix.config_env_axioms)
  moreover have "parse_options demo_conf [''-f'', ''/s.env''] (?opts\<lparr>o_file := []\<rparr>) = Inr ?opts" by simp
  moreover have "plain_names demo_conf P custom"
    if "preset_dir demo_conf = Inr P" "custom_layer demo_conf P ?opts = Inr custom" for P custom
    using that demo_names by (simp add: demo_preset_dir custom_layer_def demo_text demo_parse del: append.simps)
  ultimately show ?thesis
    using resolve_all_or_nothing [of demo_conf "[''-f'', ''/s.env'']" ?opts] by simp
qed

text \<open>An environment in which the command is this script.\<close>

definition demo_env :: "unit env" where
  "demo_env =
     \<lparr>exec = (\<lambda>bin args w. case shield_config_main demo_conf args of
        (status, out, err) \<Rightarrow>
          (Inr \<lparr>success = (status = 0), status_text = ''exit status: '' @ string_of_nat status,
             out_bytes = print_lines out, err_bytes = print_lines err\<rparr>, w)),
      file_open = (\<lambda>p w. (Inl NotFound, w)), seek_end = (\<lambda>h i w. (Inl NotFound, w)),
      read_exact = (\<lambda>h k w. (Inl NotFound, w)), wall_clock = (\<lambda>w. (None, w)), file_exists = (\<lambda>p w. (False, w))\<rparr>"

lemma demo_layered:
  "layered demo_conf ''/p'' demo_custom =
     {(''SHIELD_BIND'', ''a='' @ [tab], ''custom''), (''SHIELD_STRFRY_PRESET'', ''strict'', ''custom''),
      (''SHIELD_BAN_FILE'', ''/b'', ''custom''), (''SHIELD_BAN_ALSO_FILE'', [], ''preset:core/default''),
      (''SHIELD_RATE'', ''5'', ''preset:strfry/strict'')}"
proof -
  have "r_lines (resolve_all demo_conf ''/p'' demo_custom) =
    [''SHIELD_BAN_FILE'' @ tab # ''/b'' @ tab # ''custom'', ''SHIELD_BAN_ALSO_FILE'' @ tab # tab # ''preset:core/default'',
     ''SHIELD_RATE'' @ tab # ''5'' @ tab # ''preset:strfry/strict'',
     ''SHIELD_BIND'' @ tab # ''a='' @ tab # tab # ''custom'', ''SHIELD_STRFRY_PRESET'' @ tab # ''strict'' @ tab # ''custom'']"
    by code_simp
  moreover have "config_env demo_conf" unfolding demo_conf_def by (rule posix.config_env_axioms)
  ultimately show ?thesis
    using resolve_all_layered(3) [OF _ demo_names demo_valid]
    by (simp add: parts_def before_tab_def after_tab_def before_last_tab_def after_last_tab_def insert_commute)
qed

theorem dashboard_reads_layers_witness:
  "\<exists>es. config_load demo_env ''shield-config'' (Some ''/s.env'') () = (Inr \<lparr>entries = es\<rparr>, ()) \<and>
    (\<lambda>(s, k, v). (k, v, s)) ` set es = layered demo_conf ''/p'' demo_custom"
proof -
  let ?res = "shield_config_main demo_conf [''show'', ''--porcelain'', ''-f'', ''/s.env'']"
  let ?out = "\<lparr>success = (fst ?res = 0), status_text = ''exit status: '' @ string_of_nat (fst ?res),
     out_bytes = print_lines (fst (snd ?res)), err_bytes = print_lines (snd (snd ?res))\<rparr>"
  have C: "config_env demo_conf" unfolding demo_conf_def by (rule posix.config_env_axioms)
  have e: "exec demo_env ''shield-config'' [''show'', ''--porcelain'', ''-f'', ''/s.env''] () = (Inr ?out, ())"
    by (simp add: demo_env_def split_beta del: append.simps)
  have ok: "fst ?res = 0" by code_simp
  have fields: "line_ok (s @ tab # k @ tab # v) \<and> utf8_valid (s @ tab # k @ tab # v)"
    if "(k, v, s) \<in> layered demo_conf ''/p'' demo_custom" for k v s
    using that unfolding demo_layered by (auto simp: line_ok_def)
  show ?thesis
    using dashboard_reads_layers [OF C demo_preset_dir _ demo_text, unfolded demo_parse,
        OF _ demo_names demo_valid e _ _ fields] ok by simp
qed

section \<open>What the checks miss\<close>

text \<open>A service that no preset describes: the message is printed, but by a part of a pipeline, and the
  status is that of its end.\<close>

lemma unknown_service_exits_0:
  "shield_config_main demo_conf [''resolve'', ''nosuch'', ''-f'', ''/s.env''] =
     (0, [], [''shield-config: unknown service '' @ [CHR 0x27] @ ''nosuch'' @ [CHR 0x27] @ '' (have: strfry)''])"
  by code_simp

text \<open>A key no preset knows, given twice: everywhere else the last value wins.\<close>

lemma action_env_joins_values:
  "action_env (resolve_extras demo_conf ''/p'' (parse_envfile (''SHIELD_GUARD_PIN_DIR=/a'' @ [newline] @ ''SHIELD_GUARD_PIN_DIR=/b'')))
     = ''SHIELD_GUARD_PIN_DIR='' @ quote_sh ''/b/b''"
  by code_simp

text \<open>Two levels with a blank between them are found in the list of levels.\<close>

lemma two_levels_accepted:
  "level_for demo_conf [''SHIELD_PRESET'' @ tab # ''strict default''] ''core'' = Inr ''strict default''"
  by code_simp

end
