(* ===== verification/Ban_Contract.thy ===== *)
theory Ban_Contract
  imports Prelude
begin

text \<open>
  The contract between detection and enforcement (\<open>docs/verdict-schema.md\<close>): what a backend
  behind the verbs \<open>ban\<close>, \<open>unban\<close> and \<open>check\<close> promises, whatever it stores. The abstract state is a
  clock and the bans in force. A backend is a step relation with an abstraction function; the
  locale \<open>ban_backend\<close> states the simulation it owes, and the consequences for every run are
  proved once from the contract.
\<close>

section \<open>The abstract machine\<close>

datatype expiry = Permanent | Until nat

fun in_force :: "expiry \<Rightarrow> nat \<Rightarrow> bool" where
  "in_force Permanent t = True"
| "in_force (Until e) t = (t < e)"

definition in_force_part :: "nat \<Rightarrow> ('n \<Rightarrow> expiry option) \<Rightarrow> 'n \<Rightarrow> expiry option" where
  "in_force_part t B n = (case B n of None \<Rightarrow> None | Some u \<Rightarrow> if in_force u t then Some u else None)"

record 'n contract =
  clock :: nat
  banned :: "'n \<Rightarrow> expiry option"

text \<open>What an outside observer sees: a ban or an unban that took effect, the answer to a query, a
  source that met its ban or was spared by it, time, and everything else.\<close>

datatype 'n verb = Banned 'n int | Unbanned 'n | Answer 'n bool | Enforced 'n | Spared 'n | Elapse | Silent

text \<open>The expiry a backend computes for a ban of some seconds is its own (units, saturation).\<close>

inductive contract_step :: "(nat \<Rightarrow> int \<Rightarrow> expiry) \<Rightarrow> 'n contract \<Rightarrow> 'n verb \<Rightarrow> 'n contract \<Rightarrow> bool"
  for due :: "nat \<Rightarrow> int \<Rightarrow> expiry" where
  ban: "contract_step due s (Banned n ttl)
     (s\<lparr>banned := in_force_part (clock s) ((banned s)(n \<mapsto> due (clock s) ttl))\<rparr>)"
| unban: "contract_step due s (Unbanned n) (s\<lparr>banned := (banned s)(n := None)\<rparr>)"
| answer: "contract_step due s (Answer n (banned s n \<noteq> None)) s"
| enforce: "banned s n \<noteq> None \<Longrightarrow> contract_step due s (Enforced n) s"
| spare: "banned s n = None \<Longrightarrow> contract_step due s (Spared n) s"
| elapse: "clock s \<le> t \<Longrightarrow> contract_step due s Elapse \<lparr>clock = t, banned = in_force_part t (banned s)\<rparr>"
| silent: "contract_step due s Silent s"

inductive_cases contract_stepE: "contract_step due s v s'"

inductive runs :: "('s \<Rightarrow> 'e \<Rightarrow> 's \<Rightarrow> bool) \<Rightarrow> 's \<Rightarrow> 'e list \<Rightarrow> 's \<Rightarrow> bool"
  for step :: "'s \<Rightarrow> 'e \<Rightarrow> 's \<Rightarrow> bool" and s :: 's where
  none: "runs step s [] s"
| more: "runs step s es s1 \<Longrightarrow> step s1 e s2 \<Longrightarrow> runs step s (es @ [e]) s2"

lemma in_force_earlier: "t \<le> t' \<Longrightarrow> in_force u t' \<Longrightarrow> in_force u t"
  by (cases u) simp_all

lemma in_force_part_Some [simp]: "in_force_part t B n = Some u \<longleftrightarrow> B n = Some u \<and> in_force u t"
  by (auto simp: in_force_part_def split: option.split)

lemma in_force_part_None: "B n = None \<Longrightarrow> in_force_part t B n = None"
  by (simp add: in_force_part_def)

lemma in_force_part_idem: "t \<le> t' \<Longrightarrow> in_force_part t' (in_force_part t B) = in_force_part t' B"
  by (auto simp: in_force_part_def fun_eq_iff intro: in_force_earlier split: option.split)

lemma in_force_part_upd:
  "in_force_part t (B(n \<mapsto> u)) = (in_force_part t B)(n := if in_force u t then Some u else None)"
  by (auto simp: in_force_part_def fun_eq_iff)

section \<open>What follows for every run\<close>

definition speaks_of :: "'n \<Rightarrow> 'n verb \<Rightarrow> bool" where
  "speaks_of n v = (case v of Banned m _ \<Rightarrow> m = n | Unbanned m \<Rightarrow> m = n | _ \<Rightarrow> False)"

lemma contract_clock: "contract_step due s v s' \<Longrightarrow> clock s \<le> clock s'"
  by (auto elim: contract_stepE)

lemma contract_run_clock: "runs (contract_step due) s vs s' \<Longrightarrow> clock s \<le> clock s'"
  by (induction rule: runs.induct) (auto dest: contract_clock)

text \<open>A ban lives exactly until it lapses or is lifted: the source is never spared meanwhile, and
  no query denies it.\<close>

lemma contract_ban_lives:
  assumes "runs (contract_step due) s vs s'" "banned s n = Some u" "in_force u (clock s')"
    and "\<And>v. v \<in> set vs \<Longrightarrow> \<not> speaks_of n v"
  shows "banned s' n = Some u \<and> Spared n \<notin> set vs \<and> Answer n False \<notin> set vs"
  using assms
proof (induction rule: runs.induct)
  case (more vs s1 v s2)
  have "in_force u (clock s1)"
    using in_force_earlier contract_clock [OF more.hyps(2)] more.prems(2) .
  then have IH: "banned s1 n = Some u" "Spared n \<notin> set vs" "Answer n False \<notin> set vs"
    using more.IH more.prems by auto
  moreover have "\<not> speaks_of n v" using more.prems(3) by simp
  ultimately show ?case
    using more.hyps(2) more.prems(2) \<open>in_force u (clock s1)\<close>
    by (auto simp: speaks_of_def elim!: contract_stepE)
qed simp

text \<open>And nobody is banned who was not named.\<close>

lemma contract_no_collateral:
  assumes "runs (contract_step due) s vs s'" "banned s n = None" "\<And>ttl. Banned n ttl \<notin> set vs"
  shows "banned s' n = None \<and> Enforced n \<notin> set vs \<and> Answer n True \<notin> set vs"
  using assms
proof (induction rule: runs.induct)
  case (more vs s1 v s2)
  then have IH: "banned s1 n = None" "Enforced n \<notin> set vs" "Answer n True \<notin> set vs" by auto
  moreover have "\<forall>ttl. v \<noteq> Banned n ttl" using more.prems(2) by auto
  ultimately show ?case
    using more.hyps(2) by (auto simp: in_force_part_def elim!: contract_stepE)
qed simp

section \<open>The interface of a backend\<close>

locale ban_backend =
  fixes step :: "'s \<Rightarrow> 'e \<Rightarrow> 's \<Rightarrow> bool"
    and inv :: "'s \<Rightarrow> bool"
    and abs :: "'s \<Rightarrow> 'n contract"
    and reads :: "'e \<Rightarrow> 'n verb \<Rightarrow> bool"
    and due :: "nat \<Rightarrow> int \<Rightarrow> expiry"
  assumes keeps_inv: "inv s \<Longrightarrow> step s e s' \<Longrightarrow> inv s'"
    and simulates: "inv s \<Longrightarrow> step s e s' \<Longrightarrow> \<exists>v. reads e v \<and> contract_step due (abs s) v (abs s')"
begin

lemma run_refines:
  assumes "runs step s es s'" "inv s"
  shows "inv s' \<and> (\<exists>vs. list_all2 reads es vs \<and> runs (contract_step due) (abs s) vs (abs s'))"
  using assms
proof (induction rule: runs.induct)
  case none
  then show ?case using runs.none [of "contract_step due" "abs s"] by auto
next
  case (more es s1 e s2)
  then obtain vs where vs: "inv s1" "list_all2 reads es vs" "runs (contract_step due) (abs s) vs (abs s1)" by blast
  obtain v where v: "reads e v" "contract_step due (abs s1) v (abs s2)"
    using simulates [OF vs(1) more.hyps(2)] by blast
  have "list_all2 reads (es @ [e]) (vs @ [v])" using vs(2) v(1) by (simp add: list_all2_appendI)
  moreover have "runs (contract_step due) (abs s) (vs @ [v]) (abs s2)" using runs.more [OF vs(3) v(2)] .
  ultimately show ?case using keeps_inv [OF vs(1) more.hyps(2)] by blast
qed

definition leaves_alone :: "'n \<Rightarrow> 'e \<Rightarrow> bool" where
  "leaves_alone n e \<longleftrightarrow> (\<forall>v. reads e v \<longrightarrow> \<not> speaks_of n v)"

lemma verbs_silent:
  assumes "list_all2 reads es vs" "\<And>e. e \<in> set es \<Longrightarrow> leaves_alone n e" "v \<in> set vs"
  shows "\<not> speaks_of n v"
  using assms by (induction es vs rule: list_all2_induct) (auto simp: leaves_alone_def)

lemma backend_ban_lives:
  assumes "runs step s es s'" "inv s" "banned (abs s) n = Some u" "in_force u (clock (abs s'))"
    and "\<And>e. e \<in> set es \<Longrightarrow> leaves_alone n e"
  shows "banned (abs s') n = Some u"
proof -
  obtain vs where "list_all2 reads es vs" "runs (contract_step due) (abs s) vs (abs s')"
    using run_refines [OF assms(1,2)] by blast
  with contract_ban_lives [OF this(2) assms(3,4)] verbs_silent assms(5) show ?thesis by blast
qed

lemma backend_no_collateral:
  assumes "runs step s es s'" "inv s" "banned (abs s) n = None"
    and "\<And>e ttl. e \<in> set es \<Longrightarrow> \<not> reads e (Banned n ttl)"
  shows "banned (abs s') n = None"
proof -
  obtain vs where vs: "list_all2 reads es vs" "runs (contract_step due) (abs s) vs (abs s')"
    using run_refines [OF assms(1,2)] by blast
  have "Banned n ttl \<notin> set vs" for ttl
    using vs(1) assms(4) by (induction es vs rule: list_all2_induct) auto
  with contract_no_collateral [OF vs(2) assms(3)] show ?thesis by blast
qed

end

end
