(* ===== verification/Ban_File.thy ===== *)
theory Ban_File
  imports Complex_Main Rust_Str Ban_Contract
begin

text \<open>
  The banlist backend \<open>core/actions/shield-ban\<close>: a shell script that keeps one line
  \<open><ip> <until>\<close> per ban in a file and replaces the file under a lock. The programs it calls (\<open>awk\<close>,
  \<open>date\<close>, \<open>mkdir\<close>, \<open>flock\<close>, \<open>mktemp\<close>, \<open>chmod\<close>, \<open>mv\<close>) are a record of calls that may fail; the shell's
  own rules (\<open>set -euo pipefail\<close>, \<open>case\<close> patterns, \<open>test\<close>, 64-bit arithmetic with octal constants)
  are written out. The script holds the lock from before it reads the file until it ends, and the
  file is replaced in one rename, so a command is one step.
\<close>

section \<open>The calls\<close>

datatype file_state = NoFile | Unreadable | Content string

record 'w fhost =
  date_s :: "'w \<Rightarrow> nat"
  ban_file :: "'w \<Rightarrow> file_state"
  mkdir_p :: "'w \<Rightarrow> bool \<times> 'w"
  open_lock :: "'w \<Rightarrow> bool \<times> 'w"
  flock_x :: "'w \<Rightarrow> bool \<times> 'w"
  mktemp :: "'w \<Rightarrow> string option \<times> 'w"
  cat_to :: "string \<Rightarrow> string \<Rightarrow> 'w \<Rightarrow> bool \<times> 'w"
  chmod_644 :: "string \<Rightarrow> 'w \<Rightarrow> bool \<times> 'w"
  mv_over :: "string \<Rightarrow> 'w \<Rightarrow> bool \<times> 'w"
  is_dir :: "'w \<Rightarrow> bool"
  is_writable :: "'w \<Rightarrow> bool"
  ban_dir :: string
  awk_number :: "string \<Rightarrow> rat option"
  awk_greater :: "string \<Rightarrow> string \<Rightarrow> bool"
  awk_value :: "string \<Rightarrow> string"
  wide_constant :: "string \<Rightarrow> int"

text \<open>\<open>awk_number\<close> is the number a field is taken for when it looks like one; \<open>awk_greater\<close> compares
  fields as strings; \<open>awk_value\<close> is what \<open>-v x=s\<close> assigns. \<open>wide_constant\<close> is what shell arithmetic
  makes of a constant that does not fit 64 bits.\<close>

section \<open>Records and fields\<close>

definition awk_records :: "string \<Rightarrow> string list" where
  "awk_records s = map (\<lambda>l. if last l = newline then butlast l else l) (split_inclusive s)"

definition blank :: "char \<Rightarrow> bool" where
  "blank ch \<longleftrightarrow> ch = CHR '' '' \<or> ch = tab \<or> ch = newline"

fun awk_fields_from :: "string \<Rightarrow> string \<Rightarrow> string list" where
  "awk_fields_from acc [] = flush_word acc []"
| "awk_fields_from acc (ch # s) =
     (if blank ch then flush_word acc (awk_fields_from [] s) else awk_fields_from (acc @ [ch]) s)"

definition awk_fields :: "string \<Rightarrow> string list" where
  "awk_fields l = awk_fields_from [] l"

definition field :: "nat \<Rightarrow> string \<Rightarrow> string" where
  "field n l = (if n \<le> length (awk_fields l) then awk_fields l ! (n - 1) else [])"

definition awk_eq :: "'w fhost \<Rightarrow> string \<Rightarrow> string \<Rightarrow> bool" where
  "awk_eq H s t = (case (awk_number H s, awk_number H t) of (Some x, Some y) \<Rightarrow> x = y | _ \<Rightarrow> s = t)"

text \<open>\<open>NF >= 2 && ($2 == 0 || $2 > now)\<close>\<close>

definition live_line :: "'w fhost \<Rightarrow> nat \<Rightarrow> string \<Rightarrow> bool" where
  "live_line H now l \<longleftrightarrow> 2 \<le> length (awk_fields l) \<and>
     (case awk_number H (field 2 l) of
        Some x \<Rightarrow> x = 0 \<or> x > of_nat now
      | None \<Rightarrow> field 2 l = ''0'' \<or> awk_greater H (field 2 l) (string_of_nat now))"

text \<open>The status and the lines of \<open>active_entries\<close>; \<open>awk\<close> fails on a file it cannot read.\<close>

definition active_entries :: "'w fhost \<Rightarrow> 'w \<Rightarrow> bool \<times> string list" where
  "active_entries H w =
     (case ban_file H w of
        NoFile \<Rightarrow> (True, [])
      | Unreadable \<Rightarrow> (False, [])
      | Content s \<Rightarrow> (True, filter (live_line H (date_s H w)) (awk_records s)))"

definition without_ip :: "'w fhost \<Rightarrow> string \<Rightarrow> string list \<Rightarrow> string list" where
  "without_ip H ip ls = filter (\<lambda>l. \<not> awk_eq H (field 1 l) (awk_value H ip)) ls"

section \<open>Shell arithmetic\<close>

definition is_digit :: "char \<Rightarrow> bool" where
  "is_digit ch \<longleftrightarrow> 48 \<le> byte ch \<and> byte ch \<le> 57"

text \<open>The seconds must not match \<open>''|-|*[!0-9-]*|?*-*\<close>.\<close>

definition ttl_ok :: "string \<Rightarrow> bool" where
  "ttl_ok ttl \<longleftrightarrow> ttl \<noteq> [] \<and> ttl \<noteq> ''-'' \<and> list_all (\<lambda>ch. is_digit ch \<or> ch = CHR ''-'') ttl
     \<and> CHR ''-'' \<notin> set (tl ttl)"

fun radix_value :: "nat \<Rightarrow> nat \<Rightarrow> string \<Rightarrow> nat" where
  "radix_value r acc [] = acc"
| "radix_value r acc (ch # s) = radix_value r (acc * r + (byte ch - 48)) s"

definition fits64 :: "int \<Rightarrow> bool" where
  "fits64 i \<longleftrightarrow> - (2 ^ 63) \<le> i \<and> i < 2 ^ 63"

definition wrap64 :: "int \<Rightarrow> int" where
  "wrap64 i = (i + 2 ^ 63) mod 2 ^ 64 - 2 ^ 63"

definition decimal :: "string \<Rightarrow> int" where
  "decimal s = (if hd s = CHR ''-'' then - int (radix_value 10 0 (tl s)) else int (radix_value 10 0 s))"

text \<open>\<open>[ "$ttl" -le 0 ]\<close> reads a decimal number; on one that does not fit it fails, and the
  \<open>if\<close> takes the other branch.\<close>

definition test_le_0 :: "string \<Rightarrow> bool" where
  "test_le_0 ttl \<longleftrightarrow> fits64 (decimal ttl) \<and> decimal ttl \<le> 0"

text \<open>A constant in \<open>$(( ))\<close>: a leading zero makes it octal, where 8 and 9 are errors.\<close>

definition arith_constant :: "'w fhost \<Rightarrow> string \<Rightarrow> int option" where
  "arith_constant H s =
     (if hd s = CHR ''0'' \<and> 1 < length s
      then (if list_all (\<lambda>ch. byte ch < 56) s
            then Some (if fits64 (int (radix_value 8 0 s)) then int (radix_value 8 0 s) else wide_constant H s)
            else None)
      else Some (if fits64 (int (radix_value 10 0 s)) then int (radix_value 10 0 s) else wide_constant H s))"

definition arith_ttl :: "'w fhost \<Rightarrow> string \<Rightarrow> int option" where
  "arith_ttl H ttl =
     (if hd ttl = CHR ''-'' then map_option uminus (arith_constant H (tl ttl)) else arith_constant H ttl)"

definition string_of_int :: "int \<Rightarrow> string" where
  "string_of_int i = (if i < 0 then CHR ''-'' # string_of_nat (nat (- i)) else string_of_nat (nat i))"

definition ban_until :: "'w fhost \<Rightarrow> string \<Rightarrow> 'w \<Rightarrow> string option" where
  "ban_until H ttl w =
     (if test_le_0 ttl then Some ''0''
      else map_option (\<lambda>i. string_of_int (wrap64 (int (date_s H w) + i))) (arith_ttl H ttl))"

section \<open>The verbs\<close>

text \<open>\<open>Aborted\<close> is the end by \<open>set -e\<close>, with the status of the command that failed.\<close>

datatype shell_exit = Exit nat | Aborted

record 'w outcome =
  o_exit :: shell_exit
  o_out :: "string list"
  o_err :: "string list"
  o_world :: 'w

definition rewrite :: "'w fhost \<Rightarrow> string \<Rightarrow> 'w \<Rightarrow> bool \<times> 'w" where
  "rewrite H text w =
     (case mktemp H w of
        (None, w) \<Rightarrow> (False, w)
      | (Some tmp, w) \<Rightarrow>
          (case cat_to H tmp text w of
             (False, w) \<Rightarrow> (False, w)
           | (True, w) \<Rightarrow>
               (case chmod_644 H tmp w of
                  (False, w) \<Rightarrow> (False, w)
                | (True, w) \<Rightarrow> mv_over H tmp w)))"

definition locked :: "'w fhost \<Rightarrow> 'w \<Rightarrow> bool \<times> 'w" where
  "locked H w =
     (case mkdir_p H w of
        (False, w) \<Rightarrow> (False, w)
      | (True, w) \<Rightarrow>
          (case open_lock H w of
             (False, w) \<Rightarrow> (False, w)
           | (True, w) \<Rightarrow> flock_x H w))"

definition ban_text :: "string \<Rightarrow> string \<Rightarrow> string" where
  "ban_text ip until =
     (if until = ''0'' then ''banned '' @ ip @ '' permanently'' else ''banned '' @ ip @ '' until '' @ until)"

text \<open>When \<open>active_entries\<close> fails, the group that feeds \<open>rewrite\<close> ends early, but \<open>rewrite\<close> still
  replaces the file with what it got; only then does the pipeline fail.\<close>

definition file_ban :: "'w fhost \<Rightarrow> string \<Rightarrow> string \<Rightarrow> 'w \<Rightarrow> 'w outcome" where
  "file_ban H ip ttl w =
     (if \<not> ttl_ok ttl
      then \<lparr>o_exit = Exit 2, o_out = [],
            o_err = [''shield-ban: seconds must be an integer, got '' @ [CHR 0x27] @ ttl @ [CHR 0x27]], o_world = w\<rparr>
      else
        (case ban_until H ttl w of
           None \<Rightarrow> \<lparr>o_exit = Aborted, o_out = [], o_err = [], o_world = w\<rparr>
         | Some until \<Rightarrow>
             (case locked H w of
                (False, w) \<Rightarrow> \<lparr>o_exit = Aborted, o_out = [], o_err = [], o_world = w\<rparr>
              | (True, w) \<Rightarrow>
                  (let (read, ls) = active_entries H w;
                       ls = without_ip H ip ls @ (if read then [ip @ CHR '' '' # until] else []);
                       (wrote, w) = rewrite H (print_lines ls) w
                   in if read \<and> wrote
                      then \<lparr>o_exit = Exit 0, o_out = [ban_text ip until], o_err = [], o_world = w\<rparr>
                      else \<lparr>o_exit = Aborted, o_out = [], o_err = [], o_world = w\<rparr>))))"

definition file_unban :: "'w fhost \<Rightarrow> string \<Rightarrow> 'w \<Rightarrow> 'w outcome" where
  "file_unban H ip w =
     (case locked H w of
        (False, w) \<Rightarrow> \<lparr>o_exit = Aborted, o_out = [], o_err = [], o_world = w\<rparr>
      | (True, w) \<Rightarrow>
          (let (read, ls) = active_entries H w;
               (wrote, w) = rewrite H (print_lines (without_ip H ip ls)) w
           in if read \<and> wrote
              then \<lparr>o_exit = Exit 0, o_out = [''unbanned '' @ ip], o_err = [], o_world = w\<rparr>
              else \<lparr>o_exit = Aborted, o_out = [], o_err = [], o_world = w\<rparr>))"

text \<open>A command substitution joins the lines and drops newlines at the end.\<close>

definition substitution :: "string list \<Rightarrow> string" where
  "substitution ls = rev (dropWhile (\<lambda>ch. ch = newline) (rev (print_lines ls)))"

definition file_check :: "'w fhost \<Rightarrow> string \<Rightarrow> 'w \<Rightarrow> 'w outcome" where
  "file_check H ip w =
     (let (read, ls) = active_entries H w;
          until = substitution (map (field 2) (filter (\<lambda>l. awk_eq H (field 1 l) (awk_value H ip)) ls))
      in if \<not> read then \<lparr>o_exit = Aborted, o_out = [], o_err = [], o_world = w\<rparr>
         else if until \<noteq> [] then \<lparr>o_exit = Exit 0, o_out = [ban_text ip until], o_err = [], o_world = w\<rparr>
         else \<lparr>o_exit = Exit 1, o_out = [''not banned '' @ ip], o_err = [], o_world = w\<rparr>)"

definition file_list :: "'w fhost \<Rightarrow> 'w \<Rightarrow> 'w outcome" where
  "file_list H w =
     (let (read, ls) = active_entries H w
      in \<lparr>o_exit = (if read then Exit 0 else Aborted), o_out = ls, o_err = [], o_world = w\<rparr>)"

definition file_health :: "'w fhost \<Rightarrow> 'w \<Rightarrow> 'w outcome" where
  "file_health H w =
     (if \<not> is_dir H w
      then \<lparr>o_exit = Exit 1, o_out = [], o_err = [''banlist directory '' @ ban_dir H @ '' does not exist''], o_world = w\<rparr>
      else if \<not> is_writable H w
      then \<lparr>o_exit = Exit 1, o_out = [], o_err = [''banlist directory '' @ ban_dir H @ '' is not writable''], o_world = w\<rparr>
      else \<lparr>o_exit = Exit 0, o_out = [''ok: '' @ ban_dir H @ '' is writable''], o_err = [], o_world = w\<rparr>)"

definition usage :: string where
  "usage = ''usage: shield-ban ban <ip> <seconds> | unban <ip> | check <ip> | list | health''"

text \<open>\<open>${2:?..}\<close> ends the script when the argument is missing or empty.\<close>

definition arg :: "nat \<Rightarrow> string list \<Rightarrow> string" where
  "arg n args = (if n \<le> length args then args ! (n - 1) else [])"

definition shield_ban :: "'w fhost \<Rightarrow> string list \<Rightarrow> 'w \<Rightarrow> 'w outcome" where
  "shield_ban H args w =
     (let cmd = arg 1 args; ip = arg 2 args; ttl = arg 3 args in
      if cmd = ''ban'' then
        (if ip = [] \<or> ttl = []
         then \<lparr>o_exit = Aborted, o_out = [], o_err = [''usage: shield-ban ban <ip> <seconds>''], o_world = w\<rparr>
         else file_ban H ip ttl w)
      else if cmd = ''unban'' then
        (if ip = []
         then \<lparr>o_exit = Aborted, o_out = [], o_err = [''usage: shield-ban unban <ip>''], o_world = w\<rparr>
         else file_unban H ip w)
      else if cmd = ''check'' then
        (if ip = []
         then \<lparr>o_exit = Aborted, o_out = [], o_err = [''usage: shield-ban check <ip>''], o_world = w\<rparr>
         else file_check H ip w)
      else if cmd = ''list'' then file_list H w
      else if cmd = ''health'' then file_health H w
      else \<lparr>o_exit = Exit 2, o_out = [], o_err = [usage], o_world = w\<rparr>)"

end
