(* ===== verification/Ban_Store.thy ===== *)
theory Ban_Store
  imports Ban_File
begin

text \<open>
  What the banlist backend does to a banlist it wrote itself. The locale \<open>ban_store\<close> states what
  the script relies on: \<open>awk\<close> reads decimal numbers as numbers and IPv6 addresses as text, and on
  a machine in order the file calls succeed and the rename installs the new text. Inside it every
  verb is shown to be an operation on the list of entries.
\<close>

section \<open>Banlists\<close>

text \<open>An IPv6 address as nginx prints it.\<close>

definition addr_char :: "char \<Rightarrow> bool" where
  "addr_char ch \<longleftrightarrow> is_digit ch \<or> 97 \<le> byte ch \<and> byte ch \<le> 102 \<or> ch = CHR '':'' \<or> ch = CHR ''.''"

definition addr_text :: "string \<Rightarrow> bool" where
  "addr_text ip \<longleftrightarrow> list_all addr_char ip \<and> CHR '':'' \<in> set ip"

definition entry_line :: "string \<times> nat \<Rightarrow> string" where
  "entry_line e = fst e @ CHR '' '' # string_of_nat (snd e)"

definition wf_entries :: "(string \<times> nat) list \<Rightarrow> bool" where
  "wf_entries es \<longleftrightarrow> distinct (map fst es) \<and> list_all (\<lambda>e. addr_text (fst e)) es"

definition banlist :: "(string \<times> nat) list \<Rightarrow> string" where
  "banlist es = print_lines (map entry_line es)"

definition parse_entry :: "string \<Rightarrow> (string \<times> nat) option" where
  "parse_entry l =
     (case awk_fields l of [ip, u] \<Rightarrow> map_option (Pair ip) (digits_value 10 0 u) | _ \<Rightarrow> None)"

definition entries_of :: "file_state \<Rightarrow> (string \<times> nat) list" where
  "entries_of f = (case f of Content s \<Rightarrow> filter_map parse_entry (awk_records s) | _ \<Rightarrow> [])"

definition well_kept :: "file_state \<Rightarrow> bool" where
  "well_kept f \<longleftrightarrow> f = NoFile \<or> (\<exists>es. wf_entries es \<and> f = Content (banlist es))"

definition entry_live :: "nat \<Rightarrow> string \<times> nat \<Rightarrow> bool" where
  "entry_live now e \<longleftrightarrow> snd e = 0 \<or> now < snd e"

lemma addr_plain: "addr_text ip \<Longrightarrow> list_all plain ip"
  by (auto simp: addr_text_def addr_char_def is_digit_def plain_def list_all_iff)

lemma addr_not_Nil [simp]: "addr_text ip \<Longrightarrow> ip \<noteq> []"
  by (auto simp: addr_text_def)

lemma plain_not_blank: "plain ch \<Longrightarrow> \<not> blank ch"
  by (simp add: blank_def)

lemma awk_fields_from_plain:
  "list_all plain a \<Longrightarrow> awk_fields_from acc (a @ s) = awk_fields_from (acc @ a) s"
  by (induction a arbitrary: acc) (simp_all add: plain_not_blank)

lemma awk_fields_entry: "addr_text (fst e) \<Longrightarrow> awk_fields (entry_line e) = [fst e, string_of_nat (snd e)]"
  using awk_fields_from_plain [of "fst e" "[]" "CHR '' '' # string_of_nat (snd e)"]
    awk_fields_from_plain [of "string_of_nat (snd e)" "[]" "[]"]
  by (simp add: awk_fields_def entry_line_def addr_plain plain_string_of_nat blank_def flush_word_def)

lemma field_entry [simp]:
  "addr_text (fst e) \<Longrightarrow> field (Suc 0) (entry_line e) = fst e"
  "addr_text (fst e) \<Longrightarrow> field 2 (entry_line e) = string_of_nat (snd e)"
  by (simp_all add: field_def awk_fields_entry)

lemma entry_line_no_newline: "addr_text (fst e) \<Longrightarrow> newline \<notin> set (entry_line e)"
proof -
  assume "addr_text (fst e)"
  then have "list_all plain (fst e @ string_of_nat (snd e))"
    by (simp add: addr_plain plain_string_of_nat)
  moreover have "\<not> plain newline" by (simp add: plain_def)
  ultimately show ?thesis by (auto simp: entry_line_def list_all_iff)
qed

lemma awk_records_print:
  "(\<And>l. l \<in> set ls \<Longrightarrow> newline \<notin> set l) \<Longrightarrow> awk_records (print_lines ls) = ls"
  by (induction ls) (simp_all add: awk_records_def split_inclusive_line)

lemma awk_records_banlist: "wf_entries es \<Longrightarrow> awk_records (banlist es) = map entry_line es"
  unfolding banlist_def
  by (rule awk_records_print) (auto simp: wf_entries_def list_all_iff entry_line_no_newline)

lemma parse_entry_line: "addr_text (fst e) \<Longrightarrow> parse_entry (entry_line e) = Some e"
  by (simp add: parse_entry_def awk_fields_entry digits_value_string_of_nat)

lemma entries_of_banlist [simp]: "wf_entries es \<Longrightarrow> entries_of (Content (banlist es)) = es"
  using filter_map_map [of es parse_entry entry_line "\<lambda>e. e"]
  by (simp add: entries_of_def awk_records_banlist wf_entries_def list_all_iff parse_entry_line)

lemma entries_of_NoFile [simp]: "entries_of NoFile = []"
  by (simp add: entries_of_def)

lemma well_kept_wf: "well_kept f \<Longrightarrow> wf_entries (entries_of f)"
  by (auto simp: well_kept_def) (simp add: wf_entries_def)

lemma wf_entries_filter: "wf_entries es \<Longrightarrow> wf_entries (filter P es)"
  by (auto simp: wf_entries_def distinct_map_filter list_all_iff)

lemma wf_entries_snoc:
  "wf_entries es \<Longrightarrow> addr_text ip \<Longrightarrow> wf_entries (filter (\<lambda>e. P e \<and> fst e \<noteq> ip) es @ [(ip, u)])"
  by (auto simp: wf_entries_def distinct_map_filter list_all_iff)

lemma filter_key:
  "distinct (map fst es) \<Longrightarrow> filter (\<lambda>e. fst e = k) es = (case map_of es k of None \<Rightarrow> [] | Some u \<Rightarrow> [(k, u)])"
proof (induction es)
  case (Cons e es)
  then show ?case by (cases e; cases "fst e = k") (force simp: filter_empty_conv split: option.splits)+
qed simp

section \<open>Numbers on the command line\<close>

lemma radix_value_append: "radix_value r acc (a @ b) = radix_value r (radix_value r acc a) b"
  by (induction a arbitrary: acc) simp_all

lemma radix_value_string_of_nat: "radix_value 10 0 (string_of_nat n) = n"
proof (induction n rule: string_of_nat.induct)
  case (1 n)
  then show ?case
    by (cases "n < 10") (simp_all add: string_of_nat.simps [of n] radix_value_append byte_digit_char)
qed

lemma digits_string_of_nat: "list_all is_digit (string_of_nat n)"
proof (induction n rule: string_of_nat.induct)
  case (1 n)
  then show ?case
    by (cases "n < 10") (simp_all add: string_of_nat.simps [of n] is_digit_def byte_digit_char)
qed

lemma digit_not_minus: "list_all is_digit s \<Longrightarrow> CHR ''-'' \<notin> set s"
  by (auto simp: list_all_iff is_digit_def)

lemma hd_string_of_nat: "0 < n \<Longrightarrow> hd (string_of_nat n) \<noteq> CHR ''0''"
proof (induction n rule: string_of_nat.induct)
  case (1 n)
  show ?case
  proof (cases "n < 10")
    case True
    then have "byte (digit_char n) \<noteq> byte (CHR ''0'')" using 1(2) by (simp add: byte_digit_char)
    with True show ?thesis by (auto simp: string_of_nat.simps [of n])
  next
    case False
    with 1 show ?thesis by (simp add: string_of_nat.simps [of n])
  qed
qed

lemma hd_digit: "list_all is_digit s \<Longrightarrow> s \<noteq> [] \<Longrightarrow> hd s \<noteq> CHR ''-''"
  by (cases s) (auto simp: is_digit_def)

lemma string_of_int_cases:
  "string_of_int i = (if i < 0 then CHR ''-'' # string_of_nat (nat (- i)) else string_of_nat (nat i))"
  by (simp add: string_of_int_def)

lemma ttl_ok_string_of_int: "ttl_ok (string_of_int i)"
proof -
  have d: "list_all (\<lambda>ch. is_digit ch \<or> ch = CHR ''-'') (string_of_nat n)" "CHR ''-'' \<notin> set (string_of_nat n)" for n
    using digits_string_of_nat [of n] digit_not_minus by (auto simp: list_all_iff)
  have "CHR ''-'' \<notin> set (tl (string_of_nat n))" for n
    using d(2) [of n] by (meson list.set_sel(2) string_of_nat_not_Nil)
  moreover have "string_of_nat n \<noteq> ''-''" for n using d(2) [of n] by auto
  ultimately show ?thesis using d by (simp add: ttl_ok_def string_of_int_def)
qed

lemma decimal_string_of_int: "decimal (string_of_int i) = i"
  using hd_digit [OF digits_string_of_nat, of "nat i"]
  by (simp add: decimal_def string_of_int_def radix_value_string_of_nat)

lemma wrap64_fits: "fits64 i \<Longrightarrow> wrap64 i = i"
  by (simp add: wrap64_def fits64_def)

lemma string_of_nat_0: "string_of_nat 0 = ''0''"
proof -
  have "digit_char 0 = CHR ''0''" by code_simp
  then show ?thesis by (simp add: string_of_nat.simps [of 0])
qed

text \<open>Seconds printed the usual way give the expiry one expects.\<close>

lemma ban_until_string_of_int:
  assumes "fits64 i" "int (date_s H w) + i < 2 ^ 63"
  shows "ban_until H (string_of_int i) w = Some (string_of_nat (if i \<le> 0 then 0 else date_s H w + nat i))"
proof (cases "i \<le> 0")
  case True
  then show ?thesis
    using assms(1) by (simp add: ban_until_def test_le_0_def decimal_string_of_int string_of_nat_0)
next
  case False
  then have i: "string_of_int i = string_of_nat (nat i)" "0 < nat i" by (simp_all add: string_of_int_def)
  have "arith_ttl H (string_of_int i) = Some i"
    using hd_digit [OF digits_string_of_nat, of "nat i"] hd_string_of_nat [OF i(2)] assms(1) False
    by (simp add: arith_ttl_def arith_constant_def i(1) radix_value_string_of_nat)
  moreover have "fits64 (int (date_s H w) + i)" using assms False by (simp add: fits64_def)
  moreover have "nat (int (date_s H w) + i) = date_s H w + nat i" using False by (simp add: nat_add_distrib)
  moreover have "\<not> test_le_0 (string_of_int i)" using False by (simp add: test_le_0_def decimal_string_of_int)
  moreover have "string_of_int (int (date_s H w) + i) = string_of_nat (nat (int (date_s H w) + i))"
    using False by (simp add: string_of_int_def)
  ultimately show ?thesis using False by (simp add: ban_until_def wrap64_fits)
qed

section \<open>The contract of the machine\<close>

locale ban_store =
  fixes H :: "'w fhost" and ok :: "'w \<Rightarrow> bool" and tmp_text :: "'w \<Rightarrow> string \<Rightarrow> string option"
  assumes number_nat: "awk_number H (string_of_nat n) = Some (of_nat n)"
    and number_addr: "addr_text ip \<Longrightarrow> awk_number H ip = None"
    and value_addr: "addr_text ip \<Longrightarrow> awk_value H ip = ip"
    and mkdir: "ok w \<Longrightarrow> \<exists>w'. mkdir_p H w = (True, w') \<and> ok w' \<and> ban_file H w' = ban_file H w \<and> date_s H w' = date_s H w"
    and lock: "ok w \<Longrightarrow> \<exists>w'. open_lock H w = (True, w') \<and> ok w' \<and> ban_file H w' = ban_file H w \<and> date_s H w' = date_s H w"
    and flock: "ok w \<Longrightarrow> \<exists>w'. flock_x H w = (True, w') \<and> ok w' \<and> ban_file H w' = ban_file H w \<and> date_s H w' = date_s H w"
    and temp: "ok w \<Longrightarrow> \<exists>tmp w'. mktemp H w = (Some tmp, w') \<and> ok w' \<and> ban_file H w' = ban_file H w \<and> date_s H w' = date_s H w"
    and cat: "ok w \<Longrightarrow> \<exists>w'. cat_to H tmp s w = (True, w') \<and> ok w' \<and> tmp_text w' tmp = Some s \<and> date_s H w' = date_s H w"
    and chmod: "ok w \<Longrightarrow> \<exists>w'. chmod_644 H tmp w = (True, w') \<and> ok w' \<and> tmp_text w' = tmp_text w \<and> date_s H w' = date_s H w"
    and mv: "ok w \<Longrightarrow> tmp_text w tmp = Some s \<Longrightarrow>
      \<exists>w'. mv_over H tmp w = (True, w') \<and> ok w' \<and> ban_file H w' = Content s \<and> date_s H w' = date_s H w"
begin

lemma rewrite_spec:
  assumes "ok w"
  shows "\<exists>w'. rewrite H s w = (True, w') \<and> ok w' \<and> ban_file H w' = Content s \<and> date_s H w' = date_s H w"
proof -
  obtain tmp w1 where 1: "mktemp H w = (Some tmp, w1)" "ok w1" "date_s H w1 = date_s H w"
    using temp [OF assms] by blast
  obtain w2 where 2: "cat_to H tmp s w1 = (True, w2)" "ok w2" "tmp_text w2 tmp = Some s" "date_s H w2 = date_s H w"
    using cat [OF 1(2)] 1(3) by metis
  obtain w3 where 3: "chmod_644 H tmp w2 = (True, w3)" "ok w3" "tmp_text w3 tmp = Some s" "date_s H w3 = date_s H w"
    using chmod [OF 2(2)] 2(3,4) by metis
  show ?thesis using mv [OF 3(2,3)] 1(1) 2(1) 3(1,4) by (auto simp: rewrite_def)
qed

lemma locked_spec:
  assumes "ok w"
  shows "\<exists>w'. locked H w = (True, w') \<and> ok w' \<and> ban_file H w' = ban_file H w \<and> date_s H w' = date_s H w"
proof -
  obtain w1 where 1: "mkdir_p H w = (True, w1)" "ok w1" "ban_file H w1 = ban_file H w" "date_s H w1 = date_s H w"
    using mkdir [OF assms] by blast
  obtain w2 where 2: "open_lock H w1 = (True, w2)" "ok w2" "ban_file H w2 = ban_file H w" "date_s H w2 = date_s H w"
    using lock [OF 1(2)] 1(3,4) by metis
  show ?thesis using flock [OF 2(2)] 1(1) 2(1,3,4) by (auto simp: locked_def)
qed

lemma live_line_entry: "addr_text (fst e) \<Longrightarrow> live_line H now (entry_line e) = entry_live now e"
  by (simp add: live_line_def awk_fields_entry number_nat entry_live_def)

lemma awk_eq_addr: "addr_text a \<Longrightarrow> addr_text b \<Longrightarrow> awk_eq H a (awk_value H b) \<longleftrightarrow> a = b"
  by (simp add: awk_eq_def number_addr value_addr)

lemma filter_entries:
  assumes "wf_entries es" "\<And>e. addr_text (fst e) \<Longrightarrow> P (entry_line e) = Q e"
  shows "filter P (map entry_line es) = map entry_line (filter Q es)"
  using assms by (induction es) (auto simp: wf_entries_def)

lemma active_spec:
  assumes "well_kept (ban_file H w)"
  shows "active_entries H w = (True, map entry_line (filter (entry_live (date_s H w)) (entries_of (ban_file H w))))"
  using assms filter_entries [where P = "live_line H (date_s H w)", OF _ live_line_entry]
  by (auto simp: well_kept_def active_entries_def awk_records_banlist)

lemma without_spec:
  assumes "wf_entries es" "addr_text ip"
  shows "without_ip H ip (map entry_line es) = map entry_line (filter (\<lambda>e. fst e \<noteq> ip) es)"
  unfolding without_ip_def
  by (rule filter_entries [OF assms(1)]) (simp add: awk_eq_addr assms(2))

text \<open>\<open>ban\<close> drops lapsed entries and the old entry of the address, and appends the new one.\<close>

lemma file_ban_spec:
  assumes "ok w" "well_kept (ban_file H w)" "addr_text ip" "ttl_ok ttl" "ban_until H ttl w = Some (string_of_nat u)"
  shows "\<exists>w'. file_ban H ip ttl w = \<lparr>o_exit = Exit 0, o_out = [ban_text ip (string_of_nat u)], o_err = [], o_world = w'\<rparr>
    \<and> ok w' \<and> date_s H w' = date_s H w
    \<and> ban_file H w' = Content (banlist (filter (\<lambda>e. entry_live (date_s H w) e \<and> fst e \<noteq> ip) (entries_of (ban_file H w)) @ [(ip, u)]))"
proof -
  obtain w1 where 1: "locked H w = (True, w1)" "ok w1" "ban_file H w1 = ban_file H w" "date_s H w1 = date_s H w"
    using locked_spec [OF assms(1)] by blast
  let ?es = "entries_of (ban_file H w)" and ?t = "date_s H w"
  let ?new = "filter (\<lambda>e. entry_live ?t e \<and> fst e \<noteq> ip) ?es @ [(ip, u)]"
  have "without_ip H ip (map entry_line (filter (entry_live ?t) ?es))
      = map entry_line (filter (\<lambda>e. entry_live ?t e \<and> fst e \<noteq> ip) ?es)"
    using without_spec [OF wf_entries_filter [OF well_kept_wf [OF assms(2)]] assms(3)] by (simp add: conj_commute)
  moreover have "entry_line (ip, u) = ip @ CHR '' '' # string_of_nat u" by (simp add: entry_line_def)
  ultimately have printed: "print_lines (without_ip H ip (map entry_line (filter (entry_live ?t) ?es))
      @ [ip @ CHR '' '' # string_of_nat u]) = banlist ?new"
    by (simp add: banlist_def)
  obtain w2 where 2: "rewrite H (banlist ?new) w1 = (True, w2)" "ok w2" "ban_file H w2 = Content (banlist ?new)"
      "date_s H w2 = date_s H w1"
    using rewrite_spec [OF 1(2)] by blast
  have act: "active_entries H w1 = (True, map entry_line (filter (entry_live ?t) ?es))"
    using active_spec [of w1] assms(2) 1(3,4) by simp
  show ?thesis
    using assms(4,5) 1(1,4) 2 act printed by (simp add: file_ban_def)
qed

lemma file_unban_spec:
  assumes "ok w" "well_kept (ban_file H w)" "addr_text ip"
  shows "\<exists>w'. file_unban H ip w = \<lparr>o_exit = Exit 0, o_out = [''unbanned '' @ ip], o_err = [], o_world = w'\<rparr>
    \<and> ok w' \<and> date_s H w' = date_s H w
    \<and> ban_file H w' = Content (banlist (filter (\<lambda>e. entry_live (date_s H w) e \<and> fst e \<noteq> ip) (entries_of (ban_file H w))))"
proof -
  obtain w1 where 1: "locked H w = (True, w1)" "ok w1" "ban_file H w1 = ban_file H w" "date_s H w1 = date_s H w"
    using locked_spec [OF assms(1)] by blast
  let ?es = "entries_of (ban_file H w)" and ?t = "date_s H w"
  let ?new = "filter (\<lambda>e. entry_live ?t e \<and> fst e \<noteq> ip) ?es"
  have printed: "print_lines (without_ip H ip (map entry_line (filter (entry_live ?t) ?es))) = banlist ?new"
    using without_spec [OF wf_entries_filter [OF well_kept_wf [OF assms(2)]] assms(3)]
    by (simp add: conj_commute banlist_def)
  obtain w2 where 2: "rewrite H (banlist ?new) w1 = (True, w2)" "ok w2" "ban_file H w2 = Content (banlist ?new)"
      "date_s H w2 = date_s H w1"
    using rewrite_spec [OF 1(2)] by blast
  have act: "active_entries H w1 = (True, map entry_line (filter (entry_live ?t) ?es))"
    using active_spec [of w1] assms(2) 1(3,4) by simp
  show ?thesis using 1(1,4) 2 act printed by (simp add: file_unban_def)
qed

lemma substitution_word: "list_all plain s \<Longrightarrow> s \<noteq> [] \<Longrightarrow> substitution [s] = s"
  by (cases s rule: rev_cases) (auto simp: substitution_def)

lemma file_check_spec:
  assumes "well_kept (ban_file H w)" "addr_text ip"
  shows "file_check H ip w =
    (case map_of (filter (entry_live (date_s H w)) (entries_of (ban_file H w))) ip of
       Some u \<Rightarrow> \<lparr>o_exit = Exit 0, o_out = [ban_text ip (string_of_nat u)], o_err = [], o_world = w\<rparr>
     | None \<Rightarrow> \<lparr>o_exit = Exit 1, o_out = [''not banned '' @ ip], o_err = [], o_world = w\<rparr>)"
proof -
  let ?es = "filter (entry_live (date_s H w)) (entries_of (ban_file H w))"
  have wf: "wf_entries ?es" using wf_entries_filter [OF well_kept_wf [OF assms(1)]] .
  have "filter (\<lambda>l. awk_eq H (field 1 l) (awk_value H ip)) (map entry_line ?es) = map entry_line (filter (\<lambda>e. fst e = ip) ?es)"
    by (rule filter_entries [OF wf]) (simp add: awk_eq_addr assms(2))
  then have "filter (\<lambda>l. awk_eq H (field 1 l) (awk_value H ip)) (map entry_line ?es)
      = (case map_of ?es ip of None \<Rightarrow> [] | Some u \<Rightarrow> [entry_line (ip, u)])"
    using wf filter_key [of ?es ip] by (simp add: wf_entries_def split: option.split)
  then show ?thesis
    using active_spec [OF assms(1)] assms(2) plain_string_of_nat
    by (auto simp: file_check_def substitution_word split: option.split) (simp add: substitution_def)
qed

lemma file_list_spec:
  assumes "well_kept (ban_file H w)"
  shows "file_list H w = \<lparr>o_exit = Exit 0,
    o_out = map entry_line (filter (entry_live (date_s H w)) (entries_of (ban_file H w))), o_err = [], o_world = w\<rparr>"
  by (simp add: file_list_def active_spec [OF assms])

end

end
