(* ===== verification/Shield_Core.thy ===== *)
theory Shield_Core
  imports Ban_Store
begin

text \<open>
  The service-agnostic engine inside nginx (\<open>core/njs/shield_core.js\<close>): the ban check on the
  banlist file with its cache, the per-source connection limit over a shared dictionary, and the
  access hook that combines them. The file system, the clock and the shared dictionary of nginx are
  a record of calls, with the text JavaScript gives a number. A JavaScript number is a rational here (rounding to doubles is not modelled,
  it does not change a comparison of whole seconds), \<open>NaN\<close> is \<open>None\<close>, and the white space that
  \<open>trim\<close> and the pattern for blanks remove is the ASCII part of it.
\<close>

section \<open>JavaScript text and numbers\<close>

fun js_words_from :: "string \<Rightarrow> string \<Rightarrow> string list" where
  "js_words_from acc [] = flush_word acc []"
| "js_words_from acc (ch # s) =
     (if ascii_ws ch then flush_word acc (js_words_from [] s) else js_words_from (acc @ [ch]) s)"

text \<open>\<open>trim().split(..)\<close> at runs of white space: a blank line gives one empty part.\<close>

definition js_parts :: "string \<Rightarrow> string list" where
  "js_parts l = (let ws = js_words_from [] l in if ws = [] then [[]] else ws)"

definition js_trim :: "string \<Rightarrow> string" where
  "js_trim s = rev (dropWhile ascii_ws (rev (dropWhile ascii_ws s)))"

definition split_sign :: "string \<Rightarrow> bool \<times> string" where
  "split_sign s =
     (case s of [] \<Rightarrow> (False, [])
      | ch # r \<Rightarrow> if ch = CHR ''-'' then (True, r) else if ch = CHR ''+'' then (False, r) else (False, s))"

definition parse_int :: "string \<Rightarrow> int option" where
  "parse_int s =
     (let (neg, r) = split_sign (dropWhile ascii_ws s); d = takeWhile is_digit r in
      if d = [] then None
      else Some (if neg then - int (radix_value 10 0 d) else int (radix_value 10 0 d)))"

definition exponent :: "string \<Rightarrow> int" where
  "exponent s =
     (case s of [] \<Rightarrow> 0
      | ch # r \<Rightarrow>
          if ch = CHR ''e'' \<or> ch = CHR ''E''
          then (let (neg, r) = split_sign r; d = takeWhile is_digit r in
                if neg then - int (radix_value 10 0 d) else int (radix_value 10 0 d))
          else 0)"

definition scale10 :: "rat \<Rightarrow> int \<Rightarrow> rat" where
  "scale10 x e = (if 0 \<le> e then x * 10 ^ nat e else x / 10 ^ nat (- e))"

text \<open>\<open>parseFloat\<close> on the decimal forms: the longest prefix that is a literal.\<close>

definition parse_float :: "string \<Rightarrow> rat option" where
  "parse_float s =
     (let (neg, r) = split_sign (dropWhile ascii_ws s);
          whole = takeWhile is_digit r; r = dropWhile is_digit r;
          (frac, r) = (case r of ch # q \<Rightarrow> if ch = CHR ''.'' then (takeWhile is_digit q, dropWhile is_digit q) else ([], r)
                       | [] \<Rightarrow> ([], [])) in
      if whole = [] \<and> frac = [] then None
      else (let x = scale10 (of_nat (radix_value 10 0 (whole @ frac))) (exponent r - int (length frac)) in
            Some (if neg then - x else x)))"

definition num :: "string option \<Rightarrow> rat \<Rightarrow> rat" where
  "num v dflt = (case Option.bind v parse_float of None \<Rightarrow> dflt | Some x \<Rightarrow> x)"

definition keyset :: "string option \<Rightarrow> string \<Rightarrow> string set" where
  "keyset v dflt =
     (let raw = (case v of None \<Rightarrow> dflt | Some s \<Rightarrow> if s = [] then dflt else s) in
      if raw = [] then {} else set (filter (\<lambda>p. p \<noteq> []) (map js_trim (split_char (CHR '','') raw))))"

section \<open>The calls\<close>

record 'w nhost =
  n_stat :: "string \<Rightarrow> 'w \<Rightarrow> (nat \<times> nat) option"
  n_read :: "string \<Rightarrow> 'w \<Rightarrow> string option"
  n_now :: "'w \<Rightarrow> nat"
  n_dict :: "'w \<Rightarrow> bool"
  n_add :: "string \<Rightarrow> 'w \<Rightarrow> bool \<times> 'w"
  n_incr :: "string \<Rightarrow> 'w \<Rightarrow> nat \<times> 'w"
  n_show :: "rat \<Rightarrow> string"

record session =
  s_port :: string
  s_addr :: string
  s_cfg :: "string option"

record verdict_line =
  v_src :: string
  v_service :: string
  v_layer :: string
  v_rule :: string
  v_detail :: string

datatype action = SetService string | Warn string | Verdict verdict_line | Deny | Allow

section \<open>The ban check\<close>

record ban_cache =
  c_path :: string
  c_mtime :: nat
  c_size :: "nat option"
  c_map :: "string \<Rightarrow> int option option"
  c_failed :: bool

definition fresh_cache :: ban_cache where
  "fresh_cache = \<lparr>c_path = [], c_mtime = 0, c_size = None, c_map = (\<lambda>_. None), c_failed = False\<rparr>"

text \<open>The map of the lines; a later line wins.\<close>

fun add_line :: "(string \<Rightarrow> int option option) \<Rightarrow> string \<Rightarrow> string \<Rightarrow> int option option" where
  "add_line m l = (case js_parts l of a # b # _ \<Rightarrow> if a \<noteq> [] then m(a \<mapsto> parse_int b) else m | _ \<Rightarrow> m)"

definition parse_banlist :: "string \<Rightarrow> string \<Rightarrow> int option option" where
  "parse_banlist s = foldl add_line (\<lambda>_. None) (split_char newline s)"

text \<open>A size of \<open>-1\<close>, which no file has, is \<open>None\<close>.\<close>

definition loadBans :: "'w nhost \<Rightarrow> string \<Rightarrow> 'w \<Rightarrow> ban_cache \<Rightarrow> (string \<Rightarrow> int option option) \<times> ban_cache" where
  "loadBans N path w c =
     (case n_stat N path w of
        None \<Rightarrow>
          ((\<lambda>_. None), \<lparr>c_path = path, c_mtime = 0, c_size = None, c_map = (\<lambda>_. None), c_failed = True\<rparr>)
      | Some (mtime, sz) \<Rightarrow>
          (let c = c\<lparr>c_failed := False\<rparr> in
           if c_path c = path \<and> c_mtime c = mtime \<and> c_size c = Some sz then (c_map c, c)
           else
             (case n_read N path w of
                None \<Rightarrow> (c_map c, c)
              | Some s \<Rightarrow>
                  (parse_banlist s,
                   \<lparr>c_path = path, c_mtime = mtime, c_size = Some sz, c_map = parse_banlist s, c_failed = False\<rparr>))))"

definition isBanned :: "'w nhost \<Rightarrow> string \<Rightarrow> string \<Rightarrow> 'w \<Rightarrow> ban_cache \<Rightarrow> bool \<times> ban_cache" where
  "isBanned N ip path w c =
     (if path = [] then (False, c)
      else
        (let (m, c) = loadBans N path w c in
         (case m ip of
            None \<Rightarrow> False
          | Some None \<Rightarrow> True
          | Some (Some u) \<Rightarrow> u = 0 \<or> u * 1000 > int (n_now N w), c)))"

section \<open>The connection limit and the access hook\<close>

record access_cfg =
  service :: string
  banFile :: string
  connRate :: rat
  connWindow :: rat

fun add_pair :: "(string \<Rightarrow> string option) \<Rightarrow> string \<Rightarrow> string \<Rightarrow> string option" where
  "add_pair m part =
     (case split_once (CHR ''='') part of
        None \<Rightarrow> m
      | Some (k, v) \<Rightarrow> if k \<noteq> [] then m(js_trim k \<mapsto> v) else m)"

definition policy :: "session \<Rightarrow> string \<Rightarrow> string option" where
  "policy s =
     (case s_cfg s of
        None \<Rightarrow> (\<lambda>_. None)
      | Some raw \<Rightarrow> foldl add_pair (\<lambda>_. None) (split_char (CHR '';'') raw))"

text \<open>\<open>v || dflt\<close> for a text.\<close>

definition or_else :: "string option \<Rightarrow> string \<Rightarrow> string" where
  "or_else v dflt = (case v of None \<Rightarrow> dflt | Some s \<Rightarrow> if s = [] then dflt else s)"

definition accessCfg :: "session \<Rightarrow> access_cfg" where
  "accessCfg s =
     (let p = policy s in
      \<lparr>service = or_else (p ''service'') ''unknown'', banFile = or_else (p ''ban_file'') [],
       connRate = num (p ''conn_rate'') 0, connWindow = num (p ''conn_window'') 60\<rparr>)"

definition conn_key :: "session \<Rightarrow> access_cfg \<Rightarrow> nat \<Rightarrow> string" where
  "conn_key s cfg now =
     s_port s @ CHR '':'' # s_addr s @ CHR '':'' #
       (if connWindow cfg = 0 then ''Infinity'' else string_of_int \<lfloor>of_nat now / 1000 / connWindow cfg\<rfloor>)"

definition connRateExceeded :: "'w nhost \<Rightarrow> session \<Rightarrow> access_cfg \<Rightarrow> 'w \<Rightarrow> bool \<times> 'w" where
  "connRateExceeded N s cfg w =
     (if connRate cfg = 0 \<or> \<not> n_dict N w then (False, w)
      else (case n_incr N (conn_key s cfg (n_now N w)) w of (n, w) \<Rightarrow> (of_nat n > connRate cfg, w)))"

definition warnPeriodically :: "'w nhost \<Rightarrow> string \<Rightarrow> string \<Rightarrow> 'w \<Rightarrow> action list \<times> 'w" where
  "warnPeriodically N key msg w =
     (if \<not> n_dict N w then ([], w)
      else (case n_add N key w of (first, w) \<Rightarrow> (if first then [Warn msg] else [], w)))"

definition verdict :: "session \<Rightarrow> string \<Rightarrow> string \<Rightarrow> string \<Rightarrow> string \<Rightarrow> action" where
  "verdict s srv layer rule detail =
     Verdict \<lparr>v_src = s_addr s, v_service = (if srv = [] then ''unknown'' else srv), v_layer = layer,
              v_rule = rule, v_detail = detail\<rparr>"



definition limit_conn :: "'w nhost \<Rightarrow> session \<Rightarrow> access_cfg \<Rightarrow> 'w \<Rightarrow> action list \<times> 'w" where
  "limit_conn N s cfg w =
     (case connRateExceeded N s cfg w of
        (True, w) \<Rightarrow> ([verdict s (service cfg) ''access'' ''conn-rate'' (''max='' @ n_show N (connRate cfg)), Deny], w)
      | (False, w) \<Rightarrow> ([Allow], w))"

text \<open>A banlist that could not be read is reported, because the engine then bans nobody.\<close>

definition warn_banload :: "'w nhost \<Rightarrow> session \<Rightarrow> access_cfg \<Rightarrow> ban_cache \<Rightarrow> 'w \<Rightarrow> action list \<times> 'w" where
  "warn_banload N s cfg c w =
     (if c_failed c
      then warnPeriodically N (''__shield_warn_banload:'' @ s_port s)
        (''shield-config banlist '' @ banFile cfg @ '' is missing or unreadable: ban enforcement is inactive'') w
      else ([], w))"

definition access :: "'w nhost \<Rightarrow> session \<Rightarrow> 'w \<Rightarrow> ban_cache \<Rightarrow> action list \<times> ban_cache \<times> 'w" where
  "access N s w c =
     (let cfg = accessCfg s; set_service = [SetService (service cfg)] in
      if banFile cfg = [] then
        (let (warned, w) = warnPeriodically N (''__shield_warn_nobanfile:'' @ s_port s)
               (''shield-config no ban_file for port '' @ s_port s @ '': BAN ENFORCEMENT IS DISABLED on this listener (is SHIELD_BAN_FILE set?)'') w;
             (acts, w) = limit_conn N s cfg w
         in (set_service @ warned @ acts, c, w))
      else
        (let (banned, c) = isBanned N (s_addr s) (banFile cfg) w c;
             (warned, w) = warn_banload N s cfg c w
         in if banned
            then (set_service @ warned @ [verdict s (service cfg) ''ban'' ''banned'' ''rejected-at-accept'', Deny], c, w)
            else (let (acts, w) = limit_conn N s cfg w in (set_service @ warned @ acts, c, w))))"

end
