(* ===== verification/Shield_Ws.thy ===== *)
theory Shield_Ws
  imports Shield_Core
begin

unbundle bit_operations_syntax

text \<open>
  The WebSocket inspection engine (\<open>core/njs/shield_ws.js\<close>), a filter on the client's byte stream:
  the handshake sniffer, the frame parser with its hold queue, the checks on the messages inside,
  and the two callbacks. A callback maps the state of the session and the bytes that arrived to
  the new state; what it sends and logs is appended to the state. Bytes are a \<^typ>\<open>string\<close>, and a
  JavaScript string is its UTF-8 text. \<open>JSON.parse\<close> and the text of a number belong to the
  JavaScript engine and are parameters. A callback runs at one instant of the clock.
\<close>

section \<open>Values and configuration\<close>

datatype jval = JNull | JBool bool | JNum rat | JStr string | JArr "jval list" | JObj "(string \<times> jval) list"

record jsenv =
  json_parse :: "string \<Rightarrow> jval option"
  show_num :: "rat \<Rightarrow> string"

text \<open>The length of a text in UTF-16 units.\<close>

definition js_length :: "string \<Rightarrow> nat" where
  "js_length s = sum_list (map (\<lambda>ch. if 128 \<le> byte ch \<and> byte ch < 192 then 0 else if 240 \<le> byte ch then 2 else 1) s)"

definition OP_CONT :: nat where "OP_CONT = 0"
definition OP_TEXT :: nat where "OP_TEXT = 1"
definition OP_BIN :: nat where "OP_BIN = 2"
definition OP_CLOSE :: nat where "OP_CLOSE = 8"
definition MAX_HANDSHAKE :: nat where "MAX_HANDSHAKE = 16384"
definition MAX_PENDING_FRAMES :: nat where "MAX_PENDING_FRAMES = 256"
definition MAX_FRAGMENTS :: nat where "MAX_FRAGMENTS = 64"
definition DEFAULT_MAX_HS_READS :: rat where "DEFAULT_MAX_HS_READS = 32"
definition MIN_MSG_READS :: rat where "MIN_MSG_READS = 64"

definition DEFAULT_TYPES :: string where
  "DEFAULT_TYPES = ''EVENT,REQ,CLOSE,COUNT,AUTH,NEG-OPEN,NEG-MSG,NEG-CLOSE''"

definition NARROWING :: "string list" where
  "NARROWING = [''ids'', ''authors'', ''kinds'', ''since'', ''until'', ''search'']"

record token_bucket =
  b_rate :: rat
  b_burst :: rat
  b_tokens :: rat
  b_t :: nat

definition bucket :: "rat \<Rightarrow> rat \<Rightarrow> nat \<Rightarrow> token_bucket" where
  "bucket rate burst now = \<lparr>b_rate = rate, b_burst = burst, b_tokens = burst, b_t = now\<rparr>"

text \<open>The clock may step back between two calls: the difference is one of integers.\<close>

definition takeToken :: "nat \<Rightarrow> token_bucket \<Rightarrow> bool \<times> token_bucket" where
  "takeToken now b =
     (let tokens = min (b_burst b) (b_tokens b + (of_int (int now - int (b_t b)) / 1000) * b_rate b);
          b = b\<lparr>b_tokens := tokens, b_t := now\<rparr>
      in if tokens < 1 then (False, b) else (True, b\<lparr>b_tokens := tokens - 1\<rparr>))"

record ws_cfg =
  w_service :: string
  w_banFile :: string
  banRecheck :: rat
  maxMsg :: rat
  maxSubs :: rat
  maxFilters :: rat
  maxFilterItems :: rat
  maxLimit :: rat
  maxFilterValue :: rat
  requireNarrowing :: bool
  maxHsReads :: rat
  maxMsgReads :: rat
  types :: "string set"
  kindDeny :: "string set"

definition readCfg :: "session \<Rightarrow> ws_cfg" where
  "readCfg s =
     (let p = policy s in
      \<lparr>w_service = or_else (p ''service'') ''unknown'', w_banFile = or_else (p ''ban_file'') [],
       banRecheck = num (p ''ban_recheck'') 10, maxMsg = num (p ''ws_max_msg'') 131072,
       maxSubs = num (p ''ws_max_subs'') 20, maxFilters = num (p ''ws_max_filters'') 10,
       maxFilterItems = num (p ''ws_max_filter_items'') 500, maxLimit = num (p ''ws_max_limit'') 5000,
       maxFilterValue = num (p ''ws_max_filter_value'') 512,
       requireNarrowing = (p ''ws_require_narrowing'' \<noteq> Some ''false''),
       maxHsReads = num (p ''ws_max_hs_reads'') DEFAULT_MAX_HS_READS,
       maxMsgReads = num (p ''ws_max_msg_reads'')
         (of_int \<lceil>num (p ''ws_max_msg'') 131072 / 1024\<rceil> + MIN_MSG_READS),
       types = keyset (p ''nostr_types'') DEFAULT_TYPES, kindDeny = keyset (p ''nostr_kind_deny'') []\<rparr>)"

section \<open>The session\<close>

datatype ws_mode = Handshake | Plain | Ws

datatype out = Up string bool | Down string | Log string string

record ws_state =
  mode :: ws_mode
  hs :: string
  hsReads :: nat
  hsScanned :: nat
  acc :: string
  chunks :: "string list"
  pendingLen :: nat
  need :: nat
  msgReads :: nat
  pending :: "string list"
  msgParts :: "string list"
  msgLen :: nat
  inMsg :: bool
  subs :: "string list"
  subCount :: nat
  banCheckAt :: rat
  checkedResponse :: bool
  killed :: bool
  bMsg :: token_bucket
  bEvent :: token_bucket
  bReq :: token_bucket
  cache :: ban_cache
  outs :: "out list"

definition filter_init :: "session \<Rightarrow> nat \<Rightarrow> ws_state" where
  "filter_init s now =
     (let p = policy s in
      \<lparr>mode = Handshake, hs = [], hsReads = 0, hsScanned = 0, acc = [], chunks = [], pendingLen = 0, need = 2,
       msgReads = 0, pending = [], msgParts = [], msgLen = 0, inMsg = False, subs = [], subCount = 0,
       banCheckAt = of_nat now + banRecheck (readCfg s) * 1000, checkedResponse = False, killed = False,
       bMsg = bucket (num (p ''ws_msg_rate'') 20) (num (p ''ws_msg_burst'') 100) now,
       bEvent = bucket (num (p ''ws_event_rate'') 5) (num (p ''ws_event_burst'') 50) now,
       bReq = bucket (num (p ''ws_req_rate'') 5) (num (p ''ws_req_burst'') 20) now,
       cache = fresh_cache, outs = []\<rparr>)"

section \<open>Frames the engine writes\<close>

definition byte_of :: "nat \<Rightarrow> char" where
  "byte_of n = char_of n"

text \<open>\<open>None\<close> is the exception on a payload of 65536 bytes or more.\<close>

definition wsFrame :: "nat \<Rightarrow> string \<Rightarrow> bool \<Rightarrow> string option" where
  "wsFrame opc payload masked =
     (let len = length payload; m = (if masked then 128 else 0) in
      if len < 126 then
        Some (byte_of (128 OR opc) # byte_of (len OR m) # (if masked then replicate 4 (byte_of 0) else []) @ payload)
      else if len < 65536 then
        Some (byte_of (128 OR opc) # byte_of (126 OR m) # byte_of (len div 256) # byte_of (len mod 256) #
              (if masked then replicate 4 (byte_of 0) else []) @ payload)
      else None)"

definition closeFrame :: "nat \<Rightarrow> string \<Rightarrow> bool \<Rightarrow> string option" where
  "closeFrame code reason masked =
     wsFrame OP_CLOSE (byte_of (code div 256 mod 256) # byte_of (code mod 256) # reason) masked"

text \<open>\<open>JSON.stringify(['NOTICE', ..])\<close>; the rules need no escaping.\<close>

definition notice :: "string \<Rightarrow> string" where
  "notice rule =
     CHR ''['' # quote # ''NOTICE'' @ quote # CHR '','' # quote # ''fips-shield: connection closed: '' @ rule @ [quote, CHR '']'']"

definition frames :: "string option list \<Rightarrow> string list" where
  "frames fs = (case those fs of None \<Rightarrow> [] | Some ss \<Rightarrow> ss)"

text \<open>\<open>s.send\<close> goes the way of the callback it is called in; the close for the upstream is sent with it.\<close>

definition violate_with :: "(string \<Rightarrow> out) \<Rightarrow> string \<Rightarrow> string \<Rightarrow> ws_state \<Rightarrow> ws_state" where
  "violate_with snd_way rule detail st =
     (if killed st then st
      else st\<lparr>killed := True, pending := [], msgParts := [], chunks := [], pendingLen := 0,
              outs := outs st @ Log rule detail #
                map Down (frames [wsFrame OP_TEXT (notice rule) False, closeFrame 1008 rule False]) @
                map snd_way (frames [closeFrame 1008 rule True])\<rparr>)"

definition violate :: "string \<Rightarrow> string \<Rightarrow> ws_state \<Rightarrow> ws_state" where
  "violate = violate_with (\<lambda>f. Up f False)"

definition flush :: "ws_state \<Rightarrow> ws_state" where
  "flush st = st\<lparr>outs := outs st @ map (\<lambda>f. Up f False) (pending st), pending := []\<rparr>"

section \<open>The checks on a message\<close>

definition isNarrowing :: "string list \<Rightarrow> bool" where
  "isNarrowing ks = list_ex (\<lambda>k. starts_with k ''#'' \<or> k \<in> set NARROWING) ks"

text \<open>The first text among the values of a filter that is too long, with its length.\<close>

fun long_text :: "rat \<Rightarrow> jval \<Rightarrow> nat option" where
  "long_text mx (JStr t) = (if of_nat (js_length t) > mx then Some (js_length t) else None)"
| "long_text mx _ = None"

fun first_some :: "('a \<Rightarrow> 'b option) \<Rightarrow> 'a list \<Rightarrow> 'b option" where
  "first_some f [] = None"
| "first_some f (x # xs) = (case f x of None \<Rightarrow> first_some f xs | Some y \<Rightarrow> Some y)"

fun long_value :: "rat \<Rightarrow> jval \<Rightarrow> nat option" where
  "long_value mx (JArr vs) = first_some (long_text mx) vs"
| "long_value mx v = long_text mx v"

fun value_items :: "jval \<Rightarrow> nat" where
  "value_items (JArr vs) = length vs"
| "value_items _ = 0"

text \<open>A violation as the rule and the detail; the items of the filters otherwise.\<close>

fun check_filter :: "jsenv \<Rightarrow> ws_cfg \<Rightarrow> jval \<Rightarrow> (string \<times> string) + nat" where
  "check_filter J cfg (JObj f) =
     (let ks = map fst f in
      if requireNarrowing cfg \<and> \<not> isNarrowing ks then Inl (''filter-complexity'', ''unbounded-filter'')
      else
        (case map_of f ''limit'' of
           Some (JNum x) \<Rightarrow>
             if x > maxLimit cfg then Inl (''filter-complexity'', ''limit='' @ show_num J x)
             else (case first_some (\<lambda>(k, v). long_value (maxFilterValue cfg) v) f of
                     Some n \<Rightarrow> Inl (''filter-complexity'', ''value-len='' @ string_of_nat n)
                   | None \<Rightarrow> Inr (length f + sum_list (map (value_items \<circ> snd) f)))
         | _ \<Rightarrow>
             (case first_some (\<lambda>(k, v). long_value (maxFilterValue cfg) v) f of
                Some n \<Rightarrow> Inl (''filter-complexity'', ''value-len='' @ string_of_nat n)
              | None \<Rightarrow> Inr (length f + sum_list (map (value_items \<circ> snd) f)))))"
| "check_filter J cfg _ = Inl (''malformed'', ''bad-filter'')"

fun filter_items :: "jsenv \<Rightarrow> ws_cfg \<Rightarrow> nat \<Rightarrow> jval list \<Rightarrow> (string \<times> string) + nat" where
  "filter_items J cfg items [] = Inr items"
| "filter_items J cfg items (f # fs) =
     (case check_filter J cfg f of Inl e \<Rightarrow> Inl e | Inr n \<Rightarrow> filter_items J cfg (items + n) fs)"

definition checkFilters :: "jsenv \<Rightarrow> ws_cfg \<Rightarrow> jval list \<Rightarrow> (string \<times> string) option" where
  "checkFilters J cfg filters =
     (let n = length filters in
      if n < 1 then Some (''filter-complexity'', ''no-filter'')
      else if of_nat n > maxFilters cfg then Some (''filter-complexity'', ''filters='' @ string_of_nat n)
      else
        (case filter_items J cfg 0 filters of
           Inl e \<Rightarrow> Some e
         | Inr items \<Rightarrow>
             if of_nat items > maxFilterItems cfg then Some (''filter-complexity'', ''items='' @ string_of_nat items)
             else None))"

definition item :: "nat \<Rightarrow> jval list \<Rightarrow> jval option" where
  "item i vs = (if i < length vs then Some (vs ! i) else None)"

text \<open>A subscription id of 1 to 64 characters.\<close>

definition sub_id :: "jval option \<Rightarrow> string option" where
  "sub_id v = (case v of Some (JStr sid) \<Rightarrow> if 1 \<le> js_length sid \<and> js_length sid \<le> 64 then Some sid else None | _ \<Rightarrow> None)"

definition open_sub :: "jsenv \<Rightarrow> ws_cfg \<Rightarrow> string \<Rightarrow> ws_state \<Rightarrow> ws_state" where
  "open_sub J cfg sid st =
     (if sid \<in> set (subs st) then st
      else if of_nat (subCount st) \<ge> maxSubs cfg
      then violate ''too-many-subs'' (''max='' @ show_num J (maxSubs cfg)) st
      else st\<lparr>subs := sid # subs st, subCount := subCount st + 1\<rparr>)"

definition close_sub :: "jval option \<Rightarrow> ws_state \<Rightarrow> ws_state" where
  "close_sub v st =
     (case v of
        Some (JStr sid) \<Rightarrow>
          if sid \<in> set (subs st)
          then st\<lparr>subs := removeAll sid (subs st), subCount := (if subCount st > 0 then subCount st - 1 else 0)\<rparr>
          else st
      | _ \<Rightarrow> st)"

text \<open>\<open>REQ\<close>, \<open>COUNT\<close> and \<open>NEG-OPEN\<close>: price, subscription id, filters, and the subscription unless it is
  a \<open>COUNT\<close>.\<close>

definition inspect_query :: "jsenv \<Rightarrow> ws_cfg \<Rightarrow> nat \<Rightarrow> jval option \<Rightarrow> jval list \<Rightarrow> bool \<Rightarrow> ws_state \<Rightarrow> ws_state" where
  "inspect_query J cfg now sid filters opens st =
     (case takeToken now (bReq st) of
        (False, b) \<Rightarrow> violate ''req-rate'' [] (st\<lparr>bReq := b\<rparr>)
      | (True, b) \<Rightarrow>
          (let st = st\<lparr>bReq := b\<rparr> in
           case sub_id sid of
             None \<Rightarrow> violate ''malformed'' ''bad-subscription-id'' st
           | Some s \<Rightarrow>
               (case checkFilters J cfg filters of
                  Some (rule, detail) \<Rightarrow> violate rule detail st
                | None \<Rightarrow> if opens then open_sub J cfg s st else st)))"

definition inspect_event :: "jsenv \<Rightarrow> ws_cfg \<Rightarrow> nat \<Rightarrow> jval option \<Rightarrow> ws_state \<Rightarrow> ws_state" where
  "inspect_event J cfg now ev st =
     (case takeToken now (bEvent st) of
        (False, b) \<Rightarrow> violate ''event-rate'' [] (st\<lparr>bEvent := b\<rparr>)
      | (True, b) \<Rightarrow>
          (let st = st\<lparr>bEvent := b\<rparr> in
           case ev of
             Some (JObj f) \<Rightarrow>
               (case map_of f ''kind'' of
                  Some (JNum k) \<Rightarrow>
                    if show_num J k \<in> kindDeny cfg then violate ''kind-denied'' (''kind='' @ show_num J k) st else st
                | _ \<Rightarrow> violate ''malformed'' ''bad-event'' st)
           | _ \<Rightarrow> violate ''malformed'' ''bad-event'' st))"

text \<open>\<open>AUTH\<close> costs the relay a signature check and is priced like a publish.\<close>

definition inspect_auth :: "nat \<Rightarrow> ws_state \<Rightarrow> ws_state" where
  "inspect_auth now st =
     (case takeToken now (bEvent st) of
        (False, b) \<Rightarrow> violate ''event-rate'' [] (st\<lparr>bEvent := b\<rparr>)
      | (True, b) \<Rightarrow> st\<lparr>bEvent := b\<rparr>)"

text \<open>\<open>NEG-OPEN\<close> has one filter, which may be missing: it is then not an object.\<close>

definition inspect :: "jsenv \<Rightarrow> ws_cfg \<Rightarrow> nat \<Rightarrow> string \<Rightarrow> ws_state \<Rightarrow> ws_state" where
  "inspect J cfg now buf st =
     (case takeToken now (bMsg st) of
        (False, b) \<Rightarrow> violate ''msg-rate'' [] (st\<lparr>bMsg := b\<rparr>)
      | (True, b) \<Rightarrow>
          (let st = st\<lparr>bMsg := b\<rparr> in
           case json_parse J (from_utf8_lossy buf) of
             None \<Rightarrow> violate ''malformed'' ''bad-json'' st
           | Some (JArr (JStr t # args)) \<Rightarrow>
               (if t \<notin> types cfg then violate ''type-not-allowed'' t st
                else if t = ''EVENT'' then inspect_event J cfg now (item 0 args) st
                else if t = ''REQ'' \<or> t = ''COUNT''
                then inspect_query J cfg now (item 0 args) (drop 1 args) (t = ''REQ'') st
                else if t = ''NEG-OPEN''
                then inspect_query J cfg now (item 0 args)
                       [case item 1 args of None \<Rightarrow> JNull | Some v \<Rightarrow> v] True st
                else if t = ''AUTH'' then inspect_auth now st
                else if t = ''CLOSE'' \<or> t = ''NEG-CLOSE'' then close_sub (item 0 args) st
                else st)
           | Some _ \<Rightarrow> violate ''malformed'' ''not-a-nostr-message'' st))"

section \<open>The frame parser\<close>

text \<open>What the start of the buffer holds: too little (with the bytes needed), a violation, or a frame
  with its \<open>FIN\<close> bit, opcode, payload length and the offset of the masking key.\<close>

datatype header = Need nat | Bad string string | Frame bool nat nat nat

definition byte_at :: "string \<Rightarrow> nat \<Rightarrow> nat" where
  "byte_at s i = (if i < length s then byte (s ! i) else 0)"

definition be :: "string \<Rightarrow> nat \<Rightarrow> nat \<Rightarrow> nat" where
  "be s i n = foldl (\<lambda>x j. x * 256 + byte_at s (i + j)) 0 [0..<n]"

text \<open>The checks that need the opcode, then the wait for the whole frame.\<close>

definition check_frame :: "jsenv \<Rightarrow> ws_cfg \<Rightarrow> ws_state \<Rightarrow> bool \<Rightarrow> nat \<Rightarrow> nat \<Rightarrow> nat \<Rightarrow> header" where
  "check_frame J cfg st fin opc len off =
     (let whole = (if length (acc st) < off + 4 + len then Need (off + 4 + len) else Frame fin opc len off) in
      if opc \<ge> 8 then
        (if \<not> fin \<or> len > 125 then Bad ''protocol'' ''bad-control-frame'' else whole)
      else if opc = OP_BIN then Bad ''binary-frame'' []
      else if opc \<noteq> OP_TEXT \<and> opc \<noteq> OP_CONT then Bad ''protocol'' (''opcode='' @ string_of_nat opc)
      else if opc = OP_TEXT \<and> inMsg st then Bad ''protocol'' ''text-before-fin''
      else if opc = OP_CONT \<and> \<not> inMsg st then Bad ''protocol'' ''unexpected-continuation''
      else if of_nat (msgLen st + len) > maxMsg cfg then Bad ''oversized-message'' (''max='' @ show_num J (maxMsg cfg))
      else whole)"

definition frame_header :: "jsenv \<Rightarrow> ws_cfg \<Rightarrow> ws_state \<Rightarrow> header" where
  "frame_header J cfg st =
     (let s = acc st in
      if length s < 2 then Need 2
      else
        (let b0 = byte_at s 0; b1 = byte_at s 1; fin = (b0 AND 0x80 \<noteq> 0); opc = b0 AND 0x0F; len = b1 AND 0x7F in
         if b0 AND 0x70 \<noteq> 0 then Bad ''protocol'' ''rsv-bits-set''
         else if b1 AND 0x80 = 0 then Bad ''protocol'' ''unmasked-client-frame''
         else if len = 126 then
           (if length s < 4 then Need 4 else check_frame J cfg st fin opc (be s 2 2) 4)
         else if len = 127 then
           (if length s < 10 then Need 10
            else if be s 2 4 \<noteq> 0 then Bad ''oversized-message'' ''64bit-length''
            else check_frame J cfg st fin opc (be s 6 4) 10)
         else check_frame J cfg st fin opc len 2))"

definition xor_char :: "char \<Rightarrow> char \<Rightarrow> char" where
  "xor_char a b = char_of (byte a XOR byte b)"

definition unmask :: "string \<Rightarrow> string \<Rightarrow> string" where
  "unmask key payload = map (\<lambda>i. xor_char (payload ! i) (key ! (i mod 4))) [0..<length payload]"

text \<open>A complete data message is inspected; only if it passes are the held frames sent on.\<close>

definition end_message :: "jsenv \<Rightarrow> ws_cfg \<Rightarrow> nat \<Rightarrow> ws_state \<Rightarrow> ws_state" where
  "end_message J cfg now st =
     (let buf = concat (msgParts st);
          st = inspect J cfg now buf (st\<lparr>msgParts := [], msgLen := 0, msgReads := 0\<rparr>)
      in if killed st then st else flush st)"

definition take_frame :: "jsenv \<Rightarrow> ws_cfg \<Rightarrow> nat \<Rightarrow> bool \<Rightarrow> nat \<Rightarrow> nat \<Rightarrow> nat \<Rightarrow> ws_state \<Rightarrow> ws_state" where
  "take_frame J cfg now fin opc len off st =
     (let n = off + 4 + len;
          raw = take n (acc st);
          payload = unmask (take 4 (drop off (acc st))) (take len (drop (off + 4) (acc st)));
          st = st\<lparr>need := 2, acc := drop n (acc st), pending := pending st @ [raw]\<rparr>
      in if length (pending st) > MAX_PENDING_FRAMES
         then violate ''frame-flood'' (''pending='' @ string_of_nat (length (pending st))) st
         else if opc \<ge> 8 then (if inMsg st then st else flush st)
         else
           (let st = st\<lparr>msgParts := msgParts st @ [payload]\<rparr> in
            if length (msgParts st) > MAX_FRAGMENTS
            then violate ''frame-flood'' (''fragments='' @ string_of_nat (length (msgParts st))) st
            else
              (let st = st\<lparr>msgLen := msgLen st + len, inMsg := \<not> fin\<rparr> in
               if fin then end_message J cfg now st else st)))"

text \<open>Nothing a frame causes touches the bytes behind it.\<close>

lemma acc_violate [simp]: "acc (violate r d st) = acc st"
  by (simp add: violate_def violate_with_def)

lemma acc_flush [simp]: "acc (flush st) = acc st"
  by (simp add: flush_def)

text \<open>What the inspection of a message may change: the buckets, the subscriptions, and the session
  by a violation. Whatever those keep, the inspection keeps.\<close>

locale session_frame =
  fixes J :: jsenv and cfg :: ws_cfg and P :: "ws_state \<Rightarrow> bool"
  assumes on_bMsg: "P st \<Longrightarrow> P (st\<lparr>bMsg := b\<rparr>)"
    and on_bEvent: "P st \<Longrightarrow> P (st\<lparr>bEvent := b\<rparr>)"
    and on_bReq: "P st \<Longrightarrow> P (st\<lparr>bReq := b\<rparr>)"
    and on_open: "P st \<Longrightarrow> P (open_sub J cfg sid st)"
    and on_close: "P st \<Longrightarrow> P (close_sub v st)"
    and on_violate: "P st \<Longrightarrow> P (violate r d st)"
begin

lemma on_query: "P st \<Longrightarrow> P (inspect_query J cfg now sid filters opens st)"
  by (simp add: inspect_query_def Let_def on_bReq on_violate on_open split: prod.split bool.split option.split)

lemma on_event: "P st \<Longrightarrow> P (inspect_event J cfg now ev st)"
  by (simp add: inspect_event_def Let_def on_bEvent on_violate split: prod.split bool.split option.split jval.split)

lemma on_auth: "P st \<Longrightarrow> P (inspect_auth now st)"
  by (simp add: inspect_auth_def on_bEvent on_violate split: prod.split bool.split)

lemma on_inspect: "P st \<Longrightarrow> P (inspect J cfg now buf st)"
  unfolding inspect_def Let_def
  by (simp add: on_bMsg on_violate on_query on_event on_auth on_close split: prod.split bool.split option.split jval.split list.split)

end

lemma acc_subs [simp]: "acc (open_sub J cfg sid st) = acc st" "acc (close_sub v st) = acc st"
  by (simp_all add: open_sub_def close_sub_def split: option.split jval.split)

interpretation keeps_acc: session_frame J cfg "\<lambda>st. acc st = a" for J cfg a
  by unfold_locales simp_all

lemma acc_inspect [simp]: "acc (inspect J cfg now buf st) = acc st"
  by (rule keeps_acc.on_inspect) simp

lemma acc_end_message [simp]: "acc (end_message J cfg now st) = acc st"
  by (simp add: end_message_def Let_def)

lemma acc_take_frame [simp]: "acc (take_frame J cfg now fin opc len off st) = drop (off + 4 + len) (acc st)"
  by (simp add: take_frame_def Let_def)

lemma check_frame_Frame: "check_frame J cfg st fin opc len off = Frame fin' opc' len' off' \<Longrightarrow>
    fin' = fin \<and> opc' = opc \<and> len' = len \<and> off' = off \<and> off + 4 + len \<le> length (acc st)"
  by (auto simp: check_frame_def Let_def split: if_splits)

lemma frame_header_fits:
  "frame_header J cfg st = Frame fin opc len off \<Longrightarrow> off + 4 + len \<le> length (acc st)"
  by (auto simp: frame_header_def Let_def dest!: check_frame_Frame split: if_splits)

text \<open>The loop of \<open>pump\<close>: every frame consumes at least its masking key.\<close>

function pump :: "jsenv \<Rightarrow> ws_cfg \<Rightarrow> nat \<Rightarrow> ws_state \<Rightarrow> ws_state" where
  "pump J cfg now st =
     (if killed st then st
      else
        (case frame_header J cfg st of
           Need n \<Rightarrow> st\<lparr>need := n\<rparr>
         | Bad rule detail \<Rightarrow> violate rule detail st
         | Frame fin opc len off \<Rightarrow> pump J cfg now (take_frame J cfg now fin opc len off st)))"
  by pat_completeness auto

termination
  by (relation "measure (\<lambda>(J, cfg, now, st). length (acc st))") (auto dest: frame_header_fits)

declare pump.simps [simp del]

section \<open>The handshake\<close>

text \<open>The search for the blank line from position \<open>i\<close> on.\<close>

function header_scan :: "string \<Rightarrow> nat \<Rightarrow> nat option" where
  "header_scan s i =
     (if i + 1 < length s then
        (if s ! i \<noteq> newline then header_scan s (i + 1)
         else if s ! (i + 1) = newline then Some (i + 2)
         else if s ! (i + 1) = carriage_return \<and> i + 2 < length s \<and> s ! (i + 2) = newline then Some (i + 3)
         else header_scan s (i + 1))
      else None)"
  by pat_completeness auto

termination
  by (relation "measure (\<lambda>(s, i). length s - i)") auto

declare header_scan.simps [simp del]

text \<open>A negative start reads before the buffer, where nothing is a newline.\<close>

definition headerBlockEnd :: "string \<Rightarrow> int \<Rightarrow> nat option" where
  "headerBlockEnd s from = header_scan s (nat from)"

definition hasBareLf :: "string \<Rightarrow> nat \<Rightarrow> bool" where
  "hasBareLf s n = list_ex (\<lambda>i. s ! i = newline \<and> (i = 0 \<or> s ! (i - 1) \<noteq> carriage_return)) [0..<n]"

definition lower :: "char \<Rightarrow> char" where
  "lower ch = (if 65 \<le> byte ch \<and> byte ch \<le> 90 then char_of (byte ch + 32) else ch)"

text \<open>Line end, \<open>upgrade:\<close>, blanks, \<open>websocket\<close>, without regard to case.\<close>

definition upgrade_at :: "string \<Rightarrow> bool" where
  "upgrade_at s =
     (case strip_prefix (carriage_return # newline # ''upgrade:'') s of
        None \<Rightarrow> False
      | Some r \<Rightarrow> starts_with (dropWhile (\<lambda>ch. ch = CHR '' '' \<or> ch = tab) r) ''websocket'')"

fun is_upgrade_from :: "string \<Rightarrow> bool" where
  "is_upgrade_from [] = False"
| "is_upgrade_from (ch # s) = (upgrade_at (ch # s) \<or> is_upgrade_from s)"

definition is_upgrade :: "string \<Rightarrow> bool" where
  "is_upgrade head = is_upgrade_from (map lower head)"

section \<open>The callbacks\<close>

definition send :: "string \<Rightarrow> bool \<Rightarrow> ws_state \<Rightarrow> ws_state" where
  "send d eof st = st\<lparr>outs := outs st @ [Up d eof]\<rparr>"

text \<open>The classification of a complete handshake; the head goes through a string and back.\<close>

definition classify :: "jsenv \<Rightarrow> ws_cfg \<Rightarrow> nat \<Rightarrow> nat \<Rightarrow> ws_state \<Rightarrow> ws_state" where
  "classify J cfg now n st =
     (let head = from_utf8_lossy (take n (hs st)); rest = drop n (hs st);
          st = send head False (st\<lparr>hs := []\<rparr>)
      in if is_upgrade head then pump J cfg now (st\<lparr>mode := Ws, acc := rest\<rparr>)
         else (let st = st\<lparr>mode := Plain\<rparr> in if rest \<noteq> [] then send rest False st else st))"

text \<open>The result of a phase, and whether the callback returned early.\<close>

definition on_handshake :: "jsenv \<Rightarrow> ws_cfg \<Rightarrow> nat \<Rightarrow> string \<Rightarrow> ws_state \<Rightarrow> ws_state \<times> bool" where
  "on_handshake J cfg now data st =
     (if data = [] then (st, False)
      else
        (let st = st\<lparr>hsReads := hsReads st + 1\<rparr> in
         if of_nat (hsReads st) > maxHsReads cfg then (violate ''protocol'' ''handshake-drip'' st, True)
         else
           (let st = st\<lparr>hs := hs st @ data\<rparr> in
            if length (hs st) > MAX_HANDSHAKE then (violate ''oversized-handshake'' [] st, True)
            else
              (let found = headerBlockEnd (hs st) (int (hsScanned st) - 2);
                   st = st\<lparr>hsScanned := length (hs st)\<rparr>
               in case found of
                    None \<Rightarrow> (st, True)
                  | Some n \<Rightarrow>
                      if hasBareLf (hs st) n then (violate ''protocol'' ''bare-lf-in-handshake'' st, True)
                      else (classify J cfg now n st, False)))))"

definition on_frames :: "jsenv \<Rightarrow> ws_cfg \<Rightarrow> nat \<Rightarrow> string \<Rightarrow> ws_state \<Rightarrow> ws_state \<times> bool" where
  "on_frames J cfg now data st =
     (if data = [] then (st, False)
      else
        (let st = st\<lparr>msgReads := msgReads st + 1\<rparr> in
         if of_nat (msgReads st) > maxMsgReads cfg then (violate ''frame-flood'' ''message-drip'' st, True)
         else
           (let st = st\<lparr>chunks := chunks st @ [data], pendingLen := pendingLen st + length data\<rparr> in
            if length (acc st) + pendingLen st < need st then (st, True)
            else (pump J cfg now (st\<lparr>acc := acc st @ concat (chunks st), chunks := [], pendingLen := 0\<rparr>), False))))"

text \<open>The mid-session ban check; \<open>True\<close> when it cut the session.\<close>

definition recheck :: "'w nhost \<Rightarrow> ws_cfg \<Rightarrow> string \<Rightarrow> 'w \<Rightarrow> ws_state \<Rightarrow> ws_state \<times> bool" where
  "recheck N cfg addr w st =
     (if mode st \<noteq> Plain \<and> w_banFile cfg \<noteq> [] \<and> of_nat (n_now N w) \<ge> banCheckAt st
      then (let st = st\<lparr>banCheckAt := of_nat (n_now N w) + banRecheck cfg * 1000\<rparr>;
                (banned, c) = isBanned N addr (w_banFile cfg) w (cache st);
                st = st\<lparr>cache := c\<rparr>
            in if banned then (violate ''banned'' ''session-cut'' st, True) else (st, False))
      else (st, False))"

definition onData :: "jsenv \<Rightarrow> 'w nhost \<Rightarrow> session \<Rightarrow> string \<Rightarrow> bool \<Rightarrow> 'w \<Rightarrow> ws_state \<Rightarrow> ws_state" where
  "onData J N s data eof w st =
     (if killed st then st
      else
        (let cfg = readCfg s; (st, cut) = recheck N cfg (s_addr s) w st in
         if cut then st
         else if mode st = Plain then send data eof st
         else
           (let (st, early) =
              (if mode st = Handshake then on_handshake J cfg (n_now N w) data st
               else on_frames J cfg (n_now N w) data st)
            in if early then st
               else if eof \<and> \<not> killed st then send [] True st else st)))"

text \<open>The callback on the upstream's answer: a plain session must not see a 101.\<close>

definition answers_101 :: "string \<Rightarrow> bool" where
  "answers_101 data =
     (let d = take 16 data in starts_with d ''HTTP/1.0 101'' \<or> starts_with d ''HTTP/1.1 101'')"

definition onAnswer :: "string \<Rightarrow> ws_state \<Rightarrow> ws_state" where
  "onAnswer data st =
     (if mode st = Plain \<and> \<not> checkedResponse st \<and> data \<noteq> []
      then (let st = st\<lparr>checkedResponse := True\<rparr> in
            if answers_101 data then violate_with Down ''protocol'' ''unclassified-upgrade'' st
            else st\<lparr>outs := outs st @ [Down data]\<rparr>)
      else st\<lparr>outs := outs st @ [Down data]\<rparr>)"

end
