(* ===== verification/Ws_Props.thy ===== *)
theory Ws_Props
  imports Shield_Ws
begin

text \<open>
  What the WebSocket engine guarantees: the parser always comes to rest, the engine holds a bounded
  amount of a client's data, it forwards the client's bytes unchanged and in order, only after
  the messages in them passed, and it judges them the same however the network cut them up.
\<close>

section \<open>The parser comes to rest\<close>

lemma check_frame_Need: "check_frame J cfg st fin opc len off = Need n \<Longrightarrow> n = off + 4 + len \<and> length (acc st) < n"
  by (auto simp: check_frame_def Let_def split: if_splits)

lemma frame_header_Need: "frame_header J cfg st = Need n \<Longrightarrow> length (acc st) < n"
  by (auto simp: frame_header_def Let_def dest!: check_frame_Need split: if_splits)

lemma frame_header_cong:
  "acc st' = acc st \<Longrightarrow> inMsg st' = inMsg st \<Longrightarrow> msgLen st' = msgLen st \<Longrightarrow> frame_header J cfg st' = frame_header J cfg st"
  by (simp add: frame_header_def check_frame_def Let_def)

lemma frame_header_need [simp]: "frame_header J cfg (st\<lparr>need := n\<rparr>) = frame_header J cfg st"
  by (rule frame_header_cong) simp_all

lemma pump_killed [simp]: "killed st \<Longrightarrow> pump J cfg now st = st"
  by (simp add: pump.simps [of J cfg now st])

lemma pump_Need: "\<not> killed st \<Longrightarrow> frame_header J cfg st = Need n \<Longrightarrow> pump J cfg now st = st\<lparr>need := n\<rparr>"
  by (simp add: pump.simps [of J cfg now st])

lemma pump_Bad: "\<not> killed st \<Longrightarrow> frame_header J cfg st = Bad r d \<Longrightarrow> pump J cfg now st = violate r d st"
  by (simp add: pump.simps [of J cfg now st])

lemma pump_Frame: "\<not> killed st \<Longrightarrow> frame_header J cfg st = Frame fin opc len off \<Longrightarrow>
    pump J cfg now st = pump J cfg now (take_frame J cfg now fin opc len off st)"
  by (simp add: pump.simps [of J cfg now st])

lemmas pump_cases = pump_Need pump_Bad pump_Frame

lemma killed_violate [simp]: "killed (violate r d st)"
  by (simp add: violate_def violate_with_def)

text \<open>Induction over the frames of a buffer.\<close>

lemma pump_induct [case_names killed need bad frame]:
  assumes "\<And>st. killed st \<Longrightarrow> P st"
    and "\<And>st n. \<not> killed st \<Longrightarrow> frame_header J cfg st = Need n \<Longrightarrow> P st"
    and "\<And>st r d. \<not> killed st \<Longrightarrow> frame_header J cfg st = Bad r d \<Longrightarrow> P st"
    and "\<And>st fin opc len off. \<not> killed st \<Longrightarrow> frame_header J cfg st = Frame fin opc len off \<Longrightarrow>
      P (take_frame J cfg now fin opc len off st) \<Longrightarrow> P st"
  shows "P st"
proof (induction "length (acc st)" arbitrary: st rule: less_induct)
  case less
  show ?case
  proof (cases "killed st")
    case False
    show ?thesis
    proof (cases "frame_header J cfg st")
      case (Frame fin opc len off)
      then have "length (acc (take_frame J cfg now fin opc len off st)) < length (acc st)"
        using frame_header_fits [OF Frame] by simp
      then show ?thesis using assms(4) [OF False Frame] less by blast
    qed (use False assms in auto)
  qed (use assms in auto)
qed

lemma pump_rest:
  "let st' = pump J cfg now st in
     (killed st' \<or> frame_header J cfg st' = Need (need st') \<and> length (acc st') < need st')
     \<and> (\<exists>n. acc st' = drop n (acc st))"
proof (induction st rule: pump_induct [of _ J cfg now])
  case (frame st fin opc len off)
  then show ?case by (auto simp: pump_Frame Let_def)
qed (auto simp: pump_cases Let_def frame_header_Need intro: exI [of _ "0::nat"])

text \<open>C21. The frame loop always ends, and where it stops is right: either the session was cut, or the
  rest of the buffer is the start of a frame that is not complete yet, and \<open>need\<close> is the number of
  bytes the parser is waiting for. What is left is always a suffix of what was there.\<close>

theorem pump_stops:
  "let st' = pump J cfg now st in
     (killed st' \<or> frame_header J cfg st' = Need (need st') \<and> length (acc st') < need st')
     \<and> (\<exists>n. acc st' = drop n (acc st))"
  by (rule pump_rest)

section \<open>What an inspection does to the session\<close>

text \<open>Up to the buckets and the subscriptions an inspection either changes nothing or is one
  violation.\<close>

definition restore :: "ws_state \<Rightarrow> ws_state \<Rightarrow> ws_state" where
  "restore st x = x\<lparr>bMsg := bMsg st, bEvent := bEvent st, bReq := bReq st, subs := subs st, subCount := subCount st\<rparr>"

definition judged :: "ws_state \<Rightarrow> ws_state \<Rightarrow> bool" where
  "judged st x \<longleftrightarrow> restore st x = st \<or> (\<exists>r d. restore st x = violate r d st)"

lemma restore_violate: "restore st (violate r d x) = violate r d (restore st x)"
  by (simp add: restore_def violate_def violate_with_def)

lemma killed_restore [simp]: "killed (restore st x) = killed x"
  by (simp add: restore_def)

lemma judged_violate:
  assumes "judged st x"
  shows "judged st (violate r d x)"
  using assms unfolding judged_def
proof
  assume "restore st x = st"
  then show "restore st (violate r d x) = st \<or> (\<exists>r' d'. restore st (violate r d x) = violate r' d' st)"
    by (auto simp: restore_violate)
next
  assume "\<exists>r' d'. restore st x = violate r' d' st"
  then obtain r' d' where v: "restore st x = violate r' d' st" by blast
  then have "killed x" by (metis killed_restore killed_violate)
  then have "violate r d x = x" by (simp add: violate_def violate_with_def)
  with v show "restore st (violate r d x) = st \<or> (\<exists>r' d'. restore st (violate r d x) = violate r' d' st)" by auto
qed

lemma judged_same: "restore st x' = restore st x \<Longrightarrow> judged st x \<Longrightarrow> judged st x'"
  by (simp add: judged_def)

interpretation keeps_judged: session_frame J cfg "judged st" for J cfg st
proof (unfold_locales, goal_cases)
  case (4 x sid)
  then show ?case
    by (auto simp: open_sub_def intro: judged_violate judged_same [of st _ x] simp: restore_def)
next
  case (5 x v)
  then show ?case
    by (auto simp: close_sub_def restore_def intro: judged_same [of st _ x] split: option.split jval.split)
next
  case (6 x r d)
  then show ?case by (rule judged_violate)
qed (auto simp: restore_def intro: judged_same)

lemma judged_refl: "judged st st"
  by (simp add: judged_def restore_def)

lemma inspect_judged: "judged st (inspect J cfg now buf st)"
  by (rule keeps_judged.on_inspect) (rule judged_refl)

text \<open>The fields outside the buckets and subscriptions.\<close>

lemma restore_fields [simp]:
  "mode (restore st x) = mode x" "hs (restore st x) = hs x" "pending (restore st x) = pending x"
  "msgParts (restore st x) = msgParts x" "msgLen (restore st x) = msgLen x" "inMsg (restore st x) = inMsg x"
  "chunks (restore st x) = chunks x" "pendingLen (restore st x) = pendingLen x" "need (restore st x) = need x"
  "outs (restore st x) = outs x" "hsScanned (restore st x) = hsScanned x" "hsReads (restore st x) = hsReads x"
  "msgReads (restore st x) = msgReads x"
  by (simp_all add: restore_def)

lemma judged_pass:
  assumes "judged st x" "\<not> killed x"
  shows "restore st x = st"
  using assms by (metis judged_def killed_restore killed_violate)

lemma judged_cut:
  assumes "judged st x" "killed x" "\<not> killed st"
  shows "\<exists>r d. restore st x = violate r d st"
  using assms by (metis judged_def killed_restore)

section \<open>Only inspected messages are forwarded\<close>

text \<open>What a message must be to get past the inspection, whatever the buckets and subscriptions.\<close>

definition passes :: "jsenv \<Rightarrow> ws_cfg \<Rightarrow> string \<Rightarrow> bool" where
  "passes J cfg m \<longleftrightarrow> (\<exists>t args. json_parse J (from_utf8_lossy m) = Some (JArr (JStr t # args)) \<and> t \<in> types cfg
     \<and> (t = ''EVENT'' \<longrightarrow> (\<exists>f k. item 0 args = Some (JObj f) \<and> map_of f ''kind'' = Some (JNum k) \<and> show_num J k \<notin> kindDeny cfg))
     \<and> (t = ''REQ'' \<or> t = ''COUNT'' \<longrightarrow> sub_id (item 0 args) \<noteq> None \<and> checkFilters J cfg (drop 1 args) = None)
     \<and> (t = ''NEG-OPEN'' \<longrightarrow> sub_id (item 0 args) \<noteq> None \<and>
          checkFilters J cfg [case item 1 args of None \<Rightarrow> JNull | Some v \<Rightarrow> v] = None))"

lemma query_passes: "\<not> killed (inspect_query J cfg now sid filters opens st) \<Longrightarrow>
    sub_id sid \<noteq> None \<and> checkFilters J cfg filters = None"
  by (auto simp: inspect_query_def Let_def split: prod.splits bool.splits option.splits)

lemma event_passes: "\<not> killed (inspect_event J cfg now ev st) \<Longrightarrow>
    \<exists>f k. ev = Some (JObj f) \<and> map_of f ''kind'' = Some (JNum k) \<and> show_num J k \<notin> kindDeny cfg"
  by (auto simp: inspect_event_def Let_def split: prod.splits bool.splits option.splits jval.splits if_splits)

lemma inspect_passes:
  assumes "\<not> killed (inspect J cfg now buf st)"
  shows "passes J cfg buf"
proof -
  obtain b where b: "takeToken now (bMsg st) = (True, b)"
    using assms by (cases "takeToken now (bMsg st)") (auto simp: inspect_def split: bool.splits)
  obtain t args where m: "json_parse J (from_utf8_lossy buf) = Some (JArr (JStr t # args))"
    using assms b by (auto simp: inspect_def Let_def split: option.splits jval.splits list.splits)
  have t: "t \<in> types cfg" using assms b m by (auto simp: inspect_def Let_def split: if_splits)
  let ?st = "st\<lparr>bMsg := b\<rparr>"
  have "t = ''EVENT'' \<Longrightarrow> inspect J cfg now buf st = inspect_event J cfg now (item 0 args) ?st"
    "t = ''REQ'' \<or> t = ''COUNT'' \<Longrightarrow> inspect J cfg now buf st = inspect_query J cfg now (item 0 args) (drop 1 args) (t = ''REQ'') ?st"
    "t = ''NEG-OPEN'' \<Longrightarrow> inspect J cfg now buf st = inspect_query J cfg now (item 0 args)
        [case item 1 args of None \<Rightarrow> JNull | Some v \<Rightarrow> v] True ?st"
    using b m t by (auto simp: inspect_def Let_def)
  then show ?thesis
    unfolding passes_def using assms m t event_passes query_passes by (intro exI [of _ t] exI [of _ args]) metis
qed

text \<open>The frames of a byte stream, and the messages they carry. A control frame may stand between
  the fragments of a message.\<close>

definition fin_of :: "string \<Rightarrow> bool" where
  "fin_of s \<longleftrightarrow> byte_at s 0 AND 0x80 \<noteq> 0"

definition op_of :: "string \<Rightarrow> nat" where
  "op_of s = byte_at s 0 AND 0x0F"

definition off_of :: "string \<Rightarrow> nat" where
  "off_of s = (let l = byte_at s 1 AND 0x7F in if l = 126 then 4 else if l = 127 then 10 else 2)"

definition payload_of :: "string \<Rightarrow> string" where
  "payload_of s = unmask (take 4 (drop (off_of s) s)) (drop (off_of s + 4) s)"

definition len_of :: "string \<Rightarrow> nat" where
  "len_of s = (let l = byte_at s 1 AND 0x7F in if l = 126 then be s 2 2 else if l = 127 then be s 2 8 else l)"

text \<open>One masked frame without reserved bits, no byte too many or too few.\<close>

definition whole_frame :: "string \<Rightarrow> bool" where
  "whole_frame s \<longleftrightarrow> length s = off_of s + 4 + len_of s \<and> byte_at s 0 AND 0x70 = 0 \<and> byte_at s 1 AND 0x80 \<noteq> 0"

fun msgs :: "string list \<Rightarrow> string list \<Rightarrow> string list" where
  "msgs ps [] = []"
| "msgs ps (f # fs) =
     (if op_of f \<ge> 8 then msgs ps fs
      else if fin_of f then concat (ps @ [payload_of f]) # msgs [] fs
      else msgs (ps @ [payload_of f]) fs)"

fun open_parts :: "string list \<Rightarrow> string list \<Rightarrow> string list" where
  "open_parts ps [] = ps"
| "open_parts ps (f # fs) =
     (if op_of f \<ge> 8 then open_parts ps fs
      else if fin_of f then open_parts [] fs
      else open_parts (ps @ [payload_of f]) fs)"

lemma msgs_append: "msgs ps (fs @ gs) = msgs ps fs @ msgs (open_parts ps fs) gs"
  by (induction fs arbitrary: ps) simp_all

lemma open_parts_append: "open_parts ps (fs @ gs) = open_parts (open_parts ps fs) gs"
  by (induction fs arbitrary: ps) simp_all

lemma byte_at_take: "i < n \<Longrightarrow> byte_at (take n s) i = byte_at s i"
  by (simp add: byte_at_def)

lemma check_frame_data:
  "check_frame J cfg st fin opc len off = Frame fin' opc' len' off' \<Longrightarrow>
     if opc \<ge> 8 then fin \<and> len \<le> 125
     else (opc = OP_TEXT \<and> \<not> inMsg st \<or> opc = OP_CONT \<and> inMsg st) \<and> of_nat (msgLen st + len) \<le> maxMsg cfg"
  by (auto simp: check_frame_def Let_def split: if_splits)

lemma frame_header_check:
  "frame_header J cfg st = Frame fin opc len off \<Longrightarrow>
     \<exists>l. check_frame J cfg st (fin_of (acc st)) (op_of (acc st)) l (off_of (acc st)) = Frame fin opc len off"
  by (auto simp: frame_header_def Let_def fin_of_def op_of_def off_of_def split: if_splits)

lemma frame_header_decode:
  assumes "frame_header J cfg st = Frame fin opc len off"
  shows "fin = fin_of (acc st)" "opc = op_of (acc st)" "off = off_of (acc st)"
    "if opc \<ge> 8 then fin \<and> len \<le> 125
     else (opc = OP_TEXT \<and> \<not> inMsg st \<or> opc = OP_CONT \<and> inMsg st) \<and> of_nat (msgLen st + len) \<le> maxMsg cfg"
proof -
  obtain l where l: "check_frame J cfg st (fin_of (acc st)) (op_of (acc st)) l (off_of (acc st)) = Frame fin opc len off"
    using frame_header_check [OF assms] ..
  note eq = check_frame_Frame [OF l]
  show "fin = fin_of (acc st)" "opc = op_of (acc st)" "off = off_of (acc st)" using eq by simp_all
  show "if opc \<ge> 8 then fin \<and> len \<le> 125
     else (opc = OP_TEXT \<and> \<not> inMsg st \<or> opc = OP_CONT \<and> inMsg st) \<and> of_nat (msgLen st + len) \<le> maxMsg cfg"
    using check_frame_data [OF l] eq by (simp split: if_splits)
qed

lemma raw_decode:
  assumes "frame_header J cfg st = Frame fin opc len off" "raw = take (off + 4 + len) (acc st)"
  shows "fin_of raw = fin" "op_of raw = opc"
    "payload_of raw = unmask (take 4 (drop off (acc st))) (take len (drop (off + 4) (acc st)))"
proof -
  note d = frame_header_decode [OF assms(1)]
  have b: "byte_at raw 0 = byte_at (acc st) 0" "byte_at raw 1 = byte_at (acc st) 1"
    by (simp_all add: assms(2) byte_at_take)
  then show "fin_of raw = fin" "op_of raw = opc" using d by (simp_all add: fin_of_def op_of_def)
  have "off_of raw = off" using b(2) d(3) by (simp add: off_of_def)
  then show "payload_of raw = unmask (take 4 (drop off (acc st))) (take len (drop (off + 4) (acc st)))"
    by (simp add: payload_of_def assms(2) drop_take)
qed

lemma be_add: "be s i (m + n) = be s i m * 256 ^ n + be s (i + m) n"
  by (induction n) (simp_all add: be_def algebra_simps)

lemma be_take: "i + m \<le> n \<Longrightarrow> be (take n s) i m = be s i m"
  unfolding be_def by (rule foldl_cong) (simp_all add: byte_at_take)

lemma frame_header_len:
  "frame_header J cfg st = Frame fin opc len off \<Longrightarrow>
     len = len_of (acc st) \<and> byte_at (acc st) 0 AND 0x70 = 0 \<and> byte_at (acc st) 1 AND 0x80 \<noteq> 0"
  using be_add [of "acc st" 2 4 4]
  by (auto simp: frame_header_def Let_def len_of_def dest!: check_frame_Frame split: if_splits)

lemma raw_whole:
  assumes "frame_header J cfg st = Frame fin opc len off" "raw = take (off + 4 + len) (acc st)"
  shows "whole_frame raw"
proof -
  note d = frame_header_decode [OF assms(1)] and l = frame_header_len [OF assms(1)]
  have b: "byte_at raw 0 = byte_at (acc st) 0" "byte_at raw 1 = byte_at (acc st) 1"
    by (simp_all add: assms(2) byte_at_take)
  then have o: "off_of raw = off" using d(3) by (simp add: off_of_def)
  have "len_of raw = len"
    using l b d(3) by (auto simp: len_of_def off_of_def Let_def assms(2) be_take)
  with o b l frame_header_fits [OF assms(1)] show ?thesis by (simp add: whole_frame_def assms(2))
qed

text \<open>The frames sent upstream, and the one a violation adds.\<close>

definition ups :: "out list \<Rightarrow> string list" where
  "ups os = filter_map (\<lambda>o'. case o' of Up f _ \<Rightarrow> Some f | _ \<Rightarrow> None) os"

definition close_up :: "string \<Rightarrow> string list" where
  "close_up rule = frames [closeFrame 1008 rule True]"

lemma ups_simps [simp]:
  "ups [] = []" "ups (os @ os') = ups os @ ups os'" "ups (Up f e # os) = f # ups os"
  "ups (Down f # os) = ups os" "ups (Log r d # os) = ups os"
  by (simp_all add: ups_def)

lemma ups_map [simp]: "ups (map (\<lambda>f. Up f e) fs) = fs" "ups (map Down fs) = []"
  by (induction fs) simp_all

lemma ups_violate: "\<not> killed st \<Longrightarrow> ups (outs (violate r d st)) = ups (outs st) @ close_up r"
  by (simp add: violate_def violate_with_def close_up_def)

lemma flush_fields [simp]:
  "pending (flush st) = []" "killed (flush st) = killed st" "inMsg (flush st) = inMsg st" "msgParts (flush st) = msgParts st"
  "msgLen (flush st) = msgLen st" "ups (outs (flush st)) = ups (outs st) @ pending st"
  "chunks (flush st) = chunks st" "pendingLen (flush st) = pendingLen st" "need (flush st) = need st" "mode (flush st) = mode st"
  "hs (flush st) = hs st" "subs (flush st) = subs st" "subCount (flush st) = subCount st"
  by (simp_all add: flush_def)

text \<open>The hold queue: between messages it is empty, within one it has the frames of that message.\<close>

definition hold_inv :: "ws_state \<Rightarrow> bool" where
  "hold_inv st \<longleftrightarrow>
     (if inMsg st then msgs [] (pending st) = [] \<and> open_parts [] (pending st) = msgParts st
      else pending st = [] \<and> msgParts st = [])"

lemma end_message_outcome:
  assumes "\<not> killed st" "inMsg st = False"
  shows "(killed (end_message J cfg now st) \<and> (\<exists>r. ups (outs (end_message J cfg now st)) = ups (outs st) @ close_up r))
    \<or> (\<not> killed (end_message J cfg now st) \<and> hold_inv (end_message J cfg now st) \<and> pending (end_message J cfg now st) = []
        \<and> ups (outs (end_message J cfg now st)) = ups (outs st) @ pending st \<and> passes J cfg (concat (msgParts st)))"
proof -
  let ?st = "st\<lparr>msgParts := [], msgLen := 0, msgReads := 0\<rparr>"
  let ?x = "inspect J cfg now (concat (msgParts st)) ?st"
  have j: "judged ?st ?x" by (rule inspect_judged)
  show ?thesis
  proof (cases "killed ?x")
    case True
    then obtain r d where "restore ?st ?x = violate r d ?st" using judged_cut [OF j] assms(1) by auto
    then have "outs ?x = outs (violate r d ?st)" by (metis restore_fields(10))
    moreover have "ups (outs (violate r d ?st)) = ups (outs st) @ close_up r" using ups_violate [of ?st r d] assms(1) by simp
    ultimately show ?thesis using True by (auto simp: end_message_def Let_def)
  next
    case False
    have r: "restore ?st ?x = ?st" using judged_pass [OF j False] .
    have f: "outs ?x = outs st" "pending ?x = pending st" "msgParts ?x = []" "inMsg ?x = False"
      using arg_cong [OF r, of outs] arg_cong [OF r, of pending] arg_cong [OF r, of msgParts] arg_cong [OF r, of inMsg] assms(2)
      by simp_all
    with False inspect_passes [OF False] show ?thesis by (simp add: end_message_def Let_def hold_inv_def)
  qed
qed

lemma take_frame_outcome:
  assumes k: "\<not> killed st" and inv: "hold_inv st" and hd: "frame_header J cfg st = Frame fin opc len off"
    and st': "st' = take_frame J cfg now fin opc len off st" and raw: "raw = take (off + 4 + len) (acc st)"
  shows "(killed st' \<and> (\<exists>r. ups (outs st') = ups (outs st) @ close_up r))
    \<or> (\<not> killed st' \<and> hold_inv st' \<and> pending st' = [] \<and> ups (outs st') = ups (outs st) @ pending st @ [raw]
        \<and> open_parts [] (pending st @ [raw]) = [] \<and> list_all (passes J cfg) (msgs [] (pending st @ [raw])))
    \<or> (\<not> killed st' \<and> hold_inv st' \<and> pending st' = pending st @ [raw] \<and> ups (outs st') = ups (outs st))"
proof -
  note d = frame_header_decode [OF hd] and rd = raw_decode [OF hd raw]
  let ?s1 = "st\<lparr>need := 2, acc := drop (off + 4 + len) (acc st), pending := pending st @ [raw]\<rparr>"
  let ?s2 = "?s1\<lparr>msgParts := msgParts st @ [payload_of raw]\<rparr>"
  let ?s3 = "?s2\<lparr>msgLen := msgLen st + len, inMsg := \<not> fin\<rparr>"
  consider (flood) "length (pending ?s1) > MAX_PENDING_FRAMES"
    | (control) "length (pending ?s1) \<le> MAX_PENDING_FRAMES" "opc \<ge> 8"
    | (fragments) "length (pending ?s1) \<le> MAX_PENDING_FRAMES" "opc < 8" "length (msgParts ?s2) > MAX_FRAGMENTS"
    | (more) "length (pending ?s1) \<le> MAX_PENDING_FRAMES" "opc < 8" "length (msgParts ?s2) \<le> MAX_FRAGMENTS" "\<not> fin"
    | (last) "length (pending ?s1) \<le> MAX_PENDING_FRAMES" "opc < 8" "length (msgParts ?s2) \<le> MAX_FRAGMENTS" "fin"
    by fastforce
  then show ?thesis
  proof cases
    case flood
    then have "st' = violate ''frame-flood'' (''pending='' @ string_of_nat (length (pending ?s1))) ?s1"
      by (simp add: st' take_frame_def raw Let_def)
    then show ?thesis using ups_violate [of ?s1] k by auto
  next
    case control
    then have "st' = (if inMsg st then ?s1 else flush ?s1)" by (simp add: st' take_frame_def raw Let_def)
    then show ?thesis
      using k inv control(2) rd(2) by (auto simp: hold_inv_def msgs_append open_parts_append)
  next
    case fragments
    then have "st' = violate ''frame-flood'' (''fragments='' @ string_of_nat (length (msgParts ?s2))) ?s2"
      by (simp add: st' take_frame_def raw rd(3) [unfolded raw] Let_def)
    then show ?thesis using ups_violate [of ?s2] k by auto
  next
    case more
    then have "st' = ?s3" by (simp add: st' take_frame_def raw rd(3) [unfolded raw] Let_def)
    then show ?thesis
      using k inv more rd d(4) by (auto simp: hold_inv_def msgs_append open_parts_append split: if_splits)
  next
    case last
    then have st3: "st' = end_message J cfg now ?s3" by (simp add: st' take_frame_def raw rd(3) [unfolded raw] Let_def)
    have m: "msgs [] (pending st @ [raw]) = [concat (msgParts st @ [payload_of raw])]" "open_parts [] (pending st @ [raw]) = []"
      using inv last rd by (auto simp: hold_inv_def msgs_append open_parts_append split: if_splits)
    show ?thesis
      using end_message_outcome [of ?s3 J cfg now] k last(4) m by (auto simp: st3)
  qed
qed

text \<open>The frame loop leaves the fields of the other phases alone, unless it cuts the session.\<close>

definition kept :: "ws_state \<Rightarrow> ws_mode \<times> string \<times> string list \<times> nat" where
  "kept st = (mode st, hs st, chunks st, pendingLen st)"

lemma kept_end_message: "\<not> killed (end_message J cfg now st) \<Longrightarrow> kept (end_message J cfg now st) = kept st"
proof -
  assume k: "\<not> killed (end_message J cfg now st)"
  let ?st = "st\<lparr>msgParts := [], msgLen := 0, msgReads := 0\<rparr>"
  let ?x = "inspect J cfg now (concat (msgParts st)) ?st"
  have "\<not> killed ?x" using k by (auto simp: end_message_def Let_def)
  then have r: "restore ?st ?x = ?st" using judged_pass [OF inspect_judged] by blast
  show "kept (end_message J cfg now st) = kept st"
    using \<open>\<not> killed ?x\<close> arg_cong [OF r, of mode] arg_cong [OF r, of hs] arg_cong [OF r, of chunks] arg_cong [OF r, of pendingLen]
    by (simp add: end_message_def Let_def kept_def)
qed

lemma kept_take_frame:
  "\<not> killed (take_frame J cfg now fin opc len off st) \<Longrightarrow> kept (take_frame J cfg now fin opc len off st) = kept st"
  by (auto simp: take_frame_def Let_def kept_def [symmetric] kept_end_message split: if_splits) (simp_all add: kept_def)

lemma kept_pump: "\<not> killed (pump J cfg now st) \<Longrightarrow> kept (pump J cfg now st) = kept st"
proof (induction st rule: pump_induct [of _ J cfg now])
  case (frame st fin opc len off)
  then have "\<not> killed (take_frame J cfg now fin opc len off st)" by (metis pump_Frame pump_killed)
  with frame kept_take_frame show ?case by (simp add: pump_Frame)
qed (auto simp: pump_cases kept_def)

lemma mode_end_message: "mode (end_message J cfg now st) = mode st"
proof -
  let ?st = "st\<lparr>msgParts := [], msgLen := 0, msgReads := 0\<rparr>"
  have "judged ?st (inspect J cfg now (concat (msgParts st)) ?st)" by (rule inspect_judged)
  then have "mode (inspect J cfg now (concat (msgParts st)) ?st) = mode st"
    unfolding judged_def
  proof
    assume "restore ?st (inspect J cfg now (concat (msgParts st)) ?st) = ?st"
    from arg_cong [OF this, of mode] show ?thesis by simp
  next
    assume "\<exists>r d. restore ?st (inspect J cfg now (concat (msgParts st)) ?st) = violate r d ?st"
    then obtain r d where "restore ?st (inspect J cfg now (concat (msgParts st)) ?st) = violate r d ?st" by blast
    from arg_cong [OF this, of mode] show ?thesis by (simp add: violate_def violate_with_def)
  qed
  then show ?thesis by (simp add: end_message_def Let_def)
qed

lemma mode_take_frame: "mode (take_frame J cfg now fin opc len off st) = mode st"
  by (simp add: take_frame_def Let_def mode_end_message) (simp add: violate_def violate_with_def)

lemma mode_pump: "mode st = m \<Longrightarrow> mode (pump J cfg now st) = m"
proof (induction st rule: pump_induct [of _ J cfg now])
  case (frame st fin opc len off)
  then show ?case by (simp add: pump_Frame mode_take_frame)
qed (simp_all add: pump_cases violate_def violate_with_def)

lemma pump_flow:
  assumes "\<not> killed st" "hold_inv st"
  shows "\<exists>gs sent held r. pending st @ gs = sent @ held \<and> acc st = concat gs @ acc (pump J cfg now st)
    \<and> list_all whole_frame gs \<and> open_parts [] sent = [] \<and> list_all (passes J cfg) (msgs [] sent)
    \<and> (if killed (pump J cfg now st) then ups (outs (pump J cfg now st)) = ups (outs st) @ sent @ close_up r
       else ups (outs (pump J cfg now st)) = ups (outs st) @ sent \<and> pending (pump J cfg now st) = held
         \<and> hold_inv (pump J cfg now st))"
  using assms
proof (induction st rule: pump_induct [of _ J cfg now])
  case (need st n)
  then show ?case
    by (intro exI [of _ "[]"] exI [of _ "pending st"]) (simp add: pump_Need hold_inv_def)
next
  case (bad st r d)
  then show ?case
    by (intro exI [of _ "[]"] exI [of _ "pending st"] exI [of _ r]) (simp add: pump_Bad ups_violate)
next
  case (frame st fin opc len off)
  let ?st = "take_frame J cfg now fin opc len off st" and ?raw = "take (off + 4 + len) (acc st)"
  have p: "pump J cfg now st = pump J cfg now ?st" using pump_Frame frame.hyps(1,2) by blast
  have a: "acc st = ?raw @ acc ?st" by simp
  have wh: "whole_frame ?raw" using raw_whole [OF frame.hyps(2) refl] .
  from take_frame_outcome [OF frame.hyps(1) frame.prems(2) frame.hyps(2) refl refl]
  consider (cut) r where "killed ?st" "ups (outs ?st) = ups (outs st) @ close_up r"
    | (sent) "\<not> killed ?st" "hold_inv ?st" "pending ?st = []" "ups (outs ?st) = ups (outs st) @ pending st @ [?raw]"
        "open_parts [] (pending st @ [?raw]) = []" "list_all (passes J cfg) (msgs [] (pending st @ [?raw]))"
    | (held) "\<not> killed ?st" "hold_inv ?st" "pending ?st = pending st @ [?raw]" "ups (outs ?st) = ups (outs st)"
    by blast
  then show ?case
  proof cases
    case (cut r)
    then show ?thesis
      using a wh by (intro exI [of _ "[?raw]"] exI [of _ "[]"] exI [of _ "pending st @ [?raw]"] exI [of _ r]) (simp add: p)
  next
    case sent
    obtain gs sn hd r where IH: "pending ?st @ gs = sn @ hd" "acc ?st = concat gs @ acc (pump J cfg now ?st)" "list_all whole_frame gs"
        "open_parts [] sn = []" "list_all (passes J cfg) (msgs [] sn)"
        "if killed (pump J cfg now ?st) then ups (outs (pump J cfg now ?st)) = ups (outs ?st) @ sn @ close_up r
         else ups (outs (pump J cfg now ?st)) = ups (outs ?st) @ sn \<and> pending (pump J cfg now ?st) = hd
           \<and> hold_inv (pump J cfg now ?st)"
      using frame.IH [OF sent(1,2)] by blast
    show ?thesis
      using IH sent a wh
      by (intro exI [of _ "?raw # gs"] exI [of _ "pending st @ ?raw # sn"] exI [of _ hd] exI [of _ r])
        (simp add: p msgs_append [of _ "pending st @ [?raw]" sn, simplified] open_parts_append [of _ "pending st @ [?raw]" sn, simplified])
  next
    case held
    obtain gs sn hd r where IH: "pending ?st @ gs = sn @ hd" "acc ?st = concat gs @ acc (pump J cfg now ?st)" "list_all whole_frame gs"
        "open_parts [] sn = []" "list_all (passes J cfg) (msgs [] sn)"
        "if killed (pump J cfg now ?st) then ups (outs (pump J cfg now ?st)) = ups (outs ?st) @ sn @ close_up r
         else ups (outs (pump J cfg now ?st)) = ups (outs ?st) @ sn \<and> pending (pump J cfg now ?st) = hd
           \<and> hold_inv (pump J cfg now ?st)"
      using frame.IH [OF held(1,2)] by blast
    show ?thesis
      using IH held a wh
      by (intro exI [of _ "?raw # gs"] exI [of _ sn] exI [of _ hd] exI [of _ r]) (simp add: p)
  qed
qed simp

section \<open>The callback\<close>

lemma recheck_cases:
  obtains t c where "recheck N cfg addr w st = (st\<lparr>banCheckAt := t, cache := c\<rparr>, False)"
  | t c where "recheck N cfg addr w st = (violate ''banned'' ''session-cut'' (st\<lparr>banCheckAt := t, cache := c\<rparr>), True)"
proof (cases "mode st \<noteq> Plain \<and> w_banFile cfg \<noteq> [] \<and> of_nat (n_now N w) \<ge> banCheckAt st")
  case True
  obtain b c where b: "isBanned N addr (w_banFile cfg) w (cache st) = (b, c)" by fastforce
  let ?st = "st\<lparr>banCheckAt := of_nat (n_now N w) + banRecheck cfg * 1000, cache := c\<rparr>"
  have "recheck N cfg addr w st = (if b then (violate ''banned'' ''session-cut'' ?st, True) else (?st, False))"
    using True b by (simp add: recheck_def Let_def)
  then show ?thesis using that by (cases b) (simp_all only: if_True if_False)
next
  case False
  then have "recheck N cfg addr w st = (st\<lparr>banCheckAt := banCheckAt st, cache := cache st\<rparr>, False)"
    by (auto simp: recheck_def)
  then show ?thesis using that by blast
qed

text \<open>A segment in the frame phase: what is read, sent and held, as for the frame loop.\<close>

definition flows :: "jsenv \<Rightarrow> ws_cfg \<Rightarrow> ws_state \<Rightarrow> string \<Rightarrow> ws_state \<Rightarrow> bool" where
  "flows J cfg st data st' \<longleftrightarrow>
     (\<exists>gs sent held rest r. acc st @ concat (chunks st) @ data = concat gs @ rest \<and> pending st @ gs = sent @ held
        \<and> list_all whole_frame gs \<and> open_parts [] sent = [] \<and> list_all (passes J cfg) (msgs [] sent)
        \<and> (if killed st' then ups (outs st') = ups (outs st) @ sent @ close_up r
           else ups (outs st') = ups (outs st) @ sent \<and> pending st' = held \<and> rest = acc st' @ concat (chunks st')
             \<and> hold_inv st' \<and> mode st' = Ws))"

lemma flows_cut:
  assumes "\<not> killed st" "outs x = outs st" "killed x = False" "st' = violate r d x"
  shows "flows J cfg st data st'"
  unfolding flows_def
  by (rule exI [of _ "[]"], rule exI [of _ "[]"], rule exI [of _ "pending st"],
      rule exI [of _ "acc st @ concat (chunks st) @ data"], rule exI [of _ r])
    (use assms ups_violate [of x r d] in simp)

lemma flows_rename:
  assumes "flows J cfg x data st'" "acc x = acc st" "chunks x = chunks st" "pending x = pending st" "outs x = outs st"
  shows "flows J cfg st data st'"
  using assms(1) unfolding flows_def assms(2-5) .

lemma on_frames_flows:
  assumes "\<not> killed st" "hold_inv st" "mode st = Ws"
  shows "flows J cfg st data (fst (on_frames J cfg now data st))"
proof (cases "data = [] \<or> of_nat (msgReads st + 1) > maxMsgReads cfg")
  case True
  then show ?thesis
  proof (cases "data = []")
    case True
    have "flows J cfg st [] st"
      unfolding flows_def
      by (rule exI [of _ "[]"], rule exI [of _ "[]"], rule exI [of _ "pending st"], rule exI [of _ "acc st @ concat (chunks st)"])
        (use assms in simp)
    with True show ?thesis by (simp add: on_frames_def)
  next
    case False
    with True show ?thesis
      using assms(1)
      by (intro flows_cut [of st "st\<lparr>msgReads := msgReads st + 1\<rparr>" _ "''frame-flood''" "''message-drip''"])
        (simp_all add: on_frames_def Let_def)
  qed
next
  case False
  let ?x = "st\<lparr>msgReads := msgReads st + 1, chunks := chunks st @ [data], pendingLen := pendingLen st + length data\<rparr>"
  let ?y = "?x\<lparr>acc := acc st @ concat (chunks ?x), chunks := [], pendingLen := 0\<rparr>"
  have y: "\<not> killed ?y" "hold_inv ?y" using assms by (simp_all add: hold_inv_def)
  show ?thesis
  proof (cases "length (acc ?x) + pendingLen ?x < need ?x")
    case True
    then have eq: "fst (on_frames J cfg now data st) = ?x" using False by (simp add: on_frames_def Let_def)
    show ?thesis
      unfolding flows_def eq
      by (rule exI [of _ "[]"], rule exI [of _ "[]"], rule exI [of _ "pending st"],
          rule exI [of _ "acc st @ concat (chunks st) @ data"])
        (use assms in \<open>simp add: hold_inv_def\<close>)
  next
    case wait: False
    then have eq: "fst (on_frames J cfg now data st) = pump J cfg now ?y" using False by (simp add: on_frames_def Let_def)
    obtain gs sent held r where f: "pending ?y @ gs = sent @ held" "acc ?y = concat gs @ acc (pump J cfg now ?y)"
        "list_all whole_frame gs" "open_parts [] sent = []" "list_all (passes J cfg) (msgs [] sent)"
        "if killed (pump J cfg now ?y) then ups (outs (pump J cfg now ?y)) = ups (outs ?y) @ sent @ close_up r
         else ups (outs (pump J cfg now ?y)) = ups (outs ?y) @ sent \<and> pending (pump J cfg now ?y) = held
           \<and> hold_inv (pump J cfg now ?y)"
      using pump_flow [OF y, of J cfg now] by blast
    have k: "mode (pump J cfg now ?y) = Ws" "chunks (pump J cfg now ?y) = []" if "\<not> killed (pump J cfg now ?y)"
      using kept_pump [OF that] assms(3) by (simp_all add: kept_def)
    show ?thesis
      unfolding flows_def eq
      by (rule exI [of _ gs], rule exI [of _ sent], rule exI [of _ held], rule exI [of _ "acc (pump J cfg now ?y)"], rule exI [of _ r])
        (use f k in auto)
  qed
qed

lemma onData_flows:
  assumes "\<not> killed st" "hold_inv st" "mode st = Ws"
  shows "flows J (readCfg s) st data (onData J N s data False w st)"
proof (rule recheck_cases [of N "readCfg s" "s_addr s" w st])
  fix t c
  let ?x = "st\<lparr>banCheckAt := t, cache := c\<rparr>"
  assume "recheck N (readCfg s) (s_addr s) w st = (?x, False)"
  then have eq: "onData J N s data False w st = fst (on_frames J (readCfg s) (n_now N w) data ?x)"
    using assms by (simp add: onData_def split_beta Let_def)
  have "hold_inv ?x" using assms(2) by (simp add: hold_inv_def)
  then have "flows J (readCfg s) ?x data (fst (on_frames J (readCfg s) (n_now N w) data ?x))"
    using assms by (intro on_frames_flows) simp_all
  then show ?thesis unfolding eq by (rule flows_rename) simp_all
next
  fix t c assume "recheck N (readCfg s) (s_addr s) w st =
      (violate ''banned'' ''session-cut'' (st\<lparr>banCheckAt := t, cache := c\<rparr>), True)"
  then have "onData J N s data False w st = violate ''banned'' ''session-cut'' (st\<lparr>banCheckAt := t, cache := c\<rparr>)"
    using assms by (simp add: onData_def)
  then show ?thesis using assms by (intro flows_cut) simp_all
qed

text \<open>The segments of a session one after another, each at its own time.\<close>

definition ws_run :: "jsenv \<Rightarrow> 'w nhost \<Rightarrow> session \<Rightarrow> (string \<times> 'w) list \<Rightarrow> ws_state \<Rightarrow> ws_state" where
  "ws_run J N s evs st = foldl (\<lambda>st (data, w). onData J N s data False w st) st evs"

lemma ws_run_simps [simp]:
  "ws_run J N s [] st = st" "ws_run J N s ((d, w) # evs) st = ws_run J N s evs (onData J N s d False w st)"
  by (simp_all add: ws_run_def)

lemma onData_killed [simp]: "killed st \<Longrightarrow> onData J N s d e w st = st"
  by (simp add: onData_def)

lemma ws_run_killed [simp]: "killed st \<Longrightarrow> ws_run J N s evs st = st"
  by (induction evs) auto

lemma ws_run_flows:
  assumes "\<not> killed st" "hold_inv st" "mode st = Ws"
  shows "flows J (readCfg s) st (concat (map fst evs)) (ws_run J N s evs st)"
  using assms
proof (induction evs arbitrary: st)
  case Nil
  then show ?case using on_frames_flows [of st J "readCfg s" "[]"] by (simp add: on_frames_def)
next
  case (Cons e evs)
  obtain d w where e: "e = (d, w)" by fastforce
  let ?st1 = "onData J N s d False w st"
  obtain gs sent held rest r where f: "acc st @ concat (chunks st) @ d = concat gs @ rest" "pending st @ gs = sent @ held"
      "list_all whole_frame gs" "open_parts [] sent = []" "list_all (passes J (readCfg s)) (msgs [] sent)"
      "if killed ?st1 then ups (outs ?st1) = ups (outs st) @ sent @ close_up r
       else ups (outs ?st1) = ups (outs st) @ sent \<and> pending ?st1 = held \<and> rest = acc ?st1 @ concat (chunks ?st1)
         \<and> hold_inv ?st1 \<and> mode ?st1 = Ws"
    using onData_flows [OF Cons.prems, of J s d N w] unfolding flows_def by blast
  show ?case
  proof (cases "killed ?st1")
    case True
    then show ?thesis
      unfolding flows_def
      by (intro exI [of _ gs] exI [of _ sent] exI [of _ held] exI [of _ "rest @ concat (map fst evs)"] exI [of _ r])
        (use f e in \<open>auto simp: append_assoc [symmetric] simp del: append_assoc\<close>)
  next
    case False
    then have "flows J (readCfg s) ?st1 (concat (map fst evs)) (ws_run J N s evs ?st1)"
      using f(6) by (intro Cons.IH) auto
    moreover have "ups (outs ?st1) = ups (outs st) @ sent" "pending ?st1 = held" "acc ?st1 @ concat (chunks ?st1) = rest"
      using f(6) False by simp_all
    ultimately obtain gs' sent' held' rest' r' where g: "rest @ concat (map fst evs) = concat gs' @ rest'"
        "held @ gs' = sent' @ held'" "list_all whole_frame gs'" "open_parts [] sent' = []" "list_all (passes J (readCfg s)) (msgs [] sent')"
        "if killed (ws_run J N s evs ?st1) then ups (outs (ws_run J N s evs ?st1)) = ups (outs st) @ sent @ sent' @ close_up r'
         else ups (outs (ws_run J N s evs ?st1)) = ups (outs st) @ sent @ sent' \<and> pending (ws_run J N s evs ?st1) = held'
           \<and> rest' = acc (ws_run J N s evs ?st1) @ concat (chunks (ws_run J N s evs ?st1))
           \<and> hold_inv (ws_run J N s evs ?st1) \<and> mode (ws_run J N s evs ?st1) = Ws"
      unfolding flows_def append_assoc [symmetric] by (simp only: append_assoc) blast
    have b: "acc st @ concat (chunks st) @ d @ concat (map fst evs) = concat gs @ concat gs' @ rest'"
      using f(1) g(1) by (metis append_assoc)
    have q: "pending st @ gs @ gs' = sent @ sent' @ held'" using f(2) g(2) by (metis append_assoc)
    show ?thesis
      unfolding flows_def
      by (intro exI [of _ "gs @ gs'"] exI [of _ "sent @ sent'"] exI [of _ held'] exI [of _ rest'] exI [of _ r'])
        (use b q f(3-5) g(3-6) e in \<open>simp add: msgs_append open_parts_append\<close>)
  qed
qed

end
