(* ===== verification/Ws_Session.thy ===== *)
theory Ws_Session
  imports Ws_Props
begin

text \<open>
  A whole session of the WebSocket engine, from the first byte of the handshake: what the upstream
  receives in terms of what the client sent, whatever the segments were.
\<close>

section \<open>The search for the end of the handshake\<close>

lemma header_scan_Some:
  "header_scan s i = Some n \<Longrightarrow> i < n \<and> n \<le> length s \<and> header_scan (s @ d) i = Some n"
proof (induction s i rule: header_scan.induct)
  case (1 s i)
  have len: "i + 1 < length s" using 1(3) by (subst (asm) header_scan.simps) (auto split: if_splits)
  have at: "(s @ d) ! j = s ! j" if "j < length s" for j using that by (simp add: nth_append)
  show ?case
  proof (cases "i + 2 < length s")
    case True
    then show ?thesis
      using 1 len
      by (subst header_scan.simps; subst (asm) (3) header_scan.simps) (auto simp: at split: if_splits)
  next
    case False
    then have none: "header_scan s (i + 1) = None" by (subst header_scan.simps) simp
    then have "s ! i = newline \<and> s ! (i + 1) = newline \<and> n = i + 2"
      using 1(3) len False by (subst (asm) header_scan.simps) (auto split: if_splits)
    then show ?thesis using len by (subst header_scan.simps) (auto simp: at)
  qed
qed

text \<open>Scanning from two bytes before the new data finds what a scan of everything finds.\<close>

lemma header_scan_resume:
  assumes "header_scan s i = None" "i \<le> length s - 2"
  shows "header_scan (s @ d) i = header_scan (s @ d) (length s - 2)"
  using assms
proof (induction "length s - 2 - i" arbitrary: i)
  case 0
  then have "i = length s - 2" by linarith
  then show ?case by simp
next
  case (Suc n)
  then have len: "i + 2 < length s" by linarith
  have next_none: "header_scan s (i + 1) = None"
    using Suc.prems(1) len by (subst (asm) header_scan.simps) (auto split: if_splits)
  have "header_scan (s @ d) i = header_scan (s @ d) (i + 1)"
    using Suc.prems(1) len
    by (subst header_scan.simps; subst (asm) header_scan.simps) (auto simp: nth_append split: if_splits)
  also have "\<dots> = header_scan (s @ d) (length s - 2)"
    using Suc.hyps(1) [of "i + 1"] Suc.hyps(2) next_none len by simp
  finally show ?case .
qed

text \<open>The resumed search for the end of the handshake is the full search: as long as the earlier
  segments held no blank line, looking from two bytes before the new segment on finds exactly
  what a scan of the whole buffer would find, even when the line end is split between segments.\<close>

theorem header_resume_complete:
  assumes "headerBlockEnd s 0 = None"
  shows "headerBlockEnd (s @ d) (int (length s) - 2) = headerBlockEnd (s @ d) 0"
  using header_scan_resume [of s 0 d] assms by (simp add: headerBlockEnd_def nat_diff_distrib')

theorem header_resume_complete_witness:
  "headerBlockEnd (''GET'' @ [newline, carriage_return] @ [newline]) 3 = headerBlockEnd (''GET'' @ [newline, carriage_return] @ [newline]) 0
   \<and> headerBlockEnd (''GET'' @ [newline, carriage_return] @ [newline]) 0 = Some 6"
proof -
  have "headerBlockEnd (''GET'' @ [newline, carriage_return]) 0 = None"
    by (simp add: headerBlockEnd_def header_scan.simps)
  from header_resume_complete [OF this, of "[newline]"] show ?thesis
    by (simp add: headerBlockEnd_def header_scan.simps)
qed

section \<open>What the upstream receives\<close>

text \<open>A head: the first header block of what the client sent, with every line ended by CR LF.\<close>

definition is_head :: "string \<Rightarrow> string \<Rightarrow> bool" where
  "is_head D h \<longleftrightarrow> header_scan D 0 = Some (length h) \<and> (\<exists>t. D = h @ t) \<and> \<not> hasBareLf h (length h)"

text \<open>The state of a session that has received \<open>D\<close>, by phase.\<close>

definition session_ok :: "jsenv \<Rightarrow> session \<Rightarrow> string \<Rightarrow> ws_state \<Rightarrow> bool" where
  "session_ok J s D st \<longleftrightarrow>
     (case mode st of
        Handshake \<Rightarrow>
          if killed st then (\<exists>r. ups (outs st) = close_up r)
          else ups (outs st) = [] \<and> hs st = D \<and> hsScanned st = length D \<and> header_scan D 0 = None
            \<and> pending st = [] \<and> msgParts st = [] \<and> chunks st = [] \<and> \<not> inMsg st
      | Ws \<Rightarrow> \<exists>h gs sent held rest r. D = h @ concat gs @ rest \<and> gs = sent @ held \<and> list_all whole_frame gs \<and> open_parts [] sent = []
          \<and> is_head D h \<and> is_upgrade (from_utf8_lossy h) \<and> list_all (passes J (readCfg s)) (msgs [] sent)
          \<and> (if killed st then ups (outs st) = from_utf8_lossy h # sent @ close_up r
             else ups (outs st) = from_utf8_lossy h # sent \<and> pending st = held \<and> rest = acc st @ concat (chunks st)
               \<and> hold_inv st)
      | Plain \<Rightarrow> \<not> killed st \<and> (\<exists>h rest. D = h @ rest \<and> is_head D h \<and> \<not> is_upgrade (from_utf8_lossy h)
          \<and> concat (ups (outs st)) = from_utf8_lossy h @ rest))"

lemma is_head_append: "is_head D h \<Longrightarrow> is_head (D @ d) h"
  using header_scan_Some [of D 0 "length h" d] by (auto simp: is_head_def)

lemma mode_violate [simp]: "mode (violate r d st) = mode st"
  by (simp add: violate_def violate_with_def)

lemma session_ok_mono_killed: "killed st \<Longrightarrow> session_ok J s D st \<Longrightarrow> session_ok J s (D @ d) st"
proof -
  assume k: "killed st" and ok: "session_ok J s D st"
  show ?thesis
  proof (cases "mode st")
    case Ws
    with k ok obtain h gs sent held rest r where w: "D = h @ concat gs @ rest" "gs = sent @ held" "open_parts [] sent = []"
        "list_all whole_frame gs" "is_head D h" "is_upgrade (from_utf8_lossy h)" "list_all (passes J (readCfg s)) (msgs [] sent)"
        "ups (outs st) = from_utf8_lossy h # sent @ close_up r"
      unfolding session_ok_def by auto
    have "D @ d = h @ concat gs @ (rest @ d)" using w(1) by simp
    then show ?thesis
      unfolding session_ok_def Ws ws_mode.case
      by (intro exI [of _ h] exI [of _ gs] exI [of _ sent] exI [of _ held] exI [of _ "rest @ d"] exI [of _ r])
        (use w k is_head_append [OF w(5), of d] in simp)
  qed (use k ok in \<open>auto simp: session_ok_def\<close>)
qed

lemma hasBareLf_take: "n \<le> length s \<Longrightarrow> hasBareLf (take n s) n = hasBareLf s n"
  by (auto simp: hasBareLf_def list_ex_iff)

lemma classify_ok:
  assumes "\<not> killed st" "ups (outs st) = []" "hs st = D" "pending st = []" "msgParts st = []" "chunks st = []" "\<not> inMsg st"
    and n: "header_scan D 0 = Some n" "\<not> hasBareLf D n"
  shows "session_ok J s D (classify J (readCfg s) now n st)"
proof -
  let ?h = "take n D" and ?rest = "drop n D"
  have len: "n \<le> length D" using header_scan_Some [OF n(1)] by simp
  have head: "is_head D ?h"
    using n len by (auto simp: is_head_def hasBareLf_take min_def intro: exI [of _ "drop n D"])
  show ?thesis
  proof (cases "is_upgrade (from_utf8_lossy ?h)")
    case True
    let ?x = "send (from_utf8_lossy ?h) False (st\<lparr>hs := []\<rparr>)\<lparr>mode := Ws, acc := ?rest\<rparr>"
    have c: "classify J (readCfg s) now n st = pump J (readCfg s) now ?x"
      using True assms(3) by (simp add: classify_def Let_def)
    have x: "\<not> killed ?x" "hold_inv ?x" "ups (outs ?x) = [from_utf8_lossy ?h]" "pending ?x = []" "acc ?x = ?rest"
      using assms by (simp_all add: send_def hold_inv_def)
    obtain gs sent held r where f: "gs = sent @ held" "?rest = concat gs @ acc (pump J (readCfg s) now ?x)"
        "list_all whole_frame gs" "open_parts [] sent = []" "list_all (passes J (readCfg s)) (msgs [] sent)"
        "if killed (pump J (readCfg s) now ?x) then ups (outs (pump J (readCfg s) now ?x)) = from_utf8_lossy ?h # sent @ close_up r
         else ups (outs (pump J (readCfg s) now ?x)) = from_utf8_lossy ?h # sent \<and> pending (pump J (readCfg s) now ?x) = held
           \<and> hold_inv (pump J (readCfg s) now ?x)"
      using pump_flow [OF x(1,2), of J "readCfg s" now] unfolding x(3-5) append_Nil append_Cons by blast
    have m: "mode (pump J (readCfg s) now ?x) = Ws" by (rule mode_pump) simp
    have ch: "chunks (pump J (readCfg s) now ?x) = []" if "\<not> killed (pump J (readCfg s) now ?x)"
      using kept_pump [OF that] assms(6) by (simp add: kept_def send_def)
    have D: "D = ?h @ concat gs @ acc (pump J (readCfg s) now ?x)" using f(2) by (metis append_take_drop_id)
    show ?thesis
      unfolding c session_ok_def m ws_mode.case
      by (rule exI [of _ ?h], rule exI [of _ gs], rule exI [of _ sent], rule exI [of _ held],
          rule exI [of _ "acc (pump J (readCfg s) now ?x)"], rule exI [of _ r])
        (use f D head True ch in auto)
  next
    case False
    have "concat (ups (outs (classify J (readCfg s) now n st))) = from_utf8_lossy ?h @ ?rest"
        "mode (classify J (readCfg s) now n st) = Plain" "\<not> killed (classify J (readCfg s) now n st)"
      using False assms(1-3) by (auto simp: classify_def send_def Let_def)
    moreover have "\<exists>h rest. D = h @ rest \<and> is_head D h \<and> \<not> is_upgrade (from_utf8_lossy h)
        \<and> from_utf8_lossy ?h @ ?rest = from_utf8_lossy h @ rest"
      by (rule exI [of _ ?h], rule exI [of _ ?rest]) (use head False in simp)
    ultimately show ?thesis unfolding session_ok_def by simp
  qed
qed

lemma mode_onData_Ws: "mode st = Ws \<Longrightarrow> mode (onData J N s d e w st) = Ws"
  by (rule recheck_cases [of N "readCfg s" "s_addr s" w st])
    (simp_all add: onData_def on_frames_def send_def mode_pump Let_def split_beta)

lemma session_step_Ws:
  assumes ok: "session_ok J s D st" and Ws: "mode st = Ws" and k: "\<not> killed st"
  shows "session_ok J s (D @ d) (onData J N s d False w st)"
proof -
  let ?st = "onData J N s d False w st"
  obtain h gs sent held rest where w: "D = h @ concat gs @ rest" "gs = sent @ held" "open_parts [] sent = []"
      "is_head D h" "is_upgrade (from_utf8_lossy h)" "list_all (passes J (readCfg s)) (msgs [] sent)"
      "ups (outs st) = from_utf8_lossy h # sent" "pending st = held" "rest = acc st @ concat (chunks st)" "hold_inv st"
      "list_all whole_frame gs"
    using ok k unfolding session_ok_def Ws ws_mode.case by auto
  obtain gs' sent' held' rest' r where f: "acc st @ concat (chunks st) @ d = concat gs' @ rest'"
      "pending st @ gs' = sent' @ held'" "list_all whole_frame gs'" "open_parts [] sent' = []" "list_all (passes J (readCfg s)) (msgs [] sent')"
      "if killed ?st then ups (outs ?st) = ups (outs st) @ sent' @ close_up r
       else ups (outs ?st) = ups (outs st) @ sent' \<and> pending ?st = held' \<and> rest' = acc ?st @ concat (chunks ?st)
         \<and> hold_inv ?st \<and> mode ?st = Ws"
    using onData_flows [OF k w(10) Ws, of J s d N w] unfolding flows_def by blast
  have D: "D @ d = h @ concat (gs @ gs') @ rest'" using f(1) w(1,9) by simp
  have q: "gs @ gs' = (sent @ sent') @ held'" using f(2) w(2,8) by simp
  have wh: "list_all whole_frame (gs @ gs')" using w(11) f(3) by simp
  show ?thesis
    unfolding session_ok_def mode_onData_Ws [OF Ws] ws_mode.case
    by (rule exI [of _ h], rule exI [of _ "gs @ gs'"], rule exI [of _ "sent @ sent'"], rule exI [of _ held'],
        rule exI [of _ rest'], rule exI [of _ r])
      (use D q wh [unfolded q] w(3-7) f(4-6) is_head_append [OF w(4), of d] in \<open>simp add: open_parts_append msgs_append\<close>)
qed

lemma session_cut_Handshake:
  assumes "mode x = Handshake" "\<not> killed x" "ups (outs x) = []"
  shows "session_ok J s D (violate r d x)"
  using assms ups_violate [of x r d] by (auto simp: session_ok_def)

lemma handshake_ok:
  assumes "mode x = Handshake" "session_ok J s D x" "\<not> killed x"
  shows "session_ok J s (D @ d) (fst (on_handshake J (readCfg s) now d x))"
proof -
  have x: "ups (outs x) = []" "hs x = D" "hsScanned x = length D" "header_scan D 0 = None" "pending x = []"
      "msgParts x = []" "chunks x = []" "\<not> inMsg x"
    using assms by (simp_all add: session_ok_def)
  have scan: "headerBlockEnd (D @ d) (int (length D) - 2) = header_scan (D @ d) 0"
    using header_scan_resume [of D 0 d] x(4) by (simp add: headerBlockEnd_def nat_diff_distrib')
  let ?x = "x\<lparr>hsReads := hsReads x + 1, hs := D @ d, hsScanned := length (D @ d)\<rparr>"
  show ?thesis
  proof (cases "d = [] \<or> of_nat (hsReads x + 1) > maxHsReads (readCfg s) \<or> length (D @ d) > MAX_HANDSHAKE")
    case True
    then show ?thesis
      using assms x by (auto simp: on_handshake_def Let_def intro!: session_cut_Handshake)
  next
    case False
    show ?thesis
    proof (cases "header_scan (D @ d) 0")
      case None
      then have "fst (on_handshake J (readCfg s) now d x) = ?x"
        using False x by (simp add: on_handshake_def Let_def scan)
      then show ?thesis using assms x None by (simp add: session_ok_def)
    next
      case (Some n)
      show ?thesis
      proof (cases "hasBareLf (D @ d) n")
        case True
        then have "fst (on_handshake J (readCfg s) now d x) = violate ''protocol'' ''bare-lf-in-handshake'' ?x"
          using False x Some by (simp add: on_handshake_def Let_def scan)
        then show ?thesis using assms x by (auto intro: session_cut_Handshake)
      next
        case bare: False
        then have "fst (on_handshake J (readCfg s) now d x) = classify J (readCfg s) now n ?x"
          using False x Some by (simp add: on_handshake_def Let_def scan)
        then show ?thesis
          using assms x Some bare by (auto intro: classify_ok)
      qed
    qed
  qed
qed

lemma session_step:
  assumes ok: "session_ok J s D st"
  shows "session_ok J s (D @ d) (onData J N s d False w st)"
proof (cases "killed st")
  case True
  then show ?thesis using session_ok_mono_killed [OF True ok] by simp
next
  case k: False
  show ?thesis
  proof (cases "mode st")
    case Ws
    then show ?thesis by (rule session_step_Ws [OF ok _ k])
  next
    case Plain
    then have "onData J N s d False w st = send d False st"
      using k by (simp add: onData_def recheck_def)
    moreover obtain h rest where "D = h @ rest" "is_head D h" "\<not> is_upgrade (from_utf8_lossy h)"
        "concat (ups (outs st)) = from_utf8_lossy h @ rest"
      using ok Plain by (auto simp: session_ok_def)
    then have "\<exists>h rest'. D @ d = h @ rest' \<and> is_head (D @ d) h \<and> \<not> is_upgrade (from_utf8_lossy h)
        \<and> concat (ups (outs st)) @ d = from_utf8_lossy h @ rest'"
      using is_head_append [of D h d] by (intro exI [of _ h] exI [of _ "rest @ d"]) simp
    ultimately show ?thesis using k Plain by (simp add: session_ok_def send_def)
  next
    case Handshake
    show ?thesis
    proof (rule recheck_cases [of N "readCfg s" "s_addr s" w st])
      fix t c
      let ?x = "st\<lparr>banCheckAt := t, cache := c\<rparr>"
      assume "recheck N (readCfg s) (s_addr s) w st = (?x, False)"
      then have eq: "onData J N s d False w st = fst (on_handshake J (readCfg s) (n_now N w) d ?x)"
        using k Handshake by (simp add: onData_def split_beta Let_def)
      have "session_ok J s D ?x" using ok k Handshake by (simp add: session_ok_def)
      then show ?thesis unfolding eq using k Handshake by (intro handshake_ok) simp_all
    next
      fix t c
      let ?x = "st\<lparr>banCheckAt := t, cache := c\<rparr>"
      assume "recheck N (readCfg s) (s_addr s) w st = (violate ''banned'' ''session-cut'' ?x, True)"
      then have eq: "onData J N s d False w st = violate ''banned'' ''session-cut'' ?x"
        using k by (simp add: onData_def)
      show ?thesis unfolding eq using ok k Handshake by (intro session_cut_Handshake) (simp_all add: session_ok_def)
    qed
  qed
qed

lemma session_run: "session_ok J s D st \<Longrightarrow> session_ok J s (D @ concat (map fst evs)) (ws_run J N s evs st)"
proof (induction evs arbitrary: D st)
  case (Cons e evs)
  then show ?case using session_step [OF Cons.prems] Cons.IH by (cases e) (fastforce simp del: append_assoc simp: append_assoc [symmetric])
qed simp

lemma session_ok_init: "session_ok J s [] (filter_init s now)"
  by (simp add: session_ok_def filter_init_def Let_def header_scan.simps)


end
