(* ===== verification/Ws_Frames.thy ===== *)
theory Ws_Frames
  imports Ws_Props
begin

text \<open>
  The frames the WebSocket engine writes, read back by the frame layout its parser uses: the masked
  frames it puts on the upstream's side carry exactly the payload they were made of.
\<close>

section \<open>The two header bytes\<close>

lemma low_bits: "n < 128 \<Longrightarrow> (n OR 128) AND 127 = (n::nat)"
proof -
  assume "n < 128"
  have "(127::nat) = mask 7" by (simp add: mask_eq_exp_minus_1)
  then have "(n OR 128) AND 127 = take_bit 7 (n OR 128)" by (simp only: take_bit_eq_mask)
  also have "\<dots> = take_bit 7 n OR take_bit 7 128" by simp
  also have "\<dots> = n" using \<open>n < 128\<close> by (simp add: take_bit_nat_eq_self)
  finally show ?thesis .
qed

lemma high_bit: "(n OR 128) AND 128 \<noteq> (0::nat)"
proof
  assume "(n OR 128) AND 128 = (0::nat)"
  then have "bit ((n OR 128) AND 128) 7 = bit (0::nat) 7" by simp
  then show False by (simp add: bit_simps)
qed

lemma or_128:
  assumes "n < 128"
  shows "n OR 128 = (n + 128 :: nat)"
proof -
  have "n AND 128 = 0"
  proof (rule bit_eqI)
    fix k
    have "\<not> bit n k" if "bit (128 :: nat) k"
    proof -
      have "bit (2 ^ 7 :: nat) k" using that by simp
      then have "k = 7" unfolding bit_exp_iff by simp
      then show ?thesis using assms by (simp add: bit_iff_odd)
    qed
    then show "bit (n AND 128) k = bit 0 k" by (auto simp: bit_simps)
  qed
  then show ?thesis by (simp add: disjunctive_add_eq_or)
qed

lemma byte_of [simp]: "byte (byte_of n) = n mod 256"
  by (simp add: byte_of_def)

lemma first_byte:
  assumes "opc < (16 :: nat)"
  shows "(128 OR opc) mod 256 = 128 OR opc" "(128 OR opc) AND 0x80 \<noteq> 0" "(128 OR opc) AND 0x70 = 0" "(128 OR opc) AND 0x0F = opc"
proof -
  have "list_all (\<lambda>n. (128 OR n) mod 256 = 128 OR n \<and> (128 OR n) AND 0x80 \<noteq> 0 \<and> (128 OR n) AND 0x70 = 0 \<and> (128 OR n) AND 0x0F = n)
      [0..<16::nat]"
    by code_simp
  then show "(128 OR opc) mod 256 = 128 OR opc" "(128 OR opc) AND 0x80 \<noteq> 0" "(128 OR opc) AND 0x70 = 0" "(128 OR opc) AND 0x0F = opc"
    using assms by (simp_all only: list_all_iff set_upt) auto
qed

lemma unmask_zero: "unmask (replicate 4 (byte_of 0)) p = p"
  by (auto simp: unmask_def xor_char_def byte_of_def intro!: nth_equalityI)

lemma byte_at_Cons [simp]: "byte_at (c # s) 0 = byte c" "byte_at (c # s) (Suc i) = byte_at s i"
  by (simp_all add: byte_at_def)

section \<open>Writing and reading a frame\<close>

text \<open>C28. A masked frame that the engine writes is one well-formed client frame: whole, final, with the opcode
  and the payload it was made of, in the short and in the 16-bit length form.\<close>

theorem ws_frame_roundtrip:
  assumes "wsFrame opc payload True = Some f" "opc < 16"
  shows "whole_frame f \<and> fin_of f \<and> op_of f = opc \<and> payload_of f = payload"
proof -
  note b = first_byte [OF assms(2)]
  let ?n = "length payload"
  show ?thesis
  proof (cases "?n < 126")
    case True
    then have f: "f = byte_of (128 OR opc) # byte_of (?n OR 128) # replicate 4 (byte_of 0) @ payload"
      using assms(1) by (simp add: wsFrame_def Let_def)
    have "byte_at f 0 = (128 OR opc)" "byte_at f 1 = (?n OR 128)"
      using b(1) True or_128 [of ?n] by (simp_all add: f)
    then show ?thesis
      using b True low_bits [of ?n] high_bit [of ?n] unmask_zero [of payload]
      by (simp add: whole_frame_def fin_of_def op_of_def payload_of_def off_of_def len_of_def f)
  next
    case False
    then have n: "?n < 65536" and f: "f = byte_of (128 OR opc) # byte_of (126 OR 128) # byte_of (?n div 256) # byte_of (?n mod 256) #
        replicate 4 (byte_of 0) @ payload"
      using assms(1) by (simp_all add: wsFrame_def Let_def split: if_splits)
    have "byte_at f 0 = (128 OR opc)" "byte_at f 1 = 254"
      using b(1) by (simp_all add: f)
    moreover have "be f 2 2 = ?n" using n by (simp add: be_def f numeral_2_eq_2)
    ultimately show ?thesis
      using b n unmask_zero [of payload]
      by (simp add: whole_frame_def fin_of_def op_of_def payload_of_def off_of_def len_of_def) (simp add: f)
  qed
qed

theorem ws_frame_roundtrip_witness: "payload_of (map char_of [0x88::nat, 0x82, 0, 0, 0, 0, 3, 240]) = map char_of [3 :: nat, 240]"
proof -
  have "wsFrame OP_CLOSE (map char_of [3 :: nat, 240]) True = Some (map char_of [0x88::nat, 0x82, 0, 0, 0, 0, 3, 240])"
    by code_simp
  from ws_frame_roundtrip [OF this] show ?thesis by (simp add: OP_CLOSE_def)
qed

end
