(* ===== verification/Ws_Bounds.thy ===== *)
theory Ws_Bounds
  imports Ws_Session
begin

text \<open>
  What a client can make the WebSocket engine hold and pass on: the buffers and the subscriptions
  of a session are bounded by the configuration, and so is the rate of its messages.
\<close>

section \<open>The subscriptions\<close>

definition subs_ok :: "ws_cfg \<Rightarrow> ws_state \<Rightarrow> bool" where
  "subs_ok cfg st \<longleftrightarrow> distinct (subs st) \<and> subCount st = length (subs st) \<and> subCount st \<le> nat \<lceil>maxSubs cfg\<rceil>"

lemma below_ceiling: "of_nat n < (x::rat) \<Longrightarrow> Suc n \<le> nat \<lceil>x\<rceil>"
  by (metis Suc_leI ceiling_of_nat less_ceiling_iff nat_int of_int_of_nat_eq zless_nat_conj zless_nat_eq_int_zless)

interpretation keeps_subs: session_frame J cfg "subs_ok cfg" for J cfg
proof (unfold_locales, goal_cases)
  case (4 st sid)
  then show ?case
    by (auto simp: open_sub_def subs_ok_def violate_def violate_with_def below_ceiling not_le)
next
  case (5 st v)
  then show ?case
    by (auto simp: close_sub_def subs_ok_def distinct_remove1_removeAll [symmetric] length_remove1 split: option.split jval.split)
qed (simp_all add: subs_ok_def violate_def violate_with_def)

lemma subs_ok_cong: "subs st' = subs st \<Longrightarrow> subCount st' = subCount st \<Longrightarrow> subs_ok cfg st' = subs_ok cfg st"
  by (simp add: subs_ok_def)

section \<open>The hold queue and the open message\<close>

text \<open>At most 14 bytes of a frame are not payload, and a control frame has 125 more.\<close>

definition queue_ok :: "ws_cfg \<Rightarrow> ws_state \<Rightarrow> bool" where
  "queue_ok cfg st \<longleftrightarrow> length (pending st) \<le> MAX_PENDING_FRAMES \<and> length (msgParts st) \<le> MAX_FRAGMENTS
     \<and> length (concat (msgParts st)) = msgLen st \<and> msgLen st \<le> nat \<lfloor>maxMsg cfg\<rfloor>
     \<and> length (concat (pending st)) \<le> msgLen st + 139 * length (pending st)"

lemma queue_ok_end:
  assumes "\<not> killed (end_message J cfg now st)"
  shows "queue_ok cfg (end_message J cfg now st)"
proof -
  let ?st = "st\<lparr>msgParts := [], msgLen := 0, msgReads := 0\<rparr>"
  let ?x = "inspect J cfg now (concat (msgParts st)) ?st"
  have k: "\<not> killed ?x" using assms by (auto simp: end_message_def Let_def)
  have r: "restore ?st ?x = ?st" using judged_pass [OF inspect_judged k] .
  show ?thesis
    using k arg_cong [OF r, of msgParts] arg_cong [OF r, of msgLen]
    by (simp add: end_message_def Let_def queue_ok_def)
qed

lemma subs_ok_end: "subs_ok cfg st \<Longrightarrow> subs_ok cfg (end_message J cfg now st)"
  using keeps_subs.on_inspect [of cfg "st\<lparr>msgParts := [], msgLen := 0, msgReads := 0\<rparr>" J now "concat (msgParts st)"]
  by (simp add: end_message_def Let_def subs_ok_def)

lemma subs_ok_take_frame: "subs_ok cfg st \<Longrightarrow> subs_ok cfg (take_frame J cfg now fin opc len off st)"
  by (auto simp: take_frame_def Let_def intro!: subs_ok_end)
    (simp_all add: subs_ok_def violate_def violate_with_def)

lemma subs_ok_pump: "subs_ok cfg st \<Longrightarrow> subs_ok cfg (pump J cfg now st)"
proof (induction st rule: pump_induct [of _ J cfg now])
  case (frame st fin opc len off)
  then show ?case by (simp add: pump_Frame subs_ok_take_frame)
qed (simp_all add: pump_cases subs_ok_def violate_def violate_with_def)

lemma length_unmask [simp]: "length (unmask key p) = length p"
  by (simp add: unmask_def)

lemma off_of_le: "off_of s \<le> 10"
  by (simp add: off_of_def Let_def)

lemma floor_room: "of_nat n \<le> (x::rat) \<Longrightarrow> n \<le> nat \<lfloor>x\<rfloor>"
  by (metis le_floor_iff nat_int nat_mono of_int_of_nat_eq)

lemma queue_ok_take_frame:
  assumes q: "queue_ok cfg st" and hd: "frame_header J cfg st = Frame fin opc len off"
    and k: "\<not> killed (take_frame J cfg now fin opc len off st)"
  shows "queue_ok cfg (take_frame J cfg now fin opc len off st)"
proof -
  note d = frame_header_decode [OF hd] and fits = frame_header_fits [OF hd]
  have off: "off \<le> 10" using d(3) off_of_le by simp
  let ?raw = "take (off + 4 + len) (acc st)"
  have raw: "length ?raw = off + 4 + len" using fits by simp
  have pay: "length (take len (drop (off + 4) (acc st))) = len" using fits by simp
  have data: "msgLen st + len \<le> nat \<lfloor>maxMsg cfg\<rfloor>" if "opc < 8"
    using d(4) that floor_room [of "msgLen st + len" "maxMsg cfg"] by simp
  show ?thesis
  proof (cases "opc \<ge> 8")
    case True
    then show ?thesis
      using k q raw off d(4) by (auto simp: take_frame_def Let_def queue_ok_def split: if_splits)
  next
    case False
    then show ?thesis
      using k q raw off pay data by (auto simp: take_frame_def Let_def queue_ok_end split: if_splits) (auto simp: queue_ok_def)
  qed
qed

lemma queue_ok_pump: "queue_ok cfg st \<Longrightarrow> \<not> killed (pump J cfg now st) \<Longrightarrow> queue_ok cfg (pump J cfg now st)"
proof (induction st rule: pump_induct [of _ J cfg now])
  case (frame st fin opc len off)
  then have k: "\<not> killed (take_frame J cfg now fin opc len off st)" by (metis pump_Frame pump_killed)
  then show ?case
    using frame queue_ok_take_frame [OF frame.prems(1) frame.hyps(2) k] by (simp add: pump_Frame)
qed (simp_all add: pump_cases queue_ok_def)

section \<open>The bytes waited for\<close>

definition room :: "ws_cfg \<Rightarrow> nat" where
  "room cfg = 14 + max 125 (nat \<lfloor>maxMsg cfg\<rfloor>)"

lemma check_frame_room: "check_frame J cfg st fin opc len off = Need n \<Longrightarrow> off \<le> 10 \<Longrightarrow> n \<le> room cfg"
  using floor_room [of "msgLen st + len" "maxMsg cfg"]
  by (auto simp: check_frame_def Let_def room_def split: if_splits)

lemma frame_header_room: "frame_header J cfg st = Need n \<Longrightarrow> n \<le> room cfg"
  by (auto simp: frame_header_def Let_def dest: check_frame_room split: if_splits) (simp_all add: room_def)

text \<open>The bounds on a session that has not been cut.\<close>

definition bounded :: "ws_cfg \<Rightarrow> ws_state \<Rightarrow> bool" where
  "bounded cfg st \<longleftrightarrow> length (hs st) \<le> MAX_HANDSHAKE \<and> queue_ok cfg st \<and> pendingLen st = length (concat (chunks st))
     \<and> length (acc st) + pendingLen st < need st \<and> need st \<le> room cfg"

lemma bounded_cong:
  assumes "bounded cfg st" "hs x = hs st" "pending x = pending st" "msgParts x = msgParts st" "msgLen x = msgLen st"
    "chunks x = chunks st" "pendingLen x = pendingLen st" "acc x = acc st" "need x = need st"
  shows "bounded cfg x"
  using assms by (simp add: bounded_def queue_ok_def)

lemma bounded_pump:
  assumes "queue_ok cfg st" "length (hs st) \<le> MAX_HANDSHAKE" "chunks st = []" "pendingLen st = 0"
    "\<not> killed (pump J cfg now st)"
  shows "bounded cfg (pump J cfg now st)"
proof -
  have s: "frame_header J cfg (pump J cfg now st) = Need (need (pump J cfg now st))"
      "length (acc (pump J cfg now st)) < need (pump J cfg now st)"
    using pump_rest [of J cfg now st] assms(5) by (simp_all add: Let_def)
  show ?thesis
    using s(2) frame_header_room [OF s(1)] queue_ok_pump [OF assms(1,5)] kept_pump [OF assms(5)] assms(2-4)
    by (simp add: bounded_def kept_def)
qed

lemma bounded_on_frames:
  assumes "bounded cfg st" "\<not> killed (fst (on_frames J cfg now d st))"
  shows "bounded cfg (fst (on_frames J cfg now d st))"
  using assms
  by (auto simp: on_frames_def Let_def intro!: bounded_pump split: if_splits) (auto simp: bounded_def queue_ok_def)

lemma bounded_classify:
  assumes "bounded cfg st" "chunks st = []" "\<not> killed (classify J cfg now n st)"
  shows "bounded cfg (classify J cfg now n st)"
proof (cases "is_upgrade (from_utf8_lossy (take n (hs st)))")
  case True
  then show ?thesis
    using assms by (auto simp: classify_def Let_def send_def bounded_def [of _ st] queue_ok_def intro!: bounded_pump)
next
  case False
  then show ?thesis
    using assms(1) by (auto simp: classify_def Let_def send_def bounded_def queue_ok_def)
qed

lemma bounded_on_handshake:
  assumes "bounded cfg st" "chunks st = []" "\<not> killed (fst (on_handshake J cfg now d st))"
  shows "bounded cfg (fst (on_handshake J cfg now d st))"
proof -
  let ?x = "st\<lparr>hsReads := hsReads st + 1, hs := hs st @ d, hsScanned := length (hs st @ d)\<rparr>"
  have x: "bounded cfg ?x" if "length (hs st @ d) \<le> MAX_HANDSHAKE" using assms(1) that by (simp add: bounded_def queue_ok_def)
  show ?thesis
    using assms x
    by (auto simp: on_handshake_def Let_def intro!: bounded_classify split: if_splits option.splits)
qed

lemma chunks_Handshake: "session_ok J s D st \<Longrightarrow> mode st = Handshake \<Longrightarrow> \<not> killed st \<Longrightarrow> chunks st = []"
  by (simp add: session_ok_def)

lemma bounded_onData:
  assumes "bounded (readCfg s) st" "session_ok J s D st" "\<not> killed (onData J N s d False w st)"
  shows "bounded (readCfg s) (onData J N s d False w st)"
proof (rule recheck_cases [of N "readCfg s" "s_addr s" w st])
  fix t c
  let ?x = "st\<lparr>banCheckAt := t, cache := c\<rparr>"
  assume r: "recheck N (readCfg s) (s_addr s) w st = (?x, False)"
  have k: "\<not> killed st" using assms(3) by auto
  have x: "bounded (readCfg s) ?x" by (rule bounded_cong [OF assms(1)]) simp_all
  have ch: "mode st = Handshake \<Longrightarrow> chunks ?x = []" using chunks_Handshake [OF assms(2)] k by simp
  show ?thesis
  proof (cases "mode st")
    case Handshake
    then have eq: "onData J N s d False w st = fst (on_handshake J (readCfg s) (n_now N w) d ?x)"
      using r k by (simp add: onData_def split_beta Let_def)
    show ?thesis using bounded_on_handshake [OF x ch [OF Handshake]] assms(3) unfolding eq .
  next
    case Plain
    then show ?thesis
      using r k x by (auto simp: onData_def send_def intro!: bounded_cong [OF x])
  next
    case Ws
    then have eq: "onData J N s d False w st = fst (on_frames J (readCfg s) (n_now N w) d ?x)"
      using r k by (simp add: onData_def split_beta Let_def)
    show ?thesis using bounded_on_frames [OF x] assms(3) unfolding eq .
  qed
next
  fix t c assume "recheck N (readCfg s) (s_addr s) w st =
      (violate ''banned'' ''session-cut'' (st\<lparr>banCheckAt := t, cache := c\<rparr>), True)"
  then show ?thesis using assms(3) by (simp add: onData_def split: if_splits)
qed

lemma subs_ok_on_frames: "subs_ok cfg st \<Longrightarrow> subs_ok cfg (fst (on_frames J cfg now d st))"
  by (auto simp: on_frames_def Let_def intro!: subs_ok_pump) (simp_all add: subs_ok_def violate_def violate_with_def)

lemma subs_ok_on_handshake: "subs_ok cfg st \<Longrightarrow> subs_ok cfg (fst (on_handshake J cfg now d st))"
  by (auto simp: on_handshake_def classify_def Let_def intro!: subs_ok_pump split: option.split)
    (simp_all add: subs_ok_def violate_def violate_with_def send_def)

lemma subs_ok_onData:
  assumes "subs_ok (readCfg s) st"
  shows "subs_ok (readCfg s) (onData J N s d False w st)"
proof (cases "killed st")
  case False
  show ?thesis
  proof (rule recheck_cases [of N "readCfg s" "s_addr s" w st])
    fix t c
    let ?x = "st\<lparr>banCheckAt := t, cache := c\<rparr>"
    assume r: "recheck N (readCfg s) (s_addr s) w st = (?x, False)"
    have x: "subs_ok (readCfg s) ?x" using assms by (simp add: subs_ok_def)
    then show ?thesis
      using r False subs_ok_on_handshake [OF x, of J "n_now N w" d] subs_ok_on_frames [OF x, of J "n_now N w" d]
      by (simp add: onData_def split_beta Let_def) (simp add: send_def subs_ok_def)
  next
    fix t c assume "recheck N (readCfg s) (s_addr s) w st =
        (violate ''banned'' ''session-cut'' (st\<lparr>banCheckAt := t, cache := c\<rparr>), True)"
    then show ?thesis using assms False by (simp add: onData_def subs_ok_def violate_def violate_with_def)
  qed
qed (use assms in simp)

lemma bounded_run:
  assumes "subs_ok (readCfg s) st" "session_ok J s D st" "killed st \<or> bounded (readCfg s) st"
  shows "subs_ok (readCfg s) (ws_run J N s evs st)
    \<and> (killed (ws_run J N s evs st) \<or> bounded (readCfg s) (ws_run J N s evs st))"
  using assms
proof (induction evs arbitrary: D st)
  case (Cons e evs)
  obtain d w where e: "e = (d, w)" by fastforce
  have "killed (onData J N s d False w st) \<or> bounded (readCfg s) (onData J N s d False w st)"
    using Cons.prems(3) bounded_onData [OF _ Cons.prems(2), of N d w] by (cases "killed st") auto
  then show ?case
    using Cons.IH [OF subs_ok_onData [OF Cons.prems(1)] session_step [OF Cons.prems(2)]] by (simp add: e)
qed simp

text \<open>C19. What a client can make a session hold: never more subscriptions than configured, each once; and as
  long as the session lives at most 16 KiB of handshake, 256 held frames, 64 fragments, an open
  message within the configured size, held frames of that size plus 139 bytes each, and of
  unparsed bytes less than one frame of the largest size.\<close>

theorem session_bounded:
  "let st = ws_run J N s evs (filter_init s now); cfg = readCfg s in
     distinct (subs st) \<and> subCount st = length (subs st) \<and> length (subs st) \<le> nat \<lceil>maxSubs cfg\<rceil>
     \<and> (killed st
        \<or> length (hs st) \<le> 16384 \<and> length (pending st) \<le> 256 \<and> length (msgParts st) \<le> 64
          \<and> length (concat (msgParts st)) = msgLen st \<and> msgLen st \<le> nat \<lfloor>maxMsg cfg\<rfloor>
          \<and> length (concat (pending st)) \<le> msgLen st + 139 * length (pending st)
          \<and> length (acc st) + length (concat (chunks st)) < 14 + max 125 (nat \<lfloor>maxMsg cfg\<rfloor>))"
proof -
  have "bounded (readCfg s) (filter_init s now)" "subs_ok (readCfg s) (filter_init s now)"
    by (simp_all add: filter_init_def Let_def bounded_def queue_ok_def subs_ok_def room_def)
  then show ?thesis
    using bounded_run [OF _ session_ok_init, of s now J N evs]
    by (auto simp: Let_def subs_ok_def bounded_def queue_ok_def room_def MAX_HANDSHAKE_def MAX_PENDING_FRAMES_def MAX_FRAGMENTS_def)
qed

section \<open>The rate of messages\<close>

text \<open>The messages the upstream has received whole; the head in front of the frames is not one, and
  neither is a close frame.\<close>

definition sent_msgs :: "ws_state \<Rightarrow> nat" where
  "sent_msgs st = (if mode st = Ws then length (msgs [] (tl (ups (outs st)))) else 0)"

definition credit :: "rat \<Rightarrow> rat \<Rightarrow> nat \<Rightarrow> nat \<Rightarrow> rat" where
  "credit rate burst t0 t = burst + rate * (of_int (int t - int t0) / 1000)"

text \<open>The bucket of a session that started at \<open>t0\<close>, after \<open>n\<close> tokens, at time \<open>t\<close>.\<close>

definition bucket_ok :: "rat \<Rightarrow> rat \<Rightarrow> nat \<Rightarrow> nat \<Rightarrow> nat \<Rightarrow> token_bucket \<Rightarrow> bool" where
  "bucket_ok rate burst t0 t n b \<longleftrightarrow> b_rate b = rate \<and> b_burst b = burst \<and> 0 \<le> b_tokens b \<and> b_t b \<le> t
     \<and> of_nat n + b_tokens b \<le> credit rate burst t0 (b_t b)"

definition rated :: "rat \<Rightarrow> rat \<Rightarrow> nat \<Rightarrow> nat \<Rightarrow> ws_state \<Rightarrow> bool" where
  "rated rate burst t0 t st \<longleftrightarrow> bucket_ok rate burst t0 t (sent_msgs st) (bMsg st)"

lemma bucket_ok_later: "bucket_ok rate burst t0 t n b \<Longrightarrow> t \<le> t' \<Longrightarrow> n' \<le> n \<Longrightarrow> bucket_ok rate burst t0 t' n' b"
  by (auto simp: bucket_ok_def intro: order_trans [OF add_right_mono])

lemma takeToken_ok:
  assumes b: "bucket_ok rate burst t0 t n b" and pos: "0 \<le> rate" "0 \<le> burst" and take: "takeToken t b = (ok, b')"
  shows "bucket_ok rate burst t0 t (if ok then Suc n else n) b'"
proof -
  let ?gain = "(of_int (int t - int (b_t b)) / 1000) * rate"
  obtain x where x: "x = min burst (b_tokens b + ?gain)" by blast
  have b': "b' = b\<lparr>b_tokens := (if ok then x - 1 else x), b_t := t\<rparr>" and ok: "ok \<longleftrightarrow> 1 \<le> x"
    using take b unfolding takeToken_def Let_def bucket_ok_def x by (auto split: if_splits)
  have "0 \<le> ?gain" using b pos by (simp add: bucket_ok_def)
  then have "0 \<le> x" using b pos x by (simp add: bucket_ok_def)
  have "credit rate burst t0 t = credit rate burst t0 (b_t b) + ?gain"
    by (simp add: credit_def field_simps)
  moreover have "x \<le> b_tokens b + ?gain" using x by simp
  ultimately have "of_nat n + x \<le> credit rate burst t0 t" using b unfolding bucket_ok_def by linarith
  with \<open>0 \<le> x\<close> show ?thesis using b ok by (auto simp: b' bucket_ok_def)
qed

text \<open>The bucket after a frame, and the messages it completes.\<close>

lemma bMsg_subs [simp]: "bMsg (open_sub J cfg sid st) = bMsg st" "bMsg (close_sub v st) = bMsg st" "bMsg (violate r d st) = bMsg st"
  by (simp_all add: open_sub_def close_sub_def violate_def violate_with_def split: option.split jval.split)

lemma bMsg_parts [simp]:
  "bMsg (inspect_query J cfg now sid filters opens st) = bMsg st" "bMsg (inspect_event J cfg now ev st) = bMsg st"
  "bMsg (inspect_auth now st) = bMsg st"
  by (simp_all add: Let_def inspect_query_def inspect_event_def inspect_auth_def
      split: prod.split bool.split option.split jval.split)

lemma bMsg_inspect: "bMsg (inspect J cfg now buf st) = snd (takeToken now (bMsg st))"
  unfolding inspect_def Let_def
  by (cases "takeToken now (bMsg st)") (simp split: bool.split option.split jval.split list.split)

lemma inspect_token: "\<not> killed (inspect J cfg now buf st) \<Longrightarrow> fst (takeToken now (bMsg st))"
  by (auto simp: inspect_def split: prod.splits bool.splits)

lemma bMsg_end_message:
  "bMsg (end_message J cfg now st) = snd (takeToken now (bMsg st))"
  "\<not> killed (end_message J cfg now st) \<Longrightarrow> fst (takeToken now (bMsg st))"
proof -
  let ?st = "st\<lparr>msgParts := [], msgLen := 0, msgReads := 0\<rparr>"
  show "bMsg (end_message J cfg now st) = snd (takeToken now (bMsg st))"
    by (simp add: end_message_def Let_def bMsg_inspect flush_def)
  assume "\<not> killed (end_message J cfg now st)"
  then have "\<not> killed (inspect J cfg now (concat (msgParts st)) ?st)" by (auto simp: end_message_def Let_def)
  from inspect_token [OF this] show "fst (takeToken now (bMsg st))" by simp
qed

lemma bMsg_take_frame:
  "bMsg (take_frame J cfg now fin opc len off st) = bMsg st
   \<or> bMsg (take_frame J cfg now fin opc len off st) = snd (takeToken now (bMsg st)) \<and> opc < 8 \<and> fin"
  by (auto simp: take_frame_def Let_def bMsg_end_message(1)) (simp_all add: flush_def)

lemma token_take_frame:
  "\<not> killed (take_frame J cfg now fin opc len off st) \<Longrightarrow> opc < 8 \<Longrightarrow> fin \<Longrightarrow>
     takeToken now (bMsg st) = (True, bMsg (take_frame J cfg now fin opc len off st))"
  by (auto simp: take_frame_def Let_def prod_eq_iff bMsg_end_message(1) dest!: bMsg_end_message(2) split: if_splits)

lemma close_up_cases: "close_up r = [] \<or> (\<exists>f. close_up r = [f] \<and> op_of f = 8)"
proof -
  have "(128 OR 8::nat) = 136" by simp
  then show ?thesis
    by (auto simp: close_up_def closeFrame_def frames_def wsFrame_def op_of_def byte_at_def byte_of_def OP_CLOSE_def Let_def)
qed

lemma msgs_close: "msgs ps (fs @ close_up r) = msgs ps fs"
  using close_up_cases [of r] by (auto simp: msgs_append)

lemma msgs_queue: "hold_inv st \<Longrightarrow> length (msgs [] (pending st @ [f])) = (if op_of f < 8 \<and> fin_of f then 1 else 0)"
  by (auto simp: hold_inv_def msgs_append split: if_splits)

text \<open>A session with its head sent, in the frame phase.\<close>

definition framing :: "ws_state \<Rightarrow> bool" where
  "framing st \<longleftrightarrow> hold_inv st \<and> mode st = Ws \<and> ups (outs st) \<noteq> [] \<and> open_parts [] (tl (ups (outs st))) = []"

lemma sent_msgs_append:
  assumes "ups (outs st) \<noteq> []" "open_parts [] (tl (ups (outs st))) = []" "mode st = Ws" "mode x = Ws" "ups (outs x) = ups (outs st) @ fs"
  shows "sent_msgs x = sent_msgs st + length (msgs [] fs)"
  using assms by (simp add: sent_msgs_def msgs_append)

lemma sent_msgs_close:
  assumes "ups (outs st) \<noteq> [] \<or> mode st \<noteq> Ws" "mode x = mode st" "ups (outs x) = ups (outs st) @ close_up r"
  shows "sent_msgs x = sent_msgs st"
  using assms by (auto simp: sent_msgs_def msgs_close)

lemma rated_take_frame:
  assumes r: "rated rate burst t0 now st" and pos: "0 \<le> rate" "0 \<le> burst" and fr: "framing st" "\<not> killed st"
    and hd: "frame_header J cfg st = Frame fin opc len off"
  shows "rated rate burst t0 now (take_frame J cfg now fin opc len off st)
    \<and> (killed (take_frame J cfg now fin opc len off st) \<or> framing (take_frame J cfg now fin opc len off st))"
proof -
  let ?st = "take_frame J cfg now fin opc len off st" and ?raw = "take (off + 4 + len) (acc st)"
  note rd = raw_decode [OF hd refl]
  have inv: "hold_inv st" "mode st = Ws" "ups (outs st) \<noteq> []" "open_parts [] (tl (ups (outs st))) = []" "mode ?st = Ws"
    using fr by (simp_all add: framing_def mode_take_frame)
  have tok: "bucket_ok rate burst t0 now (if fst (takeToken now (bMsg st)) then Suc (sent_msgs st) else sent_msgs st) (snd (takeToken now (bMsg st)))"
    using takeToken_ok [OF r [unfolded rated_def] pos, of "fst (takeToken now (bMsg st))" "snd (takeToken now (bMsg st))"] by simp
  have same: "rated rate burst t0 now ?st" if "sent_msgs ?st = sent_msgs st"
    using bMsg_take_frame [of J cfg now fin opc len off st] r bucket_ok_later [OF tok, of now "sent_msgs st"] that
    by (auto simp: rated_def)
  from take_frame_outcome [OF fr(2) inv(1) hd refl refl]
  consider (cut) r' where "killed ?st" "ups (outs ?st) = ups (outs st) @ close_up r'"
    | (sent) "\<not> killed ?st" "hold_inv ?st" "ups (outs ?st) = ups (outs st) @ pending st @ [?raw]"
        "open_parts [] (pending st @ [?raw]) = []"
    | (held) "\<not> killed ?st" "hold_inv ?st" "ups (outs ?st) = ups (outs st)"
    by blast
  then show ?thesis
  proof cases
    case (cut r')
    then show ?thesis using same sent_msgs_close [of st ?st r'] inv by simp
  next
    case sent
    have n: "sent_msgs ?st = sent_msgs st + (if opc < 8 \<and> fin then 1 else 0)"
      using sent_msgs_append [OF inv(3,4,2,5) sent(3)] msgs_queue [OF inv(1), of ?raw] rd by simp
    have "rated rate burst t0 now ?st"
    proof (cases "opc < 8 \<and> fin")
      case True
      then have "takeToken now (bMsg st) = (True, bMsg ?st)" using token_take_frame [OF sent(1)] by blast
      then show ?thesis using tok n True by (simp add: rated_def)
    qed (use n same in simp)
    moreover have "open_parts [] (tl (ups (outs ?st))) = []"
      using sent(3,4) inv(3,4) by (simp add: open_parts_append)
    ultimately show ?thesis using sent(2,3) inv(5) by (simp add: framing_def)
  next
    case held
    then show ?thesis using same inv by (simp add: framing_def sent_msgs_def)
  qed
qed

lemma rated_violate:
  assumes "rated rate burst t0 t st" "\<not> killed st" "ups (outs st) \<noteq> [] \<or> mode st \<noteq> Ws"
  shows "rated rate burst t0 t (violate r d st)"
  using assms sent_msgs_close [of st "violate r d st" r] ups_violate [OF assms(2)] by (simp add: rated_def)

lemma rated_pump:
  assumes "rated rate burst t0 now st" "0 \<le> rate" "0 \<le> burst" "framing st"
  shows "rated rate burst t0 now (pump J cfg now st)
    \<and> (killed (pump J cfg now st) \<or> framing (pump J cfg now st))"
  using assms
proof (induction st rule: pump_induct [of _ J cfg now])
  case (bad st r d)
  then show ?case by (simp add: pump_Bad rated_violate framing_def)
next
  case (need st n)
  then show ?case by (simp add: pump_Need rated_def framing_def hold_inv_def sent_msgs_def)
next
  case (frame st fin opc len off)
  let ?st = "take_frame J cfg now fin opc len off st"
  have f: "rated rate burst t0 now ?st \<and> (killed ?st \<or> framing ?st)"
    using rated_take_frame [OF frame.prems frame.hyps] .
  then show ?case
    using frame.IH frame.prems pump_Frame [OF frame.hyps(1,2), of now] by (cases "killed ?st") simp_all
qed simp

definition rate_inv :: "rat \<Rightarrow> rat \<Rightarrow> nat \<Rightarrow> nat \<Rightarrow> ws_state \<Rightarrow> bool" where
  "rate_inv rate burst t0 t st \<longleftrightarrow> rated rate burst t0 t st \<and> (killed st \<or> mode st \<noteq> Ws \<or> framing st)"

lemma rate_inv_later: "rate_inv rate burst t0 t st \<Longrightarrow> t \<le> t' \<Longrightarrow> rate_inv rate burst t0 t' st"
  by (auto simp: rate_inv_def rated_def intro: bucket_ok_later)

lemma rate_inv_cong:
  assumes "rate_inv rate burst t0 t st" "mode x = mode st" "outs x = outs st" "bMsg x = bMsg st" "killed x = killed st"
    "inMsg x = inMsg st" "pending x = pending st" "msgParts x = msgParts st"
  shows "rate_inv rate burst t0 t x"
proof -
  have "sent_msgs x = sent_msgs st" "hold_inv x = hold_inv st"
    using assms(2-) by (simp_all add: sent_msgs_def hold_inv_def)
  then show ?thesis using assms by (simp add: rate_inv_def rated_def framing_def)
qed

lemma rate_inv_violate: "rate_inv rate burst t0 t st \<Longrightarrow> rate_inv rate burst t0 t (violate r d st)"
  using rated_violate [of rate burst t0 t st r d]
  by (cases "killed st") (auto simp: rate_inv_def framing_def violate_def violate_with_def)

lemma rate_inv_pump:
  "rate_inv rate burst t0 now st \<Longrightarrow> 0 \<le> rate \<Longrightarrow> 0 \<le> burst \<Longrightarrow> mode st = Ws \<Longrightarrow> rate_inv rate burst t0 now (pump J cfg now st)"
  using rated_pump [of rate burst t0 now st J cfg] by (cases "killed st") (auto simp: rate_inv_def)

lemma rate_inv_on_frames:
  assumes "rate_inv rate burst t0 now st" "0 \<le> rate" "0 \<le> burst" "mode st = Ws"
  shows "rate_inv rate burst t0 now (fst (on_frames J cfg now d st))"
proof -
  let ?x = "st\<lparr>msgReads := msgReads st + 1, chunks := chunks st @ [d], pendingLen := pendingLen st + length d\<rparr>"
  have "rate_inv rate burst t0 now ?x" "rate_inv rate burst t0 now (st\<lparr>msgReads := msgReads st + 1\<rparr>)"
    "rate_inv rate burst t0 now (?x\<lparr>acc := acc st @ concat (chunks ?x), chunks := [], pendingLen := 0\<rparr>)"
    by (rule rate_inv_cong [OF assms(1)]; simp)+
  then show ?thesis
    using assms by (simp add: on_frames_def Let_def rate_inv_violate rate_inv_pump)
qed

lemma rate_inv_classify:
  assumes "rate_inv rate burst t0 now st" "0 \<le> rate" "0 \<le> burst" "mode st = Handshake" "ups (outs st) = []" "hold_inv st"
  shows "rate_inv rate burst t0 now (classify J cfg now n st)"
proof (cases "is_upgrade (from_utf8_lossy (take n (hs st)))")
  case True
  let ?x = "send (from_utf8_lossy (take n (hs st))) False (st\<lparr>hs := []\<rparr>)\<lparr>mode := Ws, acc := drop n (hs st)\<rparr>"
  have "rate_inv rate burst t0 now ?x"
    using assms by (simp add: rate_inv_def rated_def sent_msgs_def framing_def hold_inv_def send_def)
  then show ?thesis using True assms(2,3) rate_inv_pump [of rate burst t0 now ?x J cfg] by (simp add: classify_def Let_def)
next
  case False
  then show ?thesis using assms by (simp add: classify_def Let_def rate_inv_def rated_def sent_msgs_def send_def)
qed

lemma rate_inv_on_handshake:
  assumes "rate_inv rate burst t0 now st" "0 \<le> rate" "0 \<le> burst" "mode st = Handshake" "ups (outs st) = []" "hold_inv st"
  shows "rate_inv rate burst t0 now (fst (on_handshake J cfg now d st))"
proof -
  let ?x = "st\<lparr>hsReads := hsReads st + 1\<rparr>" and ?y = "st\<lparr>hsReads := hsReads st + 1, hs := hs st @ d\<rparr>"
  let ?z = "?y\<lparr>hsScanned := length (hs st @ d)\<rparr>"
  have x: "rate_inv rate burst t0 now ?x" "rate_inv rate burst t0 now ?y" "rate_inv rate burst t0 now ?z"
    by (rule rate_inv_cong [OF assms(1)]; simp)+
  have "rate_inv rate burst t0 now (classify J cfg now n ?z)" for n
    using x(3) assms by (intro rate_inv_classify) (simp_all add: hold_inv_def)
  then show ?thesis using x assms(1) by (simp add: on_handshake_def Let_def rate_inv_violate split: option.split)
qed

lemma rate_inv_onData:
  assumes "rate_inv rate burst t0 t st" "t \<le> n_now N w" "0 \<le> rate" "0 \<le> burst" "session_ok J s D st"
  shows "rate_inv rate burst t0 (n_now N w) (onData J N s d False w st)"
proof (cases "killed st")
  case False
  have r: "rate_inv rate burst t0 (n_now N w) st" using rate_inv_later assms(1,2) .
  show ?thesis
  proof (rule recheck_cases [of N "readCfg s" "s_addr s" w st])
    fix t c
    let ?x = "st\<lparr>banCheckAt := t, cache := c\<rparr>"
    assume rc: "recheck N (readCfg s) (s_addr s) w st = (?x, False)"
    have x: "rate_inv rate burst t0 (n_now N w) ?x" by (rule rate_inv_cong [OF r]) simp_all
    show ?thesis
    proof (cases "mode st")
      case Handshake
      then have "ups (outs ?x) = []" "hold_inv ?x" using assms(5) False by (simp_all add: session_ok_def hold_inv_def)
      then show ?thesis
        using rate_inv_on_handshake [OF x assms(3,4)] rc False Handshake by (simp add: onData_def split_beta Let_def)
    next
      case Plain
      then show ?thesis
        using x rc False by (simp add: onData_def send_def rate_inv_def rated_def sent_msgs_def)
    next
      case Ws
      then show ?thesis
        using rate_inv_on_frames [OF x assms(3,4)] rc False by (simp add: onData_def split_beta Let_def)
    qed
  next
    fix t c
    let ?x = "st\<lparr>banCheckAt := t, cache := c\<rparr>"
    assume rc: "recheck N (readCfg s) (s_addr s) w st = (violate ''banned'' ''session-cut'' ?x, True)"
    have "rate_inv rate burst t0 (n_now N w) ?x" by (rule rate_inv_cong [OF r]) simp_all
    then show ?thesis using rc False by (simp add: onData_def rate_inv_violate)
  qed
qed (use rate_inv_later assms(1,2) in simp)

lemma rate_inv_run:
  assumes "rate_inv rate burst t0 t st" "sorted (t # map (n_now N \<circ> snd) evs)" "0 \<le> rate" "0 \<le> burst" "session_ok J s D st"
  shows "rate_inv rate burst t0 (last (t # map (n_now N \<circ> snd) evs)) (ws_run J N s evs st)"
  using assms
proof (induction evs arbitrary: t D st)
  case (Cons e evs)
  obtain d w where e: "e = (d, w)" by fastforce
  have "rate_inv rate burst t0 (n_now N w) (onData J N s d False w st)"
    using rate_inv_onData [OF Cons.prems(1) _ Cons.prems(3-5), of N w d] Cons.prems(2) by (simp add: e)
  then show ?case
    using Cons.IH [OF _ _ Cons.prems(3,4) session_step [where N = N and d = d and w = w, OF Cons.prems(5)]] Cons.prems(2)
    by (simp add: e)
qed simp

text \<open>C18. How fast a client can talk: whatever the segments, the messages the upstream has received never
  exceed the burst and the rate of the configuration times the life of the session.\<close>

theorem message_rate_bound:
  assumes "sorted (t0 # map (n_now N \<circ> snd) evs)" "rate = num (policy s ''ws_msg_rate'') 20"
    "burst = num (policy s ''ws_msg_burst'') 100" "0 \<le> rate" "0 \<le> burst"
  shows "of_nat (sent_msgs (ws_run J N s evs (filter_init s t0)))
    \<le> burst + rate * (of_int (int (last (t0 # map (n_now N \<circ> snd) evs)) - int t0) / 1000)"
proof -
  let ?t = "last (t0 # map (n_now N \<circ> snd) evs)" and ?st = "ws_run J N s evs (filter_init s t0)"
  have "rate_inv rate burst t0 t0 (filter_init s t0)"
    using assms by (simp add: rate_inv_def rated_def filter_init_def Let_def bucket_ok_def bucket_def sent_msgs_def credit_def)
  from rate_inv_run [OF this assms(1,4,5) session_ok_init]
  have b: "bucket_ok rate burst t0 ?t (sent_msgs ?st) (bMsg ?st)" by (simp add: rate_inv_def rated_def)
  then have "of_nat (sent_msgs ?st) \<le> credit rate burst t0 (b_t (bMsg ?st))" by (simp add: bucket_ok_def)
  also have "\<dots> \<le> credit rate burst t0 ?t"
    using b assms(4) by (simp add: bucket_ok_def credit_def mult_left_mono divide_right_mono)
  finally show ?thesis by (simp add: credit_def)
qed

definition demo_js :: jsenv where
  "demo_js = \<lparr>json_parse = (\<lambda>_. Some (JArr [JStr ''AUTH''])), show_num = (\<lambda>_. [])\<rparr>"

definition demo_client :: session where
  "demo_client = \<lparr>s_port = ''80'', s_addr = ''fd00::3'', s_cfg = Some ''service=x;ws_msg_rate=2;ws_msg_burst=3''\<rparr>"

definition demo_clock :: "nat nhost" where
  "demo_clock = \<lparr>n_stat = (\<lambda>_ _. None), n_read = (\<lambda>_ _. None), n_now = (\<lambda>t. t), n_dict = (\<lambda>_. False),
     n_add = (\<lambda>_ t. (False, t)), n_incr = (\<lambda>_ t. (0, t)), n_show = (\<lambda>_. [])\<rparr>"

definition demo_segments :: "(string \<times> nat) list" where
  "demo_segments =
     [(''GET /'' @ [carriage_return, newline] @ ''Upgrade: websocket'' @ [carriage_return, newline, carriage_return, newline], 10),
      (map char_of [0x81::nat, 0x82, 1, 2, 3, 4, 90, 95], 1510)]"

theorem message_rate_bound_witness:
  "of_nat (sent_msgs (ws_run demo_js demo_clock demo_client demo_segments (filter_init demo_client 10))) \<le> (6 :: rat)"
proof -
  have p: "num (policy demo_client ''ws_msg_rate'') 20 = 2" "num (policy demo_client ''ws_msg_burst'') 100 = 3"
    by code_simp+
  show ?thesis
    using message_rate_bound [of 10 demo_clock demo_segments 2 demo_client 3 demo_js]
    by (simp add: p) (simp add: demo_clock_def demo_segments_def)
qed

end
