(* ===== verification/Ws_Segments.thy ===== *)
theory Ws_Segments
  imports Ws_Bounds
begin

text \<open>
  How the network cuts the bytes of a client into segments does not matter to the WebSocket
  engine: the frame parser gives the same result on the parts as on the whole.
\<close>

section \<open>The parser on a longer buffer\<close>

definition extend :: "string \<Rightarrow> ws_state \<Rightarrow> ws_state" where
  "extend d st = st\<lparr>acc := acc st @ d\<rparr>"

lemma extend_fields [simp]:
  "acc (extend d st) = acc st @ d" "inMsg (extend d st) = inMsg st" "msgLen (extend d st) = msgLen st"
  "killed (extend d st) = killed st" "pending (extend d st) = pending st" "msgParts (extend d st) = msgParts st"
  by (simp_all add: extend_def)

lemma extend_Nil [simp]: "extend [] st = st"
  by (simp add: extend_def)

lemma byte_at_append: "i < length s \<Longrightarrow> byte_at (s @ d) i = byte_at s i"
  by (simp add: byte_at_def nth_append)

lemma be_append: "i + n \<le> length s \<Longrightarrow> be (s @ d) i n = be s i n"
  unfolding be_def by (rule foldl_cong) (simp_all add: byte_at_append)

lemma check_frame_extend:
  "check_frame J cfg (extend d st) fin opc len off =
     (case check_frame J cfg st fin opc len off of
        Need n \<Rightarrow> if length (acc st @ d) < n then Need n else Frame fin opc len off
      | h \<Rightarrow> h)"
  by (auto simp: check_frame_def Let_def split: header.split)

text \<open>More bytes do not change what the parser has decided, nor what it waits for.\<close>

lemma frame_header_extend:
  "frame_header J cfg (extend d st) =
     (case frame_header J cfg st of
        Need n \<Rightarrow> if length (acc st @ d) < n then Need n else frame_header J cfg (extend d st)
      | h \<Rightarrow> h)"
proof (cases "length (acc st) < 2")
  case True
  then show ?thesis by (simp add: frame_header_def Let_def)
next
  case False
  let ?s = "acc st"
  have b: "byte_at (?s @ d) 0 = byte_at ?s 0" "byte_at (?s @ d) 1 = byte_at ?s 1" "\<not> length (?s @ d) < 2"
    using False by (auto intro!: byte_at_append)
  let ?l = "byte_at ?s 1 AND 0x7F"
  consider (rsv) "byte_at ?s 0 AND 0x70 \<noteq> 0"
    | (unmasked) "byte_at ?s 0 AND 0x70 = 0" "byte_at ?s 1 AND 0x80 = 0"
    | (short) "byte_at ?s 0 AND 0x70 = 0" "byte_at ?s 1 AND 0x80 \<noteq> 0" "?l \<noteq> 126" "?l \<noteq> 127"
    | (len16) "byte_at ?s 0 AND 0x70 = 0" "byte_at ?s 1 AND 0x80 \<noteq> 0" "?l = 126"
    | (len64) "byte_at ?s 0 AND 0x70 = 0" "byte_at ?s 1 AND 0x80 \<noteq> 0" "?l = 127"
    by fastforce
  then show ?thesis
  proof cases
    case short
    then have "frame_header J cfg x = check_frame J cfg x (byte_at ?s 0 AND 0x80 \<noteq> 0) (byte_at ?s 0 AND 0x0F) ?l 2"
      if "x \<in> {st, extend d st}" for x
      using that False b by (auto simp: frame_header_def Let_def)
    then show ?thesis by (simp add: check_frame_extend split: header.split)
  next
    case len16
    show ?thesis
    proof (cases "length ?s < 4")
      case True
      then show ?thesis using len16 False b by (simp add: frame_header_def [of _ _ st] frame_header_def [of _ _ "extend d st"] Let_def)
    next
      case long: False
      then have "frame_header J cfg x = check_frame J cfg x (byte_at ?s 0 AND 0x80 \<noteq> 0) (byte_at ?s 0 AND 0x0F) (be ?s 2 2) 4"
        if "x \<in> {st, extend d st}" for x
        using that len16 False b by (auto simp: frame_header_def Let_def be_append)
      then show ?thesis by (simp add: check_frame_extend split: header.split)
    qed
  next
    case len64
    show ?thesis
    proof (cases "length ?s < 10")
      case True
      then show ?thesis using len64 False b by (simp add: frame_header_def [of _ _ st] frame_header_def [of _ _ "extend d st"] Let_def)
    next
      case long: False
      then have "frame_header J cfg x = (if be ?s 2 4 \<noteq> 0 then Bad ''oversized-message'' ''64bit-length''
            else check_frame J cfg x (byte_at ?s 0 AND 0x80 \<noteq> 0) (byte_at ?s 0 AND 0x0F) (be ?s 6 4) 10)"
        if "x \<in> {st, extend d st}" for x
        using that len64 False b by (auto simp: frame_header_def Let_def be_append)
      then show ?thesis by (simp add: check_frame_extend split: header.split)
    qed
  qed (use False b in \<open>simp_all add: frame_header_def Let_def\<close>)
qed

section \<open>Nothing the parser does looks at the bytes behind a frame\<close>

lemma extend_violate: "violate r x (extend d st) = extend d (violate r x st)"
  by (simp add: violate_def violate_with_def extend_def)

lemma extend_flush: "flush (extend d st) = extend d (flush st)"
  by (simp add: flush_def extend_def)

lemma extend_subs:
  "open_sub J cfg sid (extend d st) = extend d (open_sub J cfg sid st)"
  "close_sub v (extend d st) = extend d (close_sub v st)"
proof -
  have s: "subs (extend d st) = subs st" "subCount (extend d st) = subCount st" by (simp_all add: extend_def)
  show "open_sub J cfg sid (extend d st) = extend d (open_sub J cfg sid st)"
    by (simp add: open_sub_def s extend_violate) (simp add: extend_def)
  show "close_sub v (extend d st) = extend d (close_sub v st)"
    by (simp add: close_sub_def s split: option.split jval.split) (simp add: extend_def)
qed

text \<open>A change of the session that the checks on messages neither see nor undo.\<close>

locale unseen =
  fixes f :: "ws_state \<Rightarrow> ws_state"
  assumes on_violate: "violate r x (f st) = f (violate r x st)"
    and on_open: "open_sub J cfg sid (f st) = f (open_sub J cfg sid st)"
    and on_close: "close_sub v (f st) = f (close_sub v st)"
    and buckets: "bMsg (f st) = bMsg st" "bEvent (f st) = bEvent st" "bReq (f st) = bReq st"
    and on_buckets: "(f st)\<lparr>bMsg := b\<rparr> = f (st\<lparr>bMsg := b\<rparr>)" "(f st)\<lparr>bEvent := b\<rparr> = f (st\<lparr>bEvent := b\<rparr>)"
      "(f st)\<lparr>bReq := b\<rparr> = f (st\<lparr>bReq := b\<rparr>)"
begin

lemma on_parts:
  "inspect_query J cfg now sid fs opens (f st) = f (inspect_query J cfg now sid fs opens st)"
  "inspect_event J cfg now ev (f st) = f (inspect_event J cfg now ev st)"
  "inspect_auth now (f st) = f (inspect_auth now st)"
  by (simp_all add: inspect_query_def inspect_event_def inspect_auth_def Let_def on_violate on_open on_close buckets on_buckets
      split: prod.split bool.split option.split jval.split)

lemma unseen_inspect: "inspect J cfg now buf (f st) = f (inspect J cfg now buf st)"
proof -
  obtain ok b where b: "takeToken now (bMsg st) = (ok, b)" by fastforce
  show ?thesis
  proof (cases "ok \<and> (\<exists>t args. json_parse J (from_utf8_lossy buf) = Some (JArr (JStr t # args)))")
    case True
    then obtain t args where "json_parse J (from_utf8_lossy buf) = Some (JArr (JStr t # args))" ok by blast
    then show ?thesis by (simp add: inspect_def Let_def b buckets on_buckets on_violate on_parts on_close)
  next
    case False
    then show ?thesis
      by (auto simp: inspect_def Let_def b buckets on_buckets on_violate split: option.split jval.split list.split bool.split)
  qed
qed

end

interpretation extend: unseen "extend d" for d
  by unfold_locales (simp_all add: extend_violate extend_subs, simp_all add: extend_def)

lemma extend_end_message: "end_message J cfg now (extend d st) = extend d (end_message J cfg now st)"
proof -
  have "(extend d st)\<lparr>msgParts := [], msgLen := 0, msgReads := 0\<rparr> = extend d (st\<lparr>msgParts := [], msgLen := 0, msgReads := 0\<rparr>)"
    by (simp add: extend_def)
  then show ?thesis by (simp add: end_message_def Let_def extend.unseen_inspect extend_flush)
qed

lemma extend_take_frame:
  assumes "off + 4 + len \<le> length (acc st)"
  shows "take_frame J cfg now fin opc len off (extend d st) = extend d (take_frame J cfg now fin opc len off st)"
proof -
  let ?n = "off + 4 + len"
  let ?x = "st\<lparr>need := 2, acc := drop ?n (acc st), pending := pending st @ [take ?n (acc st)]\<rparr>"
  have x: "(extend d st)\<lparr>need := 2, acc := drop ?n (acc st @ d), pending := pending st @ [take ?n (acc st @ d)]\<rparr> = extend d ?x"
    using assms by (simp add: extend_def)
  have k: "take 4 (drop off (acc st @ d)) = take 4 (drop off (acc st))"
      "take len (drop (off + 4) (acc st @ d)) = take len (drop (off + 4) (acc st))"
    using assms by simp_all
  have p: "(extend d y)\<lparr>msgParts := ps\<rparr> = extend d (y\<lparr>msgParts := ps\<rparr>)"
      "(extend d y)\<lparr>msgLen := l, inMsg := i\<rparr> = extend d (y\<lparr>msgLen := l, inMsg := i\<rparr>)" for y ps l i
    by (simp_all add: extend_def)
  show ?thesis
    unfolding take_frame_def Let_def extend_fields x k
    by (simp only: extend_fields p extend_violate extend_flush extend_end_message if_distrib [of "extend d"])
qed

section \<open>Parsing in two steps\<close>

text \<open>What the segmentation may change: the bytes waited for, the reads counted, where the bytes that
  are not parsed yet are kept, and the bytes behind a violation, which nobody looks at.\<close>

definition seen :: "ws_state \<Rightarrow> ws_state" where
  "seen st = st\<lparr>need := 0, msgReads := 0, acc := (if killed st then [] else acc st @ concat (chunks st)), chunks := [], pendingLen := 0\<rparr>"

lemma view_extend_killed: "killed st \<Longrightarrow> seen (extend d st) = seen st"
  by (simp add: seen_def extend_def)

definition touch :: "nat \<Rightarrow> nat \<Rightarrow> ws_state \<Rightarrow> ws_state" where
  "touch n m st = st\<lparr>need := n, msgReads := m\<rparr>"

lemma touch_fields [simp]:
  "acc (touch n m st) = acc st" "inMsg (touch n m st) = inMsg st" "msgLen (touch n m st) = msgLen st"
  "killed (touch n m st) = killed st" "pending (touch n m st) = pending st" "msgParts (touch n m st) = msgParts st"
  "seen (touch n m st) = seen st"
  by (simp_all add: touch_def seen_def)

lemma touch_violate: "violate r x (touch n m st) = touch n m (violate r x st)"
  by (simp add: violate_def violate_with_def touch_def)

lemma touch_flush: "flush (touch n m st) = touch n m (flush st)"
  by (simp add: flush_def touch_def)

lemma touch_subs:
  "open_sub J cfg sid (touch n m st) = touch n m (open_sub J cfg sid st)"
  "close_sub v (touch n m st) = touch n m (close_sub v st)"
proof -
  have s: "subs (touch n m st) = subs st" "subCount (touch n m st) = subCount st" by (simp_all add: touch_def)
  show "open_sub J cfg sid (touch n m st) = touch n m (open_sub J cfg sid st)"
    by (simp add: open_sub_def s touch_violate) (simp add: touch_def)
  show "close_sub v (touch n m st) = touch n m (close_sub v st)"
    by (simp add: close_sub_def s split: option.split jval.split) (simp add: touch_def)
qed

interpretation touch: unseen "touch n m" for n m
  by unfold_locales (simp_all add: touch_violate touch_subs, simp_all add: touch_def)

lemma touch_end_message: "\<exists>m'. end_message J cfg now (touch n m st) = touch n m' (end_message J cfg now st)"
proof -
  have "(touch n m st)\<lparr>msgParts := [], msgLen := 0, msgReads := 0\<rparr> = touch n 0 (st\<lparr>msgParts := [], msgLen := 0, msgReads := 0\<rparr>)"
    by (simp add: touch_def)
  then show ?thesis by (auto simp: end_message_def Let_def touch.unseen_inspect touch_flush)
qed

lemma touched_if:
  "(b \<Longrightarrow> \<exists>n m. x = touch n m x') \<Longrightarrow> (\<not> b \<Longrightarrow> \<exists>n m. y = touch n m y') \<Longrightarrow>
     \<exists>n m. (if b then x else y) = touch n m (if b then x' else y')"
  by simp

lemma touch_take_frame:
  "\<exists>n' m'. take_frame J cfg now fin opc len off (touch n m st) = touch n' m' (take_frame J cfg now fin opc len off st)"
proof -
  have x: "(touch n m st)\<lparr>need := 2, acc := a, pending := q\<rparr> = touch 2 m (st\<lparr>need := 2, acc := a, pending := q\<rparr>)"
      "(touch n m y)\<lparr>msgParts := ps\<rparr> = touch n m (y\<lparr>msgParts := ps\<rparr>)"
      "(touch n m y)\<lparr>msgLen := l, inMsg := i\<rparr> = touch n m (y\<lparr>msgLen := l, inMsg := i\<rparr>)" for n y a q ps l i
    by (simp_all add: touch_def)
  show ?thesis
    unfolding take_frame_def Let_def touch_fields x touch_violate touch_flush
    by (intro touched_if) (use touch_end_message in blast)+
qed

lemma touch_header [simp]: "frame_header J cfg (touch n m st) = frame_header J cfg st"
  by (rule frame_header_cong) simp_all

lemma pump_touch: "seen (pump J cfg now (touch n m st)) = seen (pump J cfg now st)"
proof (induction st arbitrary: n m rule: pump_induct [of _ J cfg now])
  case (need st k)
  have "(touch n m st)\<lparr>need := k\<rparr> = touch k m st" "st\<lparr>need := k\<rparr> = touch k (msgReads st) st" by (simp_all add: touch_def)
  with need show ?case by (simp add: pump_Need)
next
  case (bad st r x)
  then show ?case by (simp add: pump_Bad touch_violate)
next
  case (frame st fin opc len off)
  obtain n' m' where "take_frame J cfg now fin opc len off (touch n m st) = touch n' m' (take_frame J cfg now fin opc len off st)"
    using touch_take_frame by blast
  then show ?case using frame by (simp add: pump_Frame)
qed simp

lemma pump_extend: "seen (pump J cfg now (extend d (pump J cfg now st))) = seen (pump J cfg now (extend d st))"
proof (induction st rule: pump_induct [of _ J cfg now])
  case (need st n)
  have "extend d (st\<lparr>need := n\<rparr>) = touch n (msgReads st) (extend d st)" by (simp add: extend_def touch_def)
  then show ?case using need by (simp add: pump_Need pump_touch)
next
  case (bad st r x)
  then have "frame_header J cfg (extend d st) = Bad r x" by (subst frame_header_extend) simp
  with bad show ?case by (simp add: pump_Bad extend_violate)
next
  case (frame st fin opc len off)
  then have "frame_header J cfg (extend d st) = Frame fin opc len off" by (subst frame_header_extend) simp
  with frame show ?case by (simp add: pump_Frame extend_take_frame frame_header_fits)
qed simp

section \<open>The callback\<close>

text \<open>Between two callbacks a live session waits for the rest of a frame.\<close>

definition resting :: "jsenv \<Rightarrow> ws_cfg \<Rightarrow> ws_state \<Rightarrow> bool" where
  "resting J cfg st \<longleftrightarrow> frame_header J cfg st = Need (need st) \<and> length (acc st) + pendingLen st < need st
     \<and> pendingLen st = length (concat (chunks st))"

definition gathered :: "ws_state \<Rightarrow> ws_state" where
  "gathered st = st\<lparr>acc := acc st @ concat (chunks st), chunks := [], pendingLen := 0\<rparr>"

lemma gathered_fields [simp]:
  "acc (gathered st) = acc st @ concat (chunks st)" "killed (gathered st) = killed st" "need (gathered st) = need st"
  "msgReads (gathered st) = msgReads st" "seen (gathered st) = seen st"
  by (simp_all add: gathered_def seen_def)

lemma killed_view [simp]: "killed (seen st) = killed st"
  by (simp add: seen_def)

lemma gathered_view: "\<not> killed x \<Longrightarrow> gathered x = touch (need x) (msgReads x) (seen x)"
  by (simp add: gathered_def seen_def touch_def)

lemma view_same:
  assumes "seen x = seen y" "\<not> killed x" "chunks y = []" "pendingLen y = 0"
  shows "gathered x = touch (need x) (msgReads x) y"
proof -
  have "\<not> killed y" using assms(1,2) by (metis killed_view)
  then have "seen y = touch 0 0 y" using assms(3,4) by (simp add: seen_def touch_def)
  then show ?thesis using gathered_view [OF assms(2)] assms(1) by (simp add: touch_def)
qed

lemma resting_header:
  assumes "resting J cfg st" "length (acc st) + pendingLen st + length d < need st"
  shows "frame_header J cfg (extend d (gathered st)) = Need (need st)"
proof -
  have "frame_header J cfg (extend d (gathered st)) = frame_header J cfg (extend (concat (chunks st) @ d) st)"
    by (rule frame_header_cong) (simp_all add: gathered_def)
  also have "\<dots> = Need (need st)"
    using assms by (subst frame_header_extend) (simp add: resting_def)
  finally show ?thesis .
qed

lemma pump_resting: "resting J cfg st \<Longrightarrow> \<not> killed st \<Longrightarrow> seen (pump J cfg now (gathered st)) = seen st"
  using resting_header [of J cfg st "[]"] by (simp add: pump_Need resting_def gathered_def seen_def)

lemma on_frames_view:
  assumes "resting J cfg st" "\<not> killed st" "of_nat (msgReads st + 1) \<le> maxMsgReads cfg"
  shows "seen (fst (on_frames J cfg now d st)) = seen (pump J cfg now (extend d (gathered st)))"
proof (cases "d = []")
  case True
  then show ?thesis using pump_resting assms(1,2) by (simp add: on_frames_def)
next
  case d: False
  let ?x = "st\<lparr>msgReads := msgReads st + 1, chunks := chunks st @ [d], pendingLen := pendingLen st + length d\<rparr>"
  have t: "?x\<lparr>acc := acc st @ concat (chunks ?x), chunks := [], pendingLen := 0\<rparr> = touch (need st) (msgReads st + 1) (extend d (gathered st))"
    by (simp add: touch_def extend_def gathered_def)
  show ?thesis
  proof (cases "length (acc st) + pendingLen st + length d < need st")
    case True
    then have "fst (on_frames J cfg now d st) = ?x" using d assms(3) by (simp add: on_frames_def Let_def not_less)
    moreover have "seen (pump J cfg now (extend d (gathered st))) = seen (extend d (gathered st))"
      using resting_header [OF assms(1) True] assms(2) by (simp add: pump_Need) (simp add: seen_def)
    moreover have "seen ?x = seen (extend d (gathered st))" using assms(2) by (simp add: seen_def extend_def gathered_def)
    ultimately show ?thesis by simp
  next
    case False
    then have "fst (on_frames J cfg now d st) = pump J cfg now (touch (need st) (msgReads st + 1) (extend d (gathered st)))"
      using d assms(3) t by (simp add: on_frames_def Let_def not_less)
    then show ?thesis by (simp add: pump_touch)
  qed
qed

lemma on_frames_resting:
  assumes "resting J cfg st" "\<not> killed (fst (on_frames J cfg now d st))"
  shows "resting J cfg (fst (on_frames J cfg now d st))"
proof (cases "d = []")
  case False
  let ?x = "st\<lparr>msgReads := msgReads st + 1, chunks := chunks st @ [d], pendingLen := pendingLen st + length d\<rparr>"
  let ?y = "?x\<lparr>acc := acc st @ concat (chunks ?x), chunks := [], pendingLen := 0\<rparr>"
  have reads: "\<not> of_nat (msgReads st + 1) > maxMsgReads cfg" using assms(2) False by (auto simp: on_frames_def Let_def)
  show ?thesis
  proof (cases "length (acc st) + pendingLen st + length d < need st")
    case True
    then have eq: "fst (on_frames J cfg now d st) = ?x" using False reads by (simp add: on_frames_def Let_def)
    have "frame_header J cfg ?x = frame_header J cfg st" by (rule frame_header_cong) simp_all
    then show ?thesis using True assms(1) unfolding eq by (simp add: resting_def)
  next
    case wait: False
    then have eq: "fst (on_frames J cfg now d st) = pump J cfg now ?y" using False reads by (simp add: on_frames_def Let_def)
    then have k: "\<not> killed (pump J cfg now ?y)" using assms(2) by simp
    have "kept (pump J cfg now ?y) = kept ?y" by (rule kept_pump [OF k])
    then show ?thesis
      unfolding eq using pump_rest [of J cfg now ?y] k by (simp add: resting_def kept_def Let_def)
  qed
qed (use assms in \<open>simp add: on_frames_def\<close>)

interpretation keeps_recheck: session_frame J cfg "\<lambda>st. (banCheckAt st, msgReads st) = a" for J cfg a
  by unfold_locales (auto simp: open_sub_def close_sub_def violate_def violate_with_def split: option.split jval.split)

lemma end_message_reads: "banCheckAt (end_message J cfg now st) = banCheckAt st" "msgReads (end_message J cfg now st) = 0"
proof -
  let ?st = "st\<lparr>msgParts := [], msgLen := 0, msgReads := 0\<rparr>"
  have "(banCheckAt (inspect J cfg now (concat (msgParts st)) ?st), msgReads (inspect J cfg now (concat (msgParts st)) ?st)) = (banCheckAt st, 0)"
    by (rule keeps_recheck.on_inspect) simp
  then show "banCheckAt (end_message J cfg now st) = banCheckAt st" "msgReads (end_message J cfg now st) = 0"
    by (simp_all add: end_message_def Let_def flush_def)
qed

lemma pump_reads: "banCheckAt (pump J cfg now st) = banCheckAt st \<and> msgReads (pump J cfg now st) \<le> msgReads st"
proof (induction st rule: pump_induct [of _ J cfg now])
  case (frame st fin opc len off)
  have "banCheckAt (take_frame J cfg now fin opc len off st) = banCheckAt st
      \<and> msgReads (take_frame J cfg now fin opc len off st) \<le> msgReads st"
    by (simp add: take_frame_def Let_def end_message_reads) (simp add: violate_def violate_with_def flush_def)
  with frame show ?case by (auto simp: pump_Frame)
qed (simp_all add: pump_cases violate_def violate_with_def)

lemma on_frames_reads:
  "banCheckAt (fst (on_frames J cfg now d st)) = banCheckAt st \<and> msgReads (fst (on_frames J cfg now d st)) \<le> msgReads st + 1"
proof -
  let ?y = "st\<lparr>msgReads := msgReads st + 1, acc := acc st @ concat (chunks st) @ d, chunks := [], pendingLen := 0\<rparr>"
  show ?thesis
    using pump_reads [of J cfg now ?y] by (simp add: on_frames_def Let_def violate_def violate_with_def)
qed

text \<open>A frame-phase callback at which no ban check is due.\<close>

lemma onData_frames:
  assumes "mode st = Ws" "\<not> killed st" "of_nat (n_now N w) < banCheckAt st"
  shows "onData J N s d False w st = fst (on_frames J (readCfg s) (n_now N w) d st)"
  using assms by (simp add: onData_def recheck_def split_beta Let_def)

lemma segments_view:
  assumes "mode st = Ws" "\<not> killed st" "resting J (readCfg s) st" "of_nat (n_now N w) < banCheckAt st"
    and "of_nat (msgReads st + length ds) \<le> maxMsgReads (readCfg s)"
  shows "seen (ws_run J N s (map (\<lambda>d. (d, w)) ds) st)
    = seen (pump J (readCfg s) (n_now N w) (extend (concat ds) (gathered st)))"
  using assms
proof (induction ds arbitrary: st)
  case Nil
  then show ?case using pump_resting by simp
next
  case (Cons d ds)
  let ?now = "n_now N w" and ?cfg = "readCfg s"
  let ?st = "fst (on_frames J ?cfg ?now d st)" and ?P = "pump J ?cfg ?now (extend d (gathered st))"
  have step: "onData J N s d False w st = ?st" using onData_frames [OF Cons.prems(1,2,4)] .
  have "of_nat (msgReads st + 1) \<le> maxMsgReads ?cfg"
    using Cons.prems(5) by (intro order_trans [OF _ Cons.prems(5)]) simp
  then have v: "seen ?st = seen ?P" by (rule on_frames_view [OF Cons.prems(3,2)])
  have more: "seen (pump J ?cfg ?now (extend (concat ds) ?P)) = seen (pump J ?cfg ?now (extend (concat (d # ds)) (gathered st)))"
    using pump_extend [of J ?cfg ?now "concat ds" "extend d (gathered st)"] by (simp add: extend_def)
  show ?case
  proof (cases "killed ?st")
    case True
    then have k: "killed ?P" using v by (metis killed_view)
    have "seen (ws_run J N s (map (\<lambda>d. (d, w)) (d # ds)) st) = seen ?P" using True v by (simp add: step)
    also have "\<dots> = seen (pump J ?cfg ?now (extend (concat ds) ?P))" using k by (simp add: view_extend_killed)
    finally show ?thesis using more by simp
  next
    case False
    have k: "\<not> killed ?P" using v False by (metis killed_view)
    have "kept ?P = kept (extend d (gathered st))" by (rule kept_pump [OF k])
    then have "chunks ?P = []" "pendingLen ?P = 0" by (simp_all add: kept_def extend_def gathered_def)
    from view_same [OF v False this] have g: "gathered ?st = touch (need ?st) (msgReads ?st) ?P" .
    have e: "extend c (touch n m P) = touch n m (extend c P)" for c n m P by (simp add: extend_def touch_def)
    have mode: "mode ?st = Ws" using mode_onData_Ws [OF Cons.prems(1), of J N s d False w] step by simp
    have "of_nat (msgReads ?st + length ds) \<le> maxMsgReads ?cfg"
      using on_frames_reads [of J ?cfg ?now d st] by (intro order_trans [OF _ Cons.prems(5)]) simp
    then have "seen (ws_run J N s (map (\<lambda>d. (d, w)) ds) ?st) = seen (pump J ?cfg ?now (extend (concat ds) (gathered ?st)))"
      using mode False on_frames_resting [OF Cons.prems(3) False] on_frames_reads [of J ?cfg ?now d st] Cons.prems(4)
      by (intro Cons.IH) simp_all
    then show ?thesis using more by (simp add: step g e pump_touch)
  qed
qed

text \<open>Every live session in the frame phase rests.\<close>

definition waiting :: "jsenv \<Rightarrow> ws_cfg \<Rightarrow> ws_state \<Rightarrow> bool" where
  "waiting J cfg st \<longleftrightarrow> killed st \<or> mode st \<noteq> Ws \<or> frame_header J cfg st = Need (need st)"

lemma waiting_pump: "waiting J cfg (pump J cfg now st)"
  using pump_rest [of J cfg now st] by (auto simp: waiting_def Let_def)

lemma waiting_violate [simp]: "waiting J cfg (violate r d st)"
  by (simp add: waiting_def)

lemma waiting_cong:
  assumes "waiting J cfg st" "acc x = acc st" "inMsg x = inMsg st" "msgLen x = msgLen st" "mode x = mode st" "killed x = killed st" "need x = need st"
  shows "waiting J cfg x"
  using assms frame_header_cong [of x st J cfg] by (simp add: waiting_def)

lemma waiting_on_frames: "waiting J cfg st \<Longrightarrow> waiting J cfg (fst (on_frames J cfg now d st))"
  by (auto simp: on_frames_def Let_def waiting_pump intro: waiting_cong)

lemma waiting_on_handshake: "mode st = Handshake \<Longrightarrow> waiting J cfg (fst (on_handshake J cfg now d st))"
  by (auto simp: on_handshake_def classify_def Let_def waiting_pump split: option.split) (simp_all add: waiting_def send_def)

lemma waiting_onData: "waiting J (readCfg s) st \<Longrightarrow> waiting J (readCfg s) (onData J N s d False w st)"
proof (rule recheck_cases [of N "readCfg s" "s_addr s" w st])
  fix t c
  let ?x = "st\<lparr>banCheckAt := t, cache := c\<rparr>"
  assume w: "waiting J (readCfg s) st" and rc: "recheck N (readCfg s) (s_addr s) w st = (?x, False)"
  have x: "waiting J (readCfg s) ?x" by (rule waiting_cong [OF w]) simp_all
  show ?thesis
    using rc w x waiting_on_frames [OF x] waiting_on_handshake [of ?x J "readCfg s"]
    by (cases "mode st") (auto simp: onData_def split_beta Let_def, auto simp: waiting_def send_def)
next
  fix t c assume "waiting J (readCfg s) st" "recheck N (readCfg s) (s_addr s) w st =
      (violate ''banned'' ''session-cut'' (st\<lparr>banCheckAt := t, cache := c\<rparr>), True)"
  then show ?thesis by (simp add: onData_def)
qed

lemma waiting_run: "waiting J (readCfg s) st \<Longrightarrow> waiting J (readCfg s) (ws_run J N s evs st)"
proof (induction evs arbitrary: st)
  case (Cons e evs)
  then show ?case by (cases e) (simp add: Cons.IH [OF waiting_onData [OF Cons.prems]])
qed simp

lemma reachable_resting:
  assumes st: "st = ws_run J N s evs (filter_init s now)" and "mode st = Ws" "\<not> killed st"
  shows "resting J (readCfg s) st"
proof -
  have "bounded (readCfg s) (filter_init s now)" "subs_ok (readCfg s) (filter_init s now)"
    by (simp_all add: filter_init_def Let_def bounded_def queue_ok_def subs_ok_def room_def)
  then have "bounded (readCfg s) st"
    using bounded_run [OF _ session_ok_init, of s now J N evs] assms(3) by (simp add: st)
  moreover have "waiting J (readCfg s) (filter_init s now)" by (simp add: waiting_def filter_init_def Let_def)
  from waiting_run [OF this] have "waiting J (readCfg s) st" by (simp add: st)
  ultimately show ?thesis using assms by (simp add: resting_def bounded_def waiting_def)
qed


definition demo_head :: string where
  "demo_head = ''GET /'' @ [carriage_return, newline] @ ''Upgrade: websocket'' @ [carriage_return, newline, carriage_return, newline]"

lemma demo_upgraded:
  "ws_run demo_js demo_clock demo_client [(demo_head, 10)] (filter_init demo_client 10)
   = (filter_init demo_client 10)\<lparr>mode := Ws, hsReads := 1, hsScanned := 29, outs := [Up demo_head False]\<rparr>"
proof -
  have h: "headerBlockEnd demo_head (- 2) = Some 29" "\<not> hasBareLf demo_head 29" "from_utf8_lossy demo_head = demo_head"
      "is_upgrade demo_head" "length demo_head = 29" "demo_head \<noteq> []"
    by code_simp+
  have c: "w_banFile (readCfg demo_client) = []" "maxHsReads (readCfg demo_client) = 32"
    by code_simp+
  let ?st = "filter_init demo_client 10"
  have st: "mode ?st = Handshake" "killed ?st = False" "hsReads ?st = 0" "hs ?st = []" "hsScanned ?st = 0" "outs ?st = []"
      "need ?st = 2" "acc ?st = []"
    by (simp_all add: filter_init_def Let_def)
  have p: "pump J cfg now x = x\<lparr>need := 2\<rparr>" if "\<not> killed x" "acc x = []" for J cfg now x
    using that by (simp add: pump_Need frame_header_def Let_def)
  show ?thesis
    using h c st
    by (simp add: onData_def recheck_def on_handshake_def classify_def send_def Let_def MAX_HANDSHAKE_def p)
qed


end
