(* ===== verification/File_Contract.thy ===== *)
theory File_Contract
  imports Shield_Core
begin

text \<open>
  The banlist file and its readers as a second backend of the contract: \<open>shield-ban\<close> writes the
  file, \<open>shield-ban check\<close> and the access hook of nginx read it, each with its own parser and its own
  clock. The locale \<open>ban_node\<close> extends \<open>ban_store\<close> with what the engine sees of the same machine; it
  yields \<open>ban_backend\<close>, so the consequences proved from the contract hold here as for the guard.
\<close>

section \<open>The engine reads what the script wrote\<close>

lemma js_words_plain: "list_all plain a \<Longrightarrow> js_words_from acc (a @ s) = js_words_from (acc @ a) s"
  by (induction a arbitrary: acc) simp_all

lemma js_parts_entry: "addr_text (fst e) \<Longrightarrow> js_parts (entry_line e) = [fst e, string_of_nat (snd e)]"
  using js_words_plain [of "fst e" "[]" "CHR '' '' # string_of_nat (snd e)"]
    js_words_plain [of "string_of_nat (snd e)" "[]" "[]"]
  by (simp add: js_parts_def entry_line_def addr_plain plain_string_of_nat ascii_ws_def flush_word_def)

lemma parse_int_nat: "parse_int (string_of_nat n) = Some (int n)"
proof -
  have d: "list_all is_digit (string_of_nat n)" "list_all plain (string_of_nat n)" "string_of_nat n \<noteq> []"
    by (simp_all add: digits_string_of_nat plain_string_of_nat)
  obtain ch r where s: "string_of_nat n = ch # r" using d(3) by (cases "string_of_nat n") auto
  have "\<not> ascii_ws ch" "ch \<noteq> CHR ''-''" "ch \<noteq> CHR ''+''"
    using d(1,2) by (auto simp: s is_digit_def)
  then have "split_sign (dropWhile ascii_ws (string_of_nat n)) = (False, string_of_nat n)"
    by (simp add: s split_sign_def)
  moreover have "takeWhile is_digit (string_of_nat n) = string_of_nat n"
    using d(1) by (simp add: takeWhile_eq_all_conv list_all_iff)
  ultimately show ?thesis
    by (simp add: parse_int_def Let_def radix_value_string_of_nat del: takeWhile_eq_all_conv)
qed

lemma split_print_lines:
  "(\<And>l. l \<in> set ls \<Longrightarrow> newline \<notin> set l) \<Longrightarrow> split_char newline (print_lines ls) = ls @ [[]]"
  by (induction ls) (simp_all add: split_char_append)

lemma foldl_add_line:
  assumes "distinct (map fst es)" "list_all (\<lambda>e. addr_text (fst e)) es"
  shows "foldl add_line m (map entry_line es) ip =
    (case map_of es ip of None \<Rightarrow> m ip | Some u \<Rightarrow> Some (Some (int u)))"
  using assms
proof (induction es arbitrary: m)
  case (Cons e es)
  then have "map_of es (fst e) = None" by (simp add: map_of_eq_None_iff)
  with Cons show ?case
    by (cases e; cases "fst e = ip") (auto simp: js_parts_entry parse_int_nat split: option.split)
qed simp

lemma parse_banlist_banlist:
  assumes "wf_entries es"
  shows "parse_banlist (banlist es) ip = map_option (\<lambda>u. Some (int u)) (map_of es ip)"
proof -
  have "split_char newline (banlist es) = map entry_line es @ [[]]"
    unfolding banlist_def using assms
    by (intro split_print_lines) (auto simp: wf_entries_def list_all_iff entry_line_no_newline)
  then show ?thesis
    using foldl_add_line [of es "\<lambda>_. None" ip] assms
    by (simp add: parse_banlist_def wf_entries_def js_parts_def flush_word_def split: option.split)
qed

text \<open>\<open>until > now\<close> in seconds and \<open>until * 1000 > Date.now()\<close> say the same.\<close>

lemma seconds_millis: "t div 1000 < u \<longleftrightarrow> t < u * (1000 :: nat)"
  by (simp add: div_less_iff_less_mult)

lemma verdict_rule: "\<exists>v. verdict s srv layer rule detail = Verdict v \<and> v_rule v = rule"
  by (simp add: verdict_def)

section \<open>Events\<close>

datatype file_event = Verb "string list" shell_exit | Conn session "action list" | File_Tick

text \<open>The calls fail2ban makes: an address as nginx prints it and whole seconds.\<close>

definition sane_args :: "'w fhost \<Rightarrow> string list \<Rightarrow> 'w \<Rightarrow> bool" where
  "sane_args H args w \<longleftrightarrow>
     (arg 1 args \<in> {''ban'', ''unban'', ''check''} \<longrightarrow> addr_text (arg 2 args)) \<and>
     (arg 1 args = ''ban'' \<longrightarrow>
        (\<exists>i. arg 3 args = string_of_int i \<and> fits64 i \<and> int (date_s H w) + i < 2 ^ 63))"

inductive file_step :: "'w fhost \<Rightarrow> 'w nhost \<Rightarrow> string \<Rightarrow> ('w \<Rightarrow> bool) \<Rightarrow> 'w \<Rightarrow> file_event \<Rightarrow> 'w \<Rightarrow> bool"
  for H :: "'w fhost" and N :: "'w nhost" and path :: string and ok :: "'w \<Rightarrow> bool" where
  verb: "sane_args H args w \<Longrightarrow> file_step H N path ok w (Verb args (o_exit (shield_ban H args w))) (o_world (shield_ban H args w))"
| conn: "banFile (accessCfg s) = path \<Longrightarrow> addr_text (s_addr s) \<Longrightarrow> access N s w fresh_cache = (acts, c, w') \<Longrightarrow>
    file_step H N path ok w (Conn s acts) w'"
| time: "ok w' \<Longrightarrow> n_now N w \<le> n_now N w' \<Longrightarrow> ban_file H w' = ban_file H w \<Longrightarrow> file_step H N path ok w File_Tick w'"

definition denied_as_banned :: "action list \<Rightarrow> bool" where
  "denied_as_banned acts \<longleftrightarrow> (\<exists>v. Verdict v \<in> set acts \<and> v_rule v = ''banned'' \<and> Deny \<in> set acts)"

definition file_due :: "nat \<Rightarrow> int \<Rightarrow> expiry" where
  "file_due t i = (if i \<le> 0 then Permanent else Until ((t div 1000 + nat i) * 1000))"

definition file_expiry :: "nat \<Rightarrow> expiry" where
  "file_expiry u = (if u = 0 then Permanent else Until (u * 1000))"

definition file_abs :: "'w fhost \<Rightarrow> 'w nhost \<Rightarrow> 'w \<Rightarrow> string contract" where
  "file_abs H N w = \<lparr>clock = n_now N w,
     banned = in_force_part (n_now N w) (\<lambda>ip. map_option file_expiry (map_of (entries_of (ban_file H w)) ip))\<rparr>"

fun file_reads :: "file_event \<Rightarrow> string verb \<Rightarrow> bool" where
  "file_reads (Verb args code) v =
     (if arg 1 args = ''ban'' then code = Exit 0 \<and> v = Banned (arg 2 args) (decimal (arg 3 args))
      else if arg 1 args = ''unban'' then code = Exit 0 \<and> v = Unbanned (arg 2 args)
      else if arg 1 args = ''check'' then v = Answer (arg 2 args) (code = Exit 0)
      else v = Silent)"
| "file_reads (Conn s acts) v =
     (v = (if denied_as_banned acts then Enforced (s_addr s) else Spared (s_addr s)))"
| "file_reads File_Tick v = (v = Elapse)"

lemma in_force_file: "in_force (file_expiry u) t \<longleftrightarrow> entry_live (t div 1000) (ip, u)"
  by (simp add: file_expiry_def entry_live_def seconds_millis)

lemma map_of_filter_key: "map_of (filter (\<lambda>e. P e \<and> fst e \<noteq> k) es) = (map_of (filter P es))(k := None)"
  by (induction es) auto

lemma map_of_live:
  assumes "distinct (map fst es)"
  shows "map_of (filter (entry_live t) es) ip =
    (case map_of es ip of None \<Rightarrow> None | Some u \<Rightarrow> if entry_live t (ip, u) then Some u else None)"
  using assms by (induction es) (auto simp: entry_live_def map_of_eq_None_iff split: option.split)

section \<open>One machine for the script and the engine\<close>

locale ban_node = ban_store H ok tmp_text
  for H :: "'w fhost" and ok :: "'w \<Rightarrow> bool" and tmp_text :: "'w \<Rightarrow> string \<Rightarrow> string option" +
  fixes N :: "'w nhost" and path :: string
  assumes path_set: "path \<noteq> []"
    and same_clock: "date_s H w = n_now N w div 1000"
    and stat_missing: "ban_file H w = NoFile \<Longrightarrow> n_stat N path w = None"
    and stat_present: "ban_file H w = Content s \<Longrightarrow> \<exists>st. n_stat N path w = Some st"
    and read_present: "ban_file H w = Content s \<Longrightarrow> n_read N path w = Some s"
    and instant: "mkdir_p H w = (b, w') \<Longrightarrow> n_now N w' = n_now N w" "open_lock H w = (b, w') \<Longrightarrow> n_now N w' = n_now N w"
      "flock_x H w = (b, w') \<Longrightarrow> n_now N w' = n_now N w" "mktemp H w = (f, w') \<Longrightarrow> n_now N w' = n_now N w"
      "cat_to H tmp s w = (b, w') \<Longrightarrow> n_now N w' = n_now N w" "chmod_644 H tmp w = (b, w') \<Longrightarrow> n_now N w' = n_now N w"
      "mv_over H tmp w = (b, w') \<Longrightarrow> n_now N w' = n_now N w"
    and add_frame: "ok w \<Longrightarrow> n_add N k w = (b, w') \<Longrightarrow> ok w' \<and> ban_file H w' = ban_file H w \<and> n_now N w' = n_now N w"
    and incr_frame: "ok w \<Longrightarrow> n_incr N k w = (n, w') \<Longrightarrow> ok w' \<and> ban_file H w' = ban_file H w \<and> n_now N w' = n_now N w"
begin

definition node_inv :: "'w \<Rightarrow> bool" where
  "node_inv w \<longleftrightarrow> ok w \<and> well_kept (ban_file H w)"

lemma banned_abs:
  assumes "well_kept (ban_file H w)"
  shows "banned (file_abs H N w) ip =
    map_option file_expiry (map_of (filter (entry_live (date_s H w)) (entries_of (ban_file H w))) ip)"
  using well_kept_wf [OF assms]
  by (auto simp: file_abs_def in_force_part_def map_of_live wf_entries_def same_clock in_force_file [of _ _ ip] split: option.split)

text \<open>A cache that is either out of date or right.\<close>

definition cache_ok :: "'w \<Rightarrow> ban_cache \<Rightarrow> bool" where
  "cache_ok w c \<longleftrightarrow> (\<forall>mtime sz s. n_stat N path w = Some (mtime, sz) \<longrightarrow> c_path c = path \<longrightarrow> c_mtime c = mtime \<longrightarrow>
     c_size c = Some sz \<longrightarrow> ban_file H w = Content s \<longrightarrow> c_map c = parse_banlist s)"

lemma loadBans_spec:
  assumes "well_kept (ban_file H w)" "cache_ok w c"
  shows "fst (loadBans N path w c) ip = map_option (\<lambda>u. Some (int u)) (map_of (entries_of (ban_file H w)) ip)"
    and "cache_ok w (snd (loadBans N path w c))"
proof -
  consider "ban_file H w = NoFile" | es where "wf_entries es" "ban_file H w = Content (banlist es)"
    using assms(1) by (auto simp: well_kept_def)
  then have "fst (loadBans N path w c) ip = map_option (\<lambda>u. Some (int u)) (map_of (entries_of (ban_file H w)) ip)
      \<and> cache_ok w (snd (loadBans N path w c))"
  proof cases
    case 1
    then show ?thesis by (simp add: loadBans_def stat_missing cache_ok_def)
  next
    case (2 es)
    obtain mtime sz where st: "n_stat N path w = Some (mtime, sz)" using stat_present [OF 2(2)] by auto
    show ?thesis
      using st assms(2) 2 read_present [OF 2(2)]
      by (auto simp: loadBans_def Let_def cache_ok_def parse_banlist_banlist)
  qed
  then show "fst (loadBans N path w c) ip = map_option (\<lambda>u. Some (int u)) (map_of (entries_of (ban_file H w)) ip)"
    "cache_ok w (snd (loadBans N path w c))" by simp_all
qed

lemma isBanned_spec:
  assumes "well_kept (ban_file H w)" "cache_ok w c"
  shows "fst (isBanned N ip path w c) \<longleftrightarrow> banned (file_abs H N w) ip \<noteq> None"
    and "cache_ok w (snd (isBanned N ip path w c))"
proof -
  have "int u = 0 \<or> int u * 1000 > int t \<longleftrightarrow> in_force (file_expiry u) t" for u t
    unfolding file_expiry_def by (cases "u = 0") (simp_all, linarith)
  then show "fst (isBanned N ip path w c) \<longleftrightarrow> banned (file_abs H N w) ip \<noteq> None"
    using loadBans_spec(1) [OF assms, of ip] path_set
    by (auto simp: isBanned_def split_beta file_abs_def in_force_part_def split: option.splits)
  show "cache_ok w (snd (isBanned N ip path w c))"
    using loadBans_spec(2) [OF assms] path_set by (simp add: isBanned_def split_beta Let_def)
qed

lemma rewrite_instant: "rewrite H s w = (b, w') \<Longrightarrow> n_now N w' = n_now N w"
  by (auto simp: rewrite_def dest!: instant split: prod.splits option.splits bool.splits)

lemma locked_instant: "locked H w = (b, w') \<Longrightarrow> n_now N w' = n_now N w"
  by (auto simp: locked_def dest!: instant split: prod.splits bool.splits)

lemma ban_instant: "n_now N (o_world (file_ban H ip ttl w)) = n_now N w"
  by (auto simp: file_ban_def Let_def dest!: rewrite_instant locked_instant
      split: prod.split option.split bool.split)

lemma unban_instant: "n_now N (o_world (file_unban H ip w)) = n_now N w"
  by (auto simp: file_unban_def Let_def dest!: rewrite_instant locked_instant split: prod.split bool.split)

section \<open>The simulation\<close>

lemma abs_of_entries:
  assumes "n_now N w' = n_now N w" "map_of (entries_of (ban_file H w')) = m"
  shows "file_abs H N w' = \<lparr>clock = n_now N w, banned = in_force_part (n_now N w) (\<lambda>ip. map_option file_expiry (m ip))\<rparr>"
  using assms by (simp add: file_abs_def)

lemma in_force_live_entries:
  assumes "well_kept (ban_file H w)"
  shows "in_force_part (n_now N w) (\<lambda>ip. map_option file_expiry
      (map_of (filter (entry_live (date_s H w)) (entries_of (ban_file H w))) ip)) = banned (file_abs H N w)"
proof (rule ext)
  fix ip
  show "in_force_part (n_now N w) (\<lambda>ip. map_option file_expiry
      (map_of (filter (entry_live (date_s H w)) (entries_of (ban_file H w))) ip)) ip = banned (file_abs H N w) ip"
    using well_kept_wf [OF assms]
    by (auto simp: file_abs_def in_force_part_def map_of_live wf_entries_def same_clock in_force_file [of _ _ ip]
        split: option.split)
qed

lemma node_ban_verb:
  assumes "node_inv w" "addr_text ip" "fits64 i" "int (date_s H w) + i < 2 ^ 63"
  shows "o_exit (file_ban H ip (string_of_int i) w) = Exit 0 \<and> node_inv (o_world (file_ban H ip (string_of_int i) w))
    \<and> contract_step file_due (file_abs H N w) (Banned ip i) (file_abs H N (o_world (file_ban H ip (string_of_int i) w)))"
proof -
  let ?es = "entries_of (ban_file H w)" and ?t = "date_s H w" and ?u = "if i \<le> 0 then 0 else date_s H w + nat i"
  let ?new = "filter (\<lambda>e. entry_live ?t e \<and> fst e \<noteq> ip) ?es @ [(ip, ?u)]"
  have inv: "ok w" "well_kept (ban_file H w)" using assms(1) by (simp_all add: node_inv_def)
  obtain w' where w': "file_ban H ip (string_of_int i) w
        = \<lparr>o_exit = Exit 0, o_out = [ban_text ip (string_of_nat ?u)], o_err = [], o_world = w'\<rparr>"
      "ok w'" "ban_file H w' = Content (banlist ?new)"
    using file_ban_spec [OF inv assms(2) ttl_ok_string_of_int ban_until_string_of_int [OF assms(3,4)]] by blast
  have wf: "wf_entries ?new" using wf_entries_snoc [OF well_kept_wf [OF inv(2)] assms(2)] .
  have "map_of (entries_of (ban_file H w')) = (map_of (filter (entry_live ?t) ?es))(ip \<mapsto> ?u)"
    using map_of_filter_key [of "entry_live ?t" ip ?es] wf by (auto simp: w'(3) map_add_def fun_eq_iff split: option.split)
  moreover have "n_now N w' = n_now N w" using ban_instant [of ip "string_of_int i" w] w'(1) by simp
  moreover have "(\<lambda>x. map_option file_expiry (((map_of (filter (entry_live ?t) ?es))(ip \<mapsto> ?u)) x))
      = (\<lambda>x. map_option file_expiry (map_of (filter (entry_live ?t) ?es) x))(ip \<mapsto> file_due (n_now N w) i)"
    by (auto simp: fun_eq_iff file_expiry_def file_due_def same_clock)
  ultimately have "file_abs H N w' = (file_abs H N w)\<lparr>banned :=
      in_force_part (clock (file_abs H N w)) ((banned (file_abs H N w))(ip \<mapsto> file_due (clock (file_abs H N w)) i))\<rparr>"
    using in_force_live_entries [OF inv(2)] abs_of_entries
    by (auto simp: in_force_part_upd file_abs_def in_force_part_idem)
  with contract_step.ban [of file_due "file_abs H N w" ip i] w' wf show ?thesis
    by (auto simp: node_inv_def well_kept_def)
qed

lemma node_unban_verb:
  assumes "node_inv w" "addr_text ip"
  shows "o_exit (file_unban H ip w) = Exit 0 \<and> node_inv (o_world (file_unban H ip w))
    \<and> contract_step file_due (file_abs H N w) (Unbanned ip) (file_abs H N (o_world (file_unban H ip w)))"
proof -
  let ?es = "entries_of (ban_file H w)" and ?t = "date_s H w"
  let ?new = "filter (\<lambda>e. entry_live ?t e \<and> fst e \<noteq> ip) ?es"
  have inv: "ok w" "well_kept (ban_file H w)" using assms(1) by (simp_all add: node_inv_def)
  obtain w' where w': "file_unban H ip w = \<lparr>o_exit = Exit 0, o_out = [''unbanned '' @ ip], o_err = [], o_world = w'\<rparr>"
      "ok w'" "ban_file H w' = Content (banlist ?new)"
    using file_unban_spec [OF inv assms(2)] by blast
  have wf: "wf_entries ?new" using wf_entries_filter [OF well_kept_wf [OF inv(2)]] .
  have "n_now N w' = n_now N w" using unban_instant [of ip w] w'(1) by simp
  moreover have "map_of (entries_of (ban_file H w')) = (map_of (filter (entry_live ?t) ?es))(ip := None)"
    using map_of_filter_key [of "entry_live ?t" ip ?es] wf by (simp add: w'(3))
  moreover have "in_force_part t (B(ip := None)) = (in_force_part t B)(ip := None)" for t and B :: "string \<Rightarrow> expiry option"
    by (auto simp: in_force_part_def fun_eq_iff)
  moreover have "(\<lambda>x. map_option file_expiry (((map_of (filter (entry_live ?t) ?es))(ip := None)) x))
      = (\<lambda>x. map_option file_expiry (map_of (filter (entry_live ?t) ?es) x))(ip := None)"
    by (auto simp: fun_eq_iff)
  ultimately have "file_abs H N w' = (file_abs H N w)\<lparr>banned := (banned (file_abs H N w))(ip := None)\<rparr>"
    using in_force_live_entries [OF inv(2)] by (simp add: file_abs_def)
  with contract_step.unban [of file_due "file_abs H N w" ip] w' wf show ?thesis
    by (auto simp: node_inv_def well_kept_def)
qed

lemma check_answer:
  assumes "node_inv w" "addr_text ip"
  shows "(o_exit (file_check H ip w) = Exit 0) = (banned (file_abs H N w) ip \<noteq> None)" "o_world (file_check H ip w) = w"
  using file_check_spec [of w ip] banned_abs [of w ip] assms
  by (auto simp: node_inv_def split: option.split)

lemma warn_frame:
  "ok w \<Longrightarrow> warnPeriodically N key msg w = (as, w') \<Longrightarrow>
     ok w' \<and> ban_file H w' = ban_file H w \<and> n_now N w' = n_now N w \<and> (\<forall>a \<in> set as. \<exists>m. a = Warn m)"
  using add_frame by (auto simp: warnPeriodically_def split: if_splits prod.splits)

lemma limit_frame:
  "ok w \<Longrightarrow> limit_conn N s cfg w = (as, w') \<Longrightarrow>
     ok w' \<and> ban_file H w' = ban_file H w \<and> n_now N w' = n_now N w \<and> \<not> denied_as_banned as"
  using incr_frame
  by (auto simp: limit_conn_def connRateExceeded_def verdict_def denied_as_banned_def split: if_splits prod.splits bool.splits)

text \<open>The hook rejects a source as banned exactly when its ban is in force.\<close>

lemma access_spec:
  assumes "node_inv w" "cache_ok w c" "banFile (accessCfg s) = path" "access N s w c = (acts, c', w')"
  shows "node_inv w' \<and> ban_file H w' = ban_file H w \<and> n_now N w' = n_now N w
    \<and> denied_as_banned acts = (banned (file_abs H N w) (s_addr s) \<noteq> None)"
proof -
  have ok: "ok w" "well_kept (ban_file H w)" using assms(1) by (simp_all add: node_inv_def)
  obtain b c1 where b: "isBanned N (s_addr s) path w c = (b, c1)" by fastforce
  have b_iff: "b = (banned (file_abs H N w) (s_addr s) \<noteq> None)"
    using isBanned_spec(1) [OF ok(2) assms(2), of "s_addr s"] b by simp
  obtain warned w1 where w1: "warn_banload N s (accessCfg s) c1 w = (warned, w1)" by fastforce
  then have f: "ok w1" "ban_file H w1 = ban_file H w" "n_now N w1 = n_now N w" "\<forall>a \<in> set warned. \<exists>m. a = Warn m"
    using warn_frame [OF ok(1)] ok(1) by (auto simp: warn_banload_def split: if_splits)
  obtain as w2 where l: "limit_conn N s (accessCfg s) w1 = (as, w2)" by fastforce
  have res: "acts = [SetService (service (accessCfg s))] @ warned @
        (if b then [verdict s (service (accessCfg s)) ''ban'' ''banned'' ''rejected-at-accept'', Deny] else as)"
      "w' = (if b then w1 else w2)"
    using assms(3,4) path_set b w1 l by (simp_all add: access_def Let_def split: if_splits)
  have "denied_as_banned acts = b"
  proof (cases b)
    case True
    obtain v where v: "verdict s (service (accessCfg s)) ''ban'' ''banned'' ''rejected-at-accept'' = Verdict v"
        "v_rule v = ''banned''"
      using verdict_rule by blast
    then have "Verdict v \<in> set acts" "Deny \<in> set acts" using True by (simp_all add: res(1))
    with v(2) True show ?thesis by (auto simp: denied_as_banned_def)
  next
    case False
    have "Verdict v \<notin> set warned" "Deny \<notin> set warned" for v using f(4) by auto
    then show ?thesis
      using False limit_frame [OF f(1) l] by (auto simp: res(1) denied_as_banned_def)
  qed
  then show ?thesis
    using f limit_frame [OF f(1) l] ok(2) res(2) b_iff by (auto simp: node_inv_def)
qed

text \<open>A cache filled earlier stays right as long as a changed file has changed stamps.\<close>

lemma earlier_cache_ok:
  assumes "n_stat N path w0 = n_stat N path w \<Longrightarrow> ban_file H w0 = ban_file H w"
    and "well_kept (ban_file H w0)"
  shows "cache_ok w (snd (isBanned N ip path w0 fresh_cache))"
proof -
  consider "ban_file H w0 = NoFile" | es where "ban_file H w0 = Content (banlist es)"
    using assms(2) by (auto simp: well_kept_def)
  then show ?thesis
  proof cases
    case 1
    then show ?thesis
      using path_set by (simp add: isBanned_def loadBans_def stat_missing cache_ok_def)
  next
    case (2 es)
    obtain mtime sz where st: "n_stat N path w0 = Some (mtime, sz)" using stat_present [OF 2] by auto
    then have "snd (isBanned N ip path w0 fresh_cache) =
        \<lparr>c_path = path, c_mtime = mtime, c_size = Some sz, c_map = parse_banlist (banlist es), c_failed = False\<rparr>"
      using path_set read_present [OF 2] by (simp add: isBanned_def loadBans_def fresh_cache_def)
    with st 2 assms(1) show ?thesis by (auto simp: cache_ok_def)
  qed
qed

lemma fresh_cache_ok: "cache_ok w fresh_cache"
  by (simp add: cache_ok_def fresh_cache_def)

lemma abs_same: "ban_file H w' = ban_file H w \<Longrightarrow> n_now N w' = n_now N w \<Longrightarrow> file_abs H N w' = file_abs H N w"
  by (simp add: file_abs_def)

lemma other_verbs:
  "arg 1 args \<noteq> ''ban'' \<Longrightarrow> arg 1 args \<noteq> ''unban'' \<Longrightarrow> o_world (shield_ban H args w) = w"
  by (simp add: shield_ban_def file_check_def file_list_def file_health_def Let_def split_beta)

lemma string_of_int_not_Nil [simp]: "string_of_int i \<noteq> []"
  by (simp add: string_of_int_def)

lemma node_simulates:
  assumes "node_inv w" "file_step H N path ok w e w'"
  shows "node_inv w' \<and> (\<exists>v. file_reads e v \<and> contract_step file_due (file_abs H N w) v (file_abs H N w'))"
  using assms(2)
proof (cases rule: file_step.cases)
  case (verb args)
  consider (ban) "arg 1 args = ''ban''" | (unban) "arg 1 args = ''unban''" | (check) "arg 1 args = ''check''"
    | (other) "arg 1 args \<notin> {''ban'', ''unban'', ''check''}" by blast
  then show ?thesis
  proof cases
    case ban
    then obtain i where i: "addr_text (arg 2 args)" "arg 3 args = string_of_int i" "fits64 i" "int (date_s H w) + i < 2 ^ 63"
      using verb(3) by (auto simp: sane_args_def)
    then have "shield_ban H args w = file_ban H (arg 2 args) (string_of_int i) w"
      using ban by (simp add: shield_ban_def)
    with node_ban_verb [OF assms(1) i(1,3,4)] ban i(2) verb show ?thesis by (auto simp: decimal_string_of_int)
  next
    case unban
    then have a: "addr_text (arg 2 args)" using verb(3) by (simp add: sane_args_def)
    then have "shield_ban H args w = file_unban H (arg 2 args) w"
      using unban by (simp add: shield_ban_def)
    with node_unban_verb [OF assms(1) a] unban verb show ?thesis by auto
  next
    case check
    then have a: "addr_text (arg 2 args)" using verb(3) by (simp add: sane_args_def)
    then have "shield_ban H args w = file_check H (arg 2 args) w"
      using check by (simp add: shield_ban_def)
    with check_answer [OF assms(1) a] check verb contract_step.answer [of file_due "file_abs H N w" "arg 2 args"] assms(1)
    show ?thesis by auto
  next
    case other
    then have "w' = w" using verb(2) other_verbs by simp
    with other verb assms(1) show ?thesis by (auto intro: contract_step.silent)
  qed
next
  case (conn s acts c)
  have acc: "node_inv w'" "ban_file H w' = ban_file H w" "n_now N w' = n_now N w"
      "denied_as_banned acts = (banned (file_abs H N w) (s_addr s) \<noteq> None)"
    using access_spec [OF assms(1) fresh_cache_ok conn(2,4)] by simp_all
  with abs_same [OF acc(2,3)] conn(1) contract_step.enforce [of "file_abs H N w" "s_addr s" file_due]
    contract_step.spare [of "file_abs H N w" "s_addr s" file_due]
  show ?thesis by simp
next
  case time
  have "file_abs H N w' = \<lparr>clock = n_now N w', banned = in_force_part (n_now N w') (banned (file_abs H N w))\<rparr>"
    using time by (simp add: file_abs_def in_force_part_idem)
  with contract_step.elapse [of "file_abs H N w" "n_now N w'" file_due] time assms(1) show ?thesis
    by (auto simp: node_inv_def file_abs_def)
qed

end

sublocale ban_node \<subseteq> file_backend: ban_backend "file_step H N path ok" node_inv "file_abs H N" file_reads file_due
  using node_simulates by unfold_locales blast+

section \<open>A machine in order\<close>

record fworld =
  fw_file :: "string option"
  fw_tmp :: "string \<Rightarrow> string option"
  fw_ms :: nat
  fw_mtime :: nat
  fw_dict :: "string \<Rightarrow> nat option"

definition script_host :: "fworld fhost" where
  "script_host =
     \<lparr>date_s = (\<lambda>w. fw_ms w div 1000),
      ban_file = (\<lambda>w. case fw_file w of None \<Rightarrow> NoFile | Some s \<Rightarrow> Content s),
      mkdir_p = Pair True, open_lock = Pair True, flock_x = Pair True,
      mktemp = Pair (Some ''banlist.tmp''),
      cat_to = (\<lambda>tmp s w. (True, w\<lparr>fw_tmp := (fw_tmp w)(tmp \<mapsto> s)\<rparr>)),
      chmod_644 = (\<lambda>tmp. Pair True),
      mv_over = (\<lambda>tmp w. case fw_tmp w tmp of
         None \<Rightarrow> (False, w)
       | Some s \<Rightarrow> (True, w\<lparr>fw_file := Some s, fw_tmp := (fw_tmp w)(tmp := None), fw_mtime := fw_ms w\<rparr>)),
      is_dir = (\<lambda>_. True), is_writable = (\<lambda>_. True), ban_dir = ''/var/lib/fips-shield'',
      awk_number = (\<lambda>s. if s = [] then None else map_option of_nat (digits_value 10 0 s)),
      awk_greater = (\<lambda>_ _. False), awk_value = (\<lambda>s. s), wide_constant = (\<lambda>_. 2 ^ 63 - 1)\<rparr>"

definition nginx_host :: "fworld nhost" where
  "nginx_host =
     \<lparr>n_stat = (\<lambda>_ w. map_option (\<lambda>s. (fw_mtime w, length s)) (fw_file w)),
      n_read = (\<lambda>_. fw_file), n_now = fw_ms, n_dict = (\<lambda>_. True),
      n_add = (\<lambda>k w. case fw_dict w k of
         None \<Rightarrow> (True, w\<lparr>fw_dict := (fw_dict w)(k \<mapsto> 1)\<rparr>) | Some _ \<Rightarrow> (False, w)),
      n_incr = (\<lambda>k w. let n = (case fw_dict w k of None \<Rightarrow> 0 | Some n \<Rightarrow> n) + 1 in (n, w\<lparr>fw_dict := (fw_dict w)(k \<mapsto> n)\<rparr>)),
      n_show = (\<lambda>x. string_of_int \<lfloor>x\<rfloor>)\<rparr>"

lemma digits_value_None: "ch \<in> set s \<Longrightarrow> to_digit r ch = None \<Longrightarrow> digits_value r acc s = None"
  by (induction s arbitrary: acc) (auto split: option.split)

lemma number_of_addr: "addr_text ip \<Longrightarrow> digits_value 10 0 ip = None"
  by (rule digits_value_None [of "CHR '':''"]) (auto simp: addr_text_def to_digit_def)

interpretation demo_node: ban_node script_host "\<lambda>_. True" fw_tmp nginx_host "''/banlist''"
  by unfold_locales
    (auto simp: script_host_def nginx_host_def digits_value_string_of_nat number_of_addr Let_def
      split: option.splits)

context ban_node begin

lemma file_run_refines:
  assumes "runs (file_step H N path ok) w es w'" "ok w" "well_kept (ban_file H w)"
  shows "\<exists>vs. list_all2 file_reads es vs \<and> runs (contract_step file_due) (file_abs H N w) vs (file_abs H N w')"
  using file_backend.run_refines [OF assms(1)] assms(2,3) by (auto simp: node_inv_def)

lemma file_no_collateral:
  assumes "runs (file_step H N path ok) w es w'" "ok w" "well_kept (ban_file H w)"
    and "banned (file_abs H N w) ip = None" "\<And>e ttl. e \<in> set es \<Longrightarrow> \<not> file_reads e (Banned ip ttl)"
  shows "banned (file_abs H N w') ip = None"
  using file_backend.backend_no_collateral [OF assms(1) _ assms(4)] assms(2,3,5) by (simp add: node_inv_def)

lemma check_isBanned:
  assumes "ok w" "well_kept (ban_file H w)" "addr_text ip" "cache_ok w c"
  shows "(o_exit (shield_ban H [''check'', ip] w) = Exit 0) = fst (isBanned N ip path w c)"
proof -
  have "shield_ban H [''check'', ip] w = file_check H ip w"
    using addr_not_Nil [OF assms(3)] by (simp add: shield_ban_def arg_def)
  then show ?thesis
    using check_answer(1) [of w ip] isBanned_spec(1) [OF assms(2,4), of ip] assms(1-3) by (simp add: node_inv_def)
qed

end

section \<open>Properties\<close>


definition demo_fworld :: fworld where
  "demo_fworld = \<lparr>fw_file = Some (banlist [(''fd00::1'', 0), (''fd00::2'', 900), (''fd00::3'', 1500)]),
     fw_tmp = (\<lambda>_. None), fw_ms = 1000999, fw_mtime = 5, fw_dict = (\<lambda>_. None)\<rparr>"

lemma demo_well_kept: "well_kept (ban_file script_host demo_fworld)"
proof -
  have "wf_entries [(''fd00::1'', 0), (''fd00::2'', 900), (''fd00::3'', 1500)]"
    by (simp add: wf_entries_def addr_text_def addr_char_def is_digit_def)
  then show ?thesis by (auto simp: well_kept_def script_host_def demo_fworld_def)
qed

lemma demo_ip: "addr_text ''fd00::3''"
  by (simp add: addr_text_def addr_char_def is_digit_def)


text \<open>C8. The two readers of the file agree at every millisecond: \<open>shield-ban check\<close>, with awk and
  whole seconds, exits with success exactly when the engine in nginx, with its own parser, its
  millisecond clock and possibly a cache filled by an earlier check, finds the source banned.
  The cache is trusted by modification time and size, so a changed file must change one of them.\<close>

theorem readers_agree:
  assumes "ban_node H ok tmp_text N path" "ok w" "well_kept (ban_file H w)" "addr_text ip"
    and "well_kept (ban_file H w0)" "n_stat N path w0 = n_stat N path w \<Longrightarrow> ban_file H w0 = ban_file H w"
  shows "(o_exit (shield_ban H [''check'', ip] w) = Exit 0) = fst (isBanned N ip path w fresh_cache)
    \<and> fst (isBanned N ip path w (snd (isBanned N other path w0 fresh_cache))) = fst (isBanned N ip path w fresh_cache)"
  using ban_node.check_isBanned [OF assms(1-4) ban_node.fresh_cache_ok [OF assms(1)]]
    ban_node.check_isBanned [OF assms(1-4) ban_node.earlier_cache_ok [OF assms(1,6,5), of other]]
  by simp

theorem readers_agree_witness:
  "(o_exit (shield_ban script_host [''check'', ''fd00::3''] demo_fworld) = Exit 0)
     = fst (isBanned nginx_host ''fd00::3'' ''/banlist'' demo_fworld fresh_cache)"
  using readers_agree [OF demo_node.ban_node_axioms _ demo_well_kept demo_ip demo_well_kept] by simp

section \<open>The connection limit\<close>

text \<open>The contract of the shared dictionary: a counter per key, as long as entries neither time out
  nor are evicted.\<close>

locale conn_dict =
  fixes N :: "'w nhost" and count :: "'w \<Rightarrow> string \<Rightarrow> nat"
  assumes zone: "n_dict N w"
    and incr: "n_incr N k w = (n, w') \<Longrightarrow> n = Suc (count w k) \<and> count w' = (count w)(k := n)"

text \<open>Connections that reach the limit, with everything else that keeps the counters in between.\<close>

inductive conn_runs :: "'w nhost \<Rightarrow> ('w \<Rightarrow> string \<Rightarrow> nat) \<Rightarrow> 'w \<Rightarrow> (string \<times> rat \<times> bool) list \<Rightarrow> 'w \<Rightarrow> bool"
  for N :: "'w nhost" and count :: "'w \<Rightarrow> string \<Rightarrow> nat" and w :: 'w where
  idle: "conn_runs N count w [] w"
| limited: "conn_runs N count w cs w1 \<Longrightarrow> connRate cfg \<noteq> 0 \<Longrightarrow> connRateExceeded N s cfg w1 = (refused, w2) \<Longrightarrow>
    conn_runs N count w (cs @ [(conn_key s cfg (n_now N w1), connRate cfg, refused)]) w2"
| between: "conn_runs N count w cs w1 \<Longrightarrow> count w2 = count w1 \<Longrightarrow> conn_runs N count w cs w2"

context conn_dict begin

lemma accepted_bound:
  assumes "conn_runs N count w cs w'" "0 \<le> r" "\<And>q x. (k, q, x) \<in> set cs \<Longrightarrow> q = r"
  shows "length (filter (\<lambda>c. c = (k, r, False)) cs) \<le> count w' k
    \<and> of_nat (length (filter (\<lambda>c. c = (k, r, False)) cs)) \<le> r"
  using assms
proof (induction rule: conn_runs.induct)
  case (limited cs w1 cfg s refused w2)
  let ?k = "conn_key s cfg (n_now N w1)"
  obtain n where n: "n_incr N ?k w1 = (n, w2)" "refused = (of_nat n > connRate cfg)"
    using limited.hyps(2,3) by (auto simp: connRateExceeded_def zone split: prod.splits)
  have c: "n = Suc (count w1 ?k)" "count w2 = (count w1)(?k := n)" using incr [OF n(1)] by auto
  have IH: "length (filter (\<lambda>c. c = (k, r, False)) cs) \<le> count w1 k"
      "of_nat (length (filter (\<lambda>c. c = (k, r, False)) cs)) \<le> r"
    using limited.IH limited.prems by auto
  show ?case
  proof (cases "?k = k \<and> \<not> refused")
    case True
    then have "connRate cfg = r" using limited.prems(2) by auto
    have "of_nat (Suc (length (filter (\<lambda>c. c = (k, r, False)) cs))) \<le> (of_nat n :: rat)"
      using IH(1) c True by (simp only: of_nat_le_iff)
    also have "\<dots> \<le> r" using n(2) True \<open>connRate cfg = r\<close> by simp
    finally show ?thesis using IH(1) c True \<open>connRate cfg = r\<close> by simp
  next
    case False
    then show ?thesis using IH c by auto
  qed
qed auto

end

interpretation nginx_dict: conn_dict nginx_host "\<lambda>w k. case fw_dict w k of None \<Rightarrow> 0 | Some n \<Rightarrow> n"
  by unfold_locales (auto simp: nginx_host_def Let_def fun_eq_iff)

definition demo_session :: session where
  "demo_session = \<lparr>s_port = ''80'', s_addr = ''fd00::3'', s_cfg = None\<rparr>"

definition demo_cfg :: access_cfg where
  "demo_cfg = \<lparr>service = ''x'', banFile = [], connRate = 1, connWindow = 60\<rparr>"

definition demo_conn_key :: string where
  "demo_conn_key = conn_key demo_session demo_cfg 1000999"



section \<open>Corners of the script\<close>

text \<open>Seconds with a leading zero pass the check of the argument and are then read as octal.\<close>

lemma octal_seconds: "ttl_ok ''0600'' \<and> arith_ttl H ''0600'' = Some 384" "ttl_ok ''0900'' \<and> arith_ttl H ''0900'' = None"
  by (simp_all add: ttl_ok_def is_digit_def arith_ttl_def arith_constant_def fits64_def)

text \<open>When the file cannot be read, \<open>unban\<close> fails, but only after it replaced the file by an empty one.\<close>

lemma unreadable_is_emptied:
  assumes "locked H w = (True, w1)" "ban_file H w1 = Unreadable" "rewrite H [] w1 = (True, w2)"
  shows "file_unban H ip w = \<lparr>o_exit = Aborted, o_out = [], o_err = [], o_world = w2\<rparr>"
  using assms by (simp add: file_unban_def active_entries_def without_ip_def)

end
