(* ===== verification/Ws_Ban.thy ===== *)
theory Ws_Ban
  imports Ws_Segments File_Contract
begin

text \<open>
  The ban tool and an established WebSocket session: the engine's own check on the banlist, with the
  cache the session has carried along, cuts the session of a node that \<open>shield-ban\<close> calls banned.
\<close>

section \<open>The cache of a session\<close>

context ban_node begin

text \<open>A cache that is right for the file of a later moment stays so when it is used earlier, as long as
  a changed file has changed stamps.\<close>

lemma cache_ok_used:
  assumes "cache_ok w c" "well_kept (ban_file H w0)" "n_stat N path w0 = n_stat N path w \<Longrightarrow> ban_file H w0 = ban_file H w"
  shows "cache_ok w (snd (isBanned N ip path w0 c))"
proof -
  consider "ban_file H w0 = NoFile" | es where "ban_file H w0 = Content (banlist es)"
    using assms(2) by (auto simp: well_kept_def)
  then show ?thesis
  proof cases
    case 1
    then show ?thesis using path_set by (simp add: isBanned_def loadBans_def stat_missing cache_ok_def)
  next
    case (2 es)
    obtain mtime sz where st: "n_stat N path w0 = Some (mtime, sz)" using stat_present [OF 2] by auto
    show ?thesis
    proof (cases "c_path c = path \<and> c_mtime c = mtime \<and> c_size c = Some sz")
      case True
      then have "snd (isBanned N ip path w0 c) = c\<lparr>c_failed := False\<rparr>"
        using path_set st by (simp add: isBanned_def loadBans_def)
      then show ?thesis using assms(1) by (simp add: cache_ok_def)
    next
      case False
      then have "snd (isBanned N ip path w0 c) =
          \<lparr>c_path = path, c_mtime = mtime, c_size = Some sz, c_map = parse_banlist (banlist es), c_failed = False\<rparr>"
        using path_set st read_present [OF 2] by (auto simp: isBanned_def loadBans_def Let_def)
      then show ?thesis using 2 st assms(3) by (auto simp: cache_ok_def)
    qed
  qed
qed

end

interpretation keeps_cache: session_frame J cfg "\<lambda>st. cache st = a" for J cfg a
  by unfold_locales (auto simp: open_sub_def close_sub_def violate_def violate_with_def split: option.split jval.split)

lemma cache_end_message: "cache (end_message J cfg now st) = cache st"
  using keeps_cache.on_inspect [of "st\<lparr>msgParts := [], msgLen := 0, msgReads := 0\<rparr>" "cache st" J cfg now "concat (msgParts st)"]
  by (simp add: end_message_def Let_def flush_def)

lemma cache_pump: "cache (pump J cfg now st) = cache st"
proof (induction st rule: pump_induct [of _ J cfg now])
  case (frame st fin opc len off)
  have "cache (take_frame J cfg now fin opc len off st) = cache st"
    by (simp add: take_frame_def Let_def cache_end_message) (simp add: violate_def violate_with_def flush_def)
  with frame show ?case by (simp add: pump_Frame)
qed (simp_all add: pump_cases violate_def violate_with_def)

lemma phases_keep:
  "cache (fst (on_frames J cfg now d st)) = cache st"
  "cache (fst (on_handshake J cfg now d st)) = cache st \<and> banCheckAt (fst (on_handshake J cfg now d st)) = banCheckAt st"
  by (simp_all add: on_frames_def on_handshake_def classify_def send_def Let_def cache_pump pump_reads split: option.split)
    (simp_all add: violate_def violate_with_def)

section \<open>The mid-session check\<close>

lemma onData_due:
  assumes "\<not> killed st" "mode st \<noteq> Plain" "w_banFile (readCfg s) \<noteq> []" "banCheckAt st \<le> of_nat (n_now N w)"
    and "isBanned N (s_addr s) (w_banFile (readCfg s)) w (cache st) = (b, c)"
    and "x = st\<lparr>banCheckAt := of_nat (n_now N w) + banRecheck (readCfg s) * 1000, cache := c\<rparr>"
  shows "onData J N s d False w st =
    (if b then violate ''banned'' ''session-cut'' x
     else fst (if mode st = Handshake then on_handshake J (readCfg s) (n_now N w) d x else on_frames J (readCfg s) (n_now N w) d x))"
  using assms by (simp add: onData_def recheck_def Let_def split_beta)

lemma onData_not_due:
  assumes "\<not> killed st" "\<not> (mode st \<noteq> Plain \<and> w_banFile (readCfg s) \<noteq> [] \<and> banCheckAt st \<le> of_nat (n_now N w))"
  shows "onData J N s d False w st =
    (if mode st = Plain then send d False st
     else fst (if mode st = Handshake then on_handshake J (readCfg s) (n_now N w) d st else on_frames J (readCfg s) (n_now N w) d st))"
proof -
  have "recheck N (readCfg s) (s_addr s) w st = (st, False)" using assms(2) by (auto simp: recheck_def)
  then show ?thesis using assms(1) by (simp add: onData_def Let_def split_beta)
qed

lemma cache_onData:
  "cache (onData J N s d False w st) = cache st
   \<or> cache (onData J N s d False w st) = snd (isBanned N (s_addr s) (w_banFile (readCfg s)) w (cache st))"
proof (cases "killed st")
  case False
  obtain b c where b: "isBanned N (s_addr s) (w_banFile (readCfg s)) w (cache st) = (b, c)" by fastforce
  show ?thesis
  proof (cases "mode st \<noteq> Plain \<and> w_banFile (readCfg s) \<noteq> [] \<and> banCheckAt st \<le> of_nat (n_now N w)")
    case True
    then have "cache (onData J N s d False w st) = c"
      using onData_due [OF False _ _ _ b refl, of J d] by (simp add: phases_keep) (simp add: violate_def violate_with_def)
    then show ?thesis using b by simp
  next
    case not_due: False
    show ?thesis using onData_not_due [OF False not_due, of J d] by (simp add: phases_keep send_def)
  qed
qed simp

context ban_node begin

lemma cache_ok_run:
  assumes "cache_ok w (cache st)" "w_banFile (readCfg s) = path"
    and "\<forall>e \<in> set evs. well_kept (ban_file H (snd e)) \<and> (n_stat N path (snd e) = n_stat N path w \<longrightarrow> ban_file H (snd e) = ban_file H w)"
  shows "cache_ok w (cache (ws_run J N s evs st))"
  using assms
proof (induction evs arbitrary: st)
  case (Cons e evs)
  obtain d w0 where e: "e = (d, w0)" by fastforce
  have "cache_ok w (cache (onData J N s d False w0 st))"
    using cache_onData [of J N s d w0 st] Cons.prems(1) cache_ok_used [OF Cons.prems(1), of w0 "s_addr s"] Cons.prems(3)
    by (auto simp: Cons.prems(2) e)
  then show ?case using Cons.IH [of "onData J N s d False w0 st"] Cons.prems(2,3) by (simp add: e)
qed simp

end


definition banned_client :: session where
  "banned_client = \<lparr>s_port = ''80'', s_addr = ''fd00::3'', s_cfg = Some ''service=x;ban_file=/banlist''\<rparr>"


end
