(* ===== verification/Net_Addr.thy ===== *)
theory Net_Addr
  imports Rust_Str
begin

text \<open>
  Network addresses of the standard library as the sources use them: parsing an \<open>IpAddr\<close>
  and a \<open>SocketAddr\<close>, printing an \<open>Ipv6Addr\<close>, its octets and back, and \<open>is_loopback\<close>.
  An IPv6 address is its eight 16-bit segments, an IPv4 address its four octets.
\<close>

type_synonym ipv6addr = "u16 list"
type_synonym ipv4addr = "u8 list"

datatype ip_addr = V4 ipv4addr | V6 ipv6addr

record socket_addr =
  sock_ip :: ip_addr
  sock_port :: u16

section \<open>Parsing\<close>

text \<open>
  A parser consumes a prefix and returns the rest; a failed parser leaves its input to the
  next alternative, as \<open>read_atomically\<close> does.
\<close>

type_synonym 'a parser = "string \<Rightarrow> ('a \<times> string) option"

definition read_given_char :: "char \<Rightarrow> unit parser" where
  "read_given_char c s = (case s of [] \<Rightarrow> None | x # xs \<Rightarrow> if x = c then Some ((), xs) else None)"

definition read_number ::
  "nat \<Rightarrow> nat option \<Rightarrow> bool \<Rightarrow> nat \<Rightarrow> nat parser" where
  "read_number radix max_digits allow_zero_prefix mx s =
     (let is_dig = (\<lambda>c. to_digit radix c \<noteq> None);
          ds = takeWhile is_dig s
      in if ds = [] then None
         else if (case max_digits of None \<Rightarrow> False | Some k \<Rightarrow> length ds > k) then None
         else if \<not> allow_zero_prefix \<and> hd ds = CHR ''0'' \<and> length ds > 1 then None
         else (case digits_value radix 0 ds of
                 None \<Rightarrow> None
               | Some v \<Rightarrow> if v \<le> mx then Some (v, dropWhile is_dig s) else None))"

definition read_separator :: "char \<Rightarrow> nat \<Rightarrow> 'a parser \<Rightarrow> 'a parser" where
  "read_separator sep i inner s =
     (if i > 0
      then (case read_given_char sep s of None \<Rightarrow> None | Some (_, r) \<Rightarrow> inner r)
      else inner s)"

fun read_v4_groups :: "nat \<Rightarrow> nat \<Rightarrow> ipv4addr parser" where
  "read_v4_groups i 0 s = Some ([], s)"
| "read_v4_groups i (Suc k) s =
     (case read_separator (CHR ''.'') i (read_number 10 (Some 3) False 255) s of
        None \<Rightarrow> None
      | Some (g, r) \<Rightarrow>
          map_option (\<lambda>(gs, r'). (of_nat g # gs, r')) (read_v4_groups (Suc i) k r))"

definition read_ipv4_addr :: "ipv4addr parser" where
  "read_ipv4_addr s = read_v4_groups 0 4 s"

definition be16 :: "u8 \<Rightarrow> u8 \<Rightarrow> u16" where
  "be16 hi lo = of_nat (unat hi * 256 + unat lo)"

text \<open>
  \<open>read_groups\<close> with \<open>k\<close> groups left of the limit; the flag says that a trailing IPv4
  address was read, for which two groups must be left.
\<close>

fun read_groups :: "nat \<Rightarrow> nat \<Rightarrow> string \<Rightarrow> u16 list \<times> bool \<times> string" where
  "read_groups i 0 s = ([], False, s)"
| "read_groups i (Suc k) s =
     (case (if k \<ge> 1 then read_separator (CHR '':'') i read_ipv4_addr s else None) of
        Some (a, r) \<Rightarrow> ([be16 (a ! 0) (a ! 1), be16 (a ! 2) (a ! 3)], True, r)
      | None \<Rightarrow>
          (case read_separator (CHR '':'') i (read_number 16 (Some 4) True 65535) s of
             None \<Rightarrow> ([], False, s)
           | Some (g, r) \<Rightarrow>
               (case read_groups (Suc i) k r of (gs, v4, r') \<Rightarrow> (of_nat g # gs, v4, r'))))"

definition read_ipv6_addr :: "ipv6addr parser" where
  "read_ipv6_addr s =
     (case read_groups 0 8 s of
        (front, front_v4, s1) \<Rightarrow>
          if length front = 8 then Some (front, s1)
          else if front_v4 then None
          else (case read_given_char (CHR '':'') s1 of
                  None \<Rightarrow> None
                | Some (_, s2) \<Rightarrow>
                    (case read_given_char (CHR '':'') s2 of
                       None \<Rightarrow> None
                     | Some (_, s3) \<Rightarrow>
                         (case read_groups 0 (8 - (length front + 1)) s3 of
                            (rear, _, s4) \<Rightarrow>
                              Some (front @ replicate (8 - length front - length rear) 0 @ rear, s4)))))"

definition parse_with :: "'a parser \<Rightarrow> string \<Rightarrow> 'a option" where
  "parse_with p s = (case p s of Some (a, []) \<Rightarrow> Some a | _ \<Rightarrow> None)"

definition read_ip_addr :: "ip_addr parser" where
  "read_ip_addr s =
     (case read_ipv4_addr s of
        Some (a, r) \<Rightarrow> Some (V4 a, r)
      | None \<Rightarrow> map_option (\<lambda>(a, r). (V6 a, r)) (read_ipv6_addr s))"

definition parse_ip :: "string \<Rightarrow> ip_addr option" where
  "parse_ip s = parse_with read_ip_addr s"

definition read_port :: "nat parser" where
  "read_port s =
     (case read_given_char (CHR '':'') s of
        None \<Rightarrow> None | Some (_, r) \<Rightarrow> read_number 10 None True 65535 r)"

definition read_scope_id :: "nat parser" where
  "read_scope_id s =
     (case read_given_char (CHR ''%'') s of
        None \<Rightarrow> None | Some (_, r) \<Rightarrow> read_number 10 None True (2 ^ 32 - 1) r)"

definition read_socket_addr :: "socket_addr parser" where
  "read_socket_addr s =
     (case (case read_ipv4_addr s of
              None \<Rightarrow> None
            | Some (a, r) \<Rightarrow>
                map_option (\<lambda>(p, r'). (\<lparr>sock_ip = V4 a, sock_port = of_nat p\<rparr>, r')) (read_port r)) of
        Some x \<Rightarrow> Some x
      | None \<Rightarrow>
          (case read_given_char (CHR ''['') s of
             None \<Rightarrow> None
           | Some (_, s1) \<Rightarrow>
               (case read_ipv6_addr s1 of
                  None \<Rightarrow> None
                | Some (a, s2) \<Rightarrow>
                    (let s3 = (case read_scope_id s2 of None \<Rightarrow> s2 | Some (_, r) \<Rightarrow> r) in
                     case read_given_char (CHR '']'') s3 of
                       None \<Rightarrow> None
                     | Some (_, s4) \<Rightarrow>
                         map_option (\<lambda>(p, r'). (\<lparr>sock_ip = V6 a, sock_port = of_nat p\<rparr>, r'))
                           (read_port s4)))))"

definition parse_socket_addr :: "string \<Rightarrow> socket_addr option" where
  "parse_socket_addr s = parse_with read_socket_addr s"

fun is_loopback :: "ip_addr \<Rightarrow> bool" where
  "is_loopback (V4 a) = (a \<noteq> [] \<and> hd a = 127)"
| "is_loopback (V6 a) = (a = [0, 0, 0, 0, 0, 0, 0, 1])"

section \<open>Octets and printing\<close>

fun octets :: "ipv6addr \<Rightarrow> u8 list" where
  "octets [] = []"
| "octets (s # ss) = of_nat (unat s div 256) # of_nat (unat s mod 256) # octets ss"

fun from_octets :: "u8 list \<Rightarrow> ipv6addr" where
  "from_octets (hi # lo # bs) = be16 hi lo # from_octets bs"
| "from_octets _ = []"

fun hex_of_nat :: "nat \<Rightarrow> string" where
  "hex_of_nat n =
     (if n < 16 then [digit_char n] else hex_of_nat (n div 16) @ [digit_char (n mod 16)])"

declare hex_of_nat.simps [simp del]

text \<open>The longest run of zero segments, the first one when several are longest.\<close>

fun zero_span ::
  "nat \<Rightarrow> nat \<times> nat \<Rightarrow> nat \<times> nat \<Rightarrow> ipv6addr \<Rightarrow> nat \<times> nat" where
  "zero_span i longest current [] = longest"
| "zero_span i longest current (s # ss) =
     (if s = 0
      then (let cur = ((if snd current = 0 then i else fst current), snd current + 1);
                lng = (if snd cur > snd longest then cur else longest)
            in zero_span (Suc i) lng cur ss)
      else zero_span (Suc i) longest (0, 0) ss)"

definition fmt_subslice :: "ipv6addr \<Rightarrow> string" where
  "fmt_subslice ss = join '':'' (map (\<lambda>s. hex_of_nat (unat s)) ss)"

definition ipv4_to_string :: "ipv4addr \<Rightarrow> string" where
  "ipv4_to_string a = join ''.'' (map (\<lambda>b. string_of_nat (unat b)) a)"

definition ipv6_to_string :: "ipv6addr \<Rightarrow> string" where
  "ipv6_to_string segs =
     (if take 6 segs = [0, 0, 0, 0, 0, 0xFFFF]
      then ''::ffff:'' @ ipv4_to_string (drop 12 (octets segs))
      else (case zero_span 0 (0, 0) (0, 0) segs of
              (start, len) \<Rightarrow>
                if len > 1
                then fmt_subslice (take start segs) @ ''::'' @ fmt_subslice (drop (start + len) segs)
                else fmt_subslice segs))"

definition ip_to_string :: "ip_addr \<Rightarrow> string" where
  "ip_to_string a = (case a of V4 x \<Rightarrow> ipv4_to_string x | V6 x \<Rightarrow> ipv6_to_string x)"

definition socket_addr_to_string :: "socket_addr \<Rightarrow> string" where
  "socket_addr_to_string a =
     (case sock_ip a of
        V4 x \<Rightarrow> ipv4_to_string x
      | V6 x \<Rightarrow> ''['' @ ipv6_to_string x @ '']'') @ '':'' @ string_of_nat (unat (sock_port a))"

section \<open>Laws\<close>

lemma from_octets_octets [simp]: "from_octets (octets a) = a"
proof (induction a)
  case (Cons s a)
  have "unat s < 65536" using unsigned_less [of s] by simp
  then have "unat s div 256 < 256" by (simp add: less_mult_imp_div_less)
  with Cons show ?case
    by (simp add: be16_def unat_of_nat)
qed simp

lemma octets_inj: "octets a = octets b \<longleftrightarrow> a = b"
  by (metis from_octets_octets)

lemma length_octets [simp]: "length (octets a) = 2 * length a"
  by (induction a) auto

lemma octets_from_octets: "even (length bs) \<Longrightarrow> octets (from_octets bs) = bs"
proof (induction bs rule: from_octets.induct)
  case (1 hi lo bs)
  have "unat hi < 256" "unat lo < 256" using unsigned_less [of hi] unsigned_less [of lo] by simp_all
  then have "unat (be16 hi lo) = unat hi * 256 + unat lo"
    unfolding be16_def by (subst unat_of_nat) simp
  with 1 \<open>unat lo < 256\<close> show ?case by simp
qed auto

lemma plain_join:
  "list_all plain sep \<Longrightarrow> list_all (list_all plain) xs \<Longrightarrow> list_all plain (join sep xs)"
  by (induction sep xs rule: join.induct) auto

lemma plain_hex_of_nat: "list_all plain (hex_of_nat n)"
proof (induction n rule: hex_of_nat.induct)
  case (1 n)
  then show ?case
    by (cases "n < 16") (simp_all add: hex_of_nat.simps [of n] plain_digit_char)
qed

lemma plain_ipv6_to_string: "list_all plain (ipv6_to_string a)"
proof -
  have "list_all plain (fmt_subslice s)" for s
    unfolding fmt_subslice_def
    by (rule plain_join) (simp_all add: list_all_iff plain_def plain_hex_of_nat [unfolded list_all_iff plain_def])
  moreover have "list_all plain (ipv4_to_string b)" for b
    unfolding ipv4_to_string_def
    by (rule plain_join) (simp_all add: list_all_iff plain_def plain_string_of_nat [unfolded list_all_iff plain_def])
  moreover have "list_all plain ''::''" "list_all plain ''::ffff:''" by (simp_all add: plain_def)
  ultimately show ?thesis by (simp add: ipv6_to_string_def split: prod.split)
qed

lemma ipv6_to_string_not_Nil: "length a = 8 \<Longrightarrow> ipv6_to_string a \<noteq> []"
proof -
  assume "length a = 8"
  then obtain x y z where "a = x # y # z" by (cases a; cases "tl a") auto
  moreover have "hex_of_nat n \<noteq> []" for n by (subst hex_of_nat.simps) simp
  ultimately show ?thesis
    by (cases z) (auto simp: ipv6_to_string_def fmt_subslice_def split: prod.split)
qed

lemma length_read_groups: "read_groups i k s = (gs, v4, r) \<Longrightarrow> length gs \<le> k"
proof (induction k arbitrary: i s gs v4 r)
  case (Suc k)
  then show ?case
    by (fastforce split: option.splits prod.splits if_splits)
qed simp

lemma length_read_ipv6: "read_ipv6_addr s = Some (a, r) \<Longrightarrow> length a = 8"
proof -
  assume *: "read_ipv6_addr s = Some (a, r)"
  obtain h v s1 where h: "read_groups 0 8 s = (h, v, s1)" using prod_cases3 by blast
  have len: "length h \<le> 8" by (rule length_read_groups [OF h])
  show ?thesis
  proof (cases "length h = 8")
    case True
    with * h show ?thesis by (auto simp: read_ipv6_addr_def)
  next
    case False
    with * h obtain s3 g w s4 where
        t: "read_groups 0 (8 - (length h + 1)) s3 = (g, w, s4)"
      and a: "a = h @ replicate (8 - length h - length g) 0 @ g"
      by (auto simp: read_ipv6_addr_def split: option.splits if_splits prod.splits)
    have "length g \<le> 8 - (length h + 1)" by (rule length_read_groups [OF t])
    with a len False show ?thesis by simp
  qed
qed

lemma length_parse_ip: "parse_ip s = Some (V6 a) \<Longrightarrow> length a = 8"
  by (auto simp: parse_ip_def parse_with_def read_ip_addr_def
      split: option.splits list.splits prod.splits dest: length_read_ipv6)

text \<open>Evaluation of the address parser on a literal.\<close>

lemma read_groups_numeral [parse_eval]:
  "read_groups i (numeral n) s =
     (case (if pred_numeral n \<ge> 1 then read_separator (CHR '':'') i read_ipv4_addr s else None) of
        Some (a, r) \<Rightarrow> ([be16 (a ! 0) (a ! 1), be16 (a ! 2) (a ! 3)], True, r)
      | None \<Rightarrow>
          (case read_separator (CHR '':'') i (read_number 16 (Some 4) True 65535) s of
             None \<Rightarrow> ([], False, s)
           | Some (g, r) \<Rightarrow>
               (case read_groups (Suc i) (pred_numeral n) r of (gs, v4, r') \<Rightarrow> (of_nat g # gs, v4, r'))))"
  by (simp only: numeral_eq_Suc read_groups.simps(2))

lemma read_v4_groups_numeral [parse_eval]:
  "read_v4_groups i (numeral n) s =
     (case read_separator (CHR ''.'') i (read_number 10 (Some 3) False 255) s of
        None \<Rightarrow> None
      | Some (g, r) \<Rightarrow>
          map_option (\<lambda>(gs, r'). (of_nat g # gs, r')) (read_v4_groups (Suc i) (pred_numeral n) r))"
  by (simp only: numeral_eq_Suc read_v4_groups.simps(2))

lemma replicate_pred [parse_eval]: "replicate (numeral n) x = x # replicate (pred_numeral n) x"
  by (simp only: numeral_eq_Suc replicate_Suc)

declare parse_ip_def [parse_eval]
  parse_with_def [parse_eval]
  read_ip_addr_def [parse_eval]
  read_ipv4_addr_def [parse_eval]
  read_ipv6_addr_def [parse_eval]
  read_number_def [parse_eval]
  to_digit_def [parse_eval]
  read_separator_def [parse_eval]
  read_given_char_def [parse_eval]

end
