(* ===== verification/Classifier.thy ===== *)
theory Classifier
  imports Net_Addr
begin

text \<open>
  The tc ingress classifier (\<open>guard/bpf/shield_guard.bpf.c\<close>) and the layout of the maps it
  shares with the guard CLI. All integers are 64-bit words, so the wrap-around of the C code
  is the wrap-around of the model. The kernel's helpers are parameters: reading the packet,
  and the update of the LRU map, which may evict other entries.
\<close>

section \<open>Maps and packets\<close>

record addr6 =
  addr_b :: "u8 list"

record ban_val =
  expires_mono_ns :: u64
  expires_epoch_s :: u64

record bucket =
  tokens_milli :: u64
  last_ns :: u64

record config =
  rate_pps :: u64
  burst_pkts :: u64

definition MAX_TRACKED :: nat where
  "MAX_TRACKED = 65536"

definition ST_PASSED :: nat where "ST_PASSED = 0"
definition ST_DROPPED_BAN :: nat where "ST_DROPPED_BAN = 1"
definition ST_DROPPED_THROTTLE :: nat where "ST_DROPPED_THROTTLE = 2"
definition ST_NOT_IPV6 :: nat where "ST_NOT_IPV6 = 3"
definition ST_PARSE_FAILED :: nat where "ST_PARSE_FAILED = 4"
definition ST_COUNT :: nat where "ST_COUNT = 5"

lemmas ST_defs = ST_PASSED_def ST_DROPPED_BAN_def ST_DROPPED_THROTTLE_def ST_NOT_IPV6_def
  ST_PARSE_FAILED_def ST_COUNT_def

text \<open>
  What the program sees of its maps, each as the lookup that returns a pointer or NULL. The
  statistics are the slots of the CPU the program runs on; the classifier never touches
  \<open>shield_health\<close>, which only the CLI reads and writes.
\<close>

record maps =
  shield_bans :: "addr6 \<Rightarrow> ban_val option"
  shield_throttle :: "addr6 \<Rightarrow> bucket option"
  shield_config :: "config option"
  shield_stats :: "nat \<Rightarrow> u64 option"

datatype tc_act = TC_ACT_OK | TC_ACT_SHOT

text \<open>The kernel side: packets \<open>'p\<close> and the helpers the program calls.\<close>

record 'p kern =
  skb_protocol :: "'p \<Rightarrow> u16"
  skb_load_bytes_net :: "'p \<Rightarrow> nat \<Rightarrow> nat \<Rightarrow> u8 list option"
  lru_update :: "(addr6 \<Rightarrow> bucket option) \<Rightarrow> addr6 \<Rightarrow> bucket \<Rightarrow> (addr6 \<Rightarrow> bucket option)"

section \<open>The program\<close>

definition bump :: "nat \<Rightarrow> maps \<Rightarrow> maps" where
  "bump slot m =
     (case shield_stats m slot of
        None \<Rightarrow> m
      | Some v \<Rightarrow> m\<lparr>shield_stats := (shield_stats m)(slot \<mapsto> v + 1)\<rparr>)"

definition IP6_SADDR_OFF :: nat where
  "IP6_SADDR_OFF = 8"

definition load_saddr :: "'p kern \<Rightarrow> 'p \<Rightarrow> addr6 option" where
  "load_saddr K skb = map_option (\<lambda>bs. \<lparr>addr_b = bs\<rparr>) (skb_load_bytes_net K skb IP6_SADDR_OFF 16)"

text \<open>\<open>__builtin_bswap16(ETH_P_IPV6)\<close>.\<close>

definition ETH_P_IPV6_BE :: u16 where
  "ETH_P_IPV6_BE = 0xDD86"

text \<open>The test of the classifier on a ban entry, against the monotonic clock.\<close>

definition ban_active :: "ban_val \<Rightarrow> u64 \<Rightarrow> bool" where
  "ban_active v now = (expires_mono_ns v = 0 \<or> expires_mono_ns v > now)"

text \<open>The refill of a bucket the program found in the map.\<close>

definition refill :: "config \<Rightarrow> u64 \<Rightarrow> bucket \<Rightarrow> bucket" where
  "refill cfg now b =
     (let cap = burst_pkts cfg * 1000;
          elapsed_ms = (now - last_ns b) div 1000000
      in if elapsed_ms \<noteq> 0
         then (let tokens = tokens_milli b + elapsed_ms * rate_pps cfg
               in \<lparr>tokens_milli = (if tokens > cap then cap else tokens), last_ns = now\<rparr>)
         else b)"

definition fresh_bucket :: "config \<Rightarrow> u64 \<Rightarrow> bucket" where
  "fresh_bucket cfg now =
     (let cap = burst_pkts cfg * 1000
      in \<lparr>tokens_milli = (if cap > 1000 then cap - 1000 else 0), last_ns = now\<rparr>)"

text \<open>
  The throttle: whether the packet goes on. The bucket is written through the pointer the
  lookup returned, so an existing entry is updated in place.
\<close>

definition throttle :: "'p kern \<Rightarrow> config \<Rightarrow> addr6 \<Rightarrow> u64 \<Rightarrow> maps \<Rightarrow> bool \<times> maps" where
  "throttle K cfg src now m =
     (case shield_throttle m src of
        None \<Rightarrow>
          (True, m\<lparr>shield_throttle := lru_update K (shield_throttle m) src (fresh_bucket cfg now)\<rparr>)
      | Some b \<Rightarrow>
          (let b1 = refill cfg now b in
           if tokens_milli b1 < 1000
           then (False, m\<lparr>shield_throttle := (shield_throttle m)(src \<mapsto> b1)\<rparr>)
           else (True, m\<lparr>shield_throttle := (shield_throttle m)
                          (src \<mapsto> b1\<lparr>tokens_milli := tokens_milli b1 - 1000\<rparr>)\<rparr>)))"

definition shield_guard :: "'p kern \<Rightarrow> 'p \<Rightarrow> u64 \<Rightarrow> maps \<Rightarrow> tc_act \<times> maps" where
  "shield_guard K skb now m =
     (if skb_protocol K skb \<noteq> ETH_P_IPV6_BE then (TC_ACT_OK, bump ST_NOT_IPV6 m)
      else case load_saddr K skb of
        None \<Rightarrow> (TC_ACT_OK, bump ST_PARSE_FAILED m)
      | Some src \<Rightarrow>
          if (case shield_bans m src of None \<Rightarrow> False | Some v \<Rightarrow> ban_active v now)
          then (TC_ACT_SHOT, bump ST_DROPPED_BAN m)
          else (let (go, m1) = (case shield_config m of
                     None \<Rightarrow> (True, m)
                   | Some cfg \<Rightarrow> if rate_pps cfg \<noteq> 0 then throttle K cfg src now m else (True, m))
                in if go then (TC_ACT_OK, bump ST_PASSED m1)
                   else (TC_ACT_SHOT, bump ST_DROPPED_THROTTLE m1)))"

section \<open>Frame lemmas\<close>

lemma bump_frame [simp]:
  "shield_bans (bump s m) = shield_bans m" "shield_throttle (bump s m) = shield_throttle m"
  "shield_config (bump s m) = shield_config m"
  by (simp_all add: bump_def split: option.split)

lemma throttle_frame [simp]:
  "shield_bans (snd (throttle K cfg src now m)) = shield_bans m"
  "shield_config (snd (throttle K cfg src now m)) = shield_config m"
  "shield_stats (snd (throttle K cfg src now m)) = shield_stats m"
  by (simp_all add: throttle_def Let_def split: option.split)

lemma shield_guard_bans [simp]: "shield_bans (snd (shield_guard K skb now m)) = shield_bans m"
  by (simp add: shield_guard_def split_beta split: option.split)

lemma shield_guard_config [simp]: "shield_config (snd (shield_guard K skb now m)) = shield_config m"
  by (simp add: shield_guard_def split_beta split: option.split)

lemma bump_other_cases:
  "shield_stats (bump s m) t =
     (if t = s then map_option (\<lambda>v. v + 1) (shield_stats m s) else shield_stats m t)"
  by (simp add: bump_def split: option.split)

text \<open>The source the program acts on: an IPv6 packet whose source address could be read.\<close>

definition packet_source :: "'p kern \<Rightarrow> 'p \<Rightarrow> addr6 option" where
  "packet_source K skb = (if skb_protocol K skb = ETH_P_IPV6_BE then load_saddr K skb else None)"

section \<open>Properties of the classifier\<close>

text \<open>C13. Ban enforcement: a packet of a source whose entry is permanent (expiry 0) or ends after
  now is dropped, counted as a ban drop, and changes neither the ban map nor the throttle state;
  a source without such an entry is never dropped for a ban, and with throttling off it passes.\<close>

theorem shield_guard_ban_enforced:
  assumes "packet_source K skb = Some src"
  shows "(case shield_bans m src of
            Some v \<Rightarrow> expires_mono_ns v = 0 \<or> now < expires_mono_ns v \<longrightarrow>
              shield_guard K skb now m = (TC_ACT_SHOT, bump ST_DROPPED_BAN m)
          | None \<Rightarrow> True)
    \<and> ((\<forall>v. shield_bans m src = Some v \<longrightarrow> expires_mono_ns v \<noteq> 0 \<and> expires_mono_ns v \<le> now) \<longrightarrow>
         shield_stats (snd (shield_guard K skb now m)) ST_DROPPED_BAN = shield_stats m ST_DROPPED_BAN
         \<and> ((case shield_config m of None \<Rightarrow> True | Some cfg \<Rightarrow> rate_pps cfg = 0) \<longrightarrow>
              shield_guard K skb now m = (TC_ACT_OK, bump ST_PASSED m)))"
  using assms
  by (auto simp: shield_guard_def packet_source_def ban_active_def split_beta bump_other_cases ST_defs
      split: option.splits if_splits)

text \<open>A kernel whose packets are the pair of the protocol and the bytes from the network
  header, with an LRU map that has room.\<close>

definition plain_kern :: "(u16 \<times> u8 list) kern" where
  "plain_kern =
     \<lparr>skb_protocol = fst,
      skb_load_bytes_net = (\<lambda>p off n. if off + n \<le> length (snd p) then Some (take n (drop off (snd p))) else None),
      lru_update = (\<lambda>t k v. t(k \<mapsto> v))\<rparr>"

definition demo_maps :: maps where
  "demo_maps =
     \<lparr>shield_bans = [\<lparr>addr_b = replicate 16 1\<rparr> \<mapsto> \<lparr>expires_mono_ns = 50, expires_epoch_s = 9\<rparr>],
      shield_throttle = Map.empty, shield_config = None, shield_stats = (\<lambda>_. Some 0)\<rparr>"

theorem shield_guard_ban_enforced_witness:
  "shield_guard plain_kern (0xDD86, replicate 40 1) 49 demo_maps = (TC_ACT_SHOT, bump ST_DROPPED_BAN demo_maps)
   \<and> shield_guard plain_kern (0xDD86, replicate 40 1) 50 demo_maps = (TC_ACT_OK, bump ST_PASSED demo_maps)"
proof -
  have src: "packet_source plain_kern (0xDD86, replicate 40 1) = Some \<lparr>addr_b = replicate 16 1\<rparr>"
    by (simp add: packet_source_def load_saddr_def plain_kern_def ETH_P_IPV6_BE_def IP6_SADDR_OFF_def)
  show ?thesis
    using shield_guard_ban_enforced [OF src, where m = demo_maps and now = 49]
      shield_guard_ban_enforced [OF src, where m = demo_maps and now = 50]
    by (simp add: demo_maps_def ban_active_def)
qed

text \<open>Accounting: every packet adds one to exactly one of the five counters, the one that
  names what happened to it, and the verdict is a drop exactly when that counter is one of the
  two drop counters.\<close>

theorem shield_guard_one_counter:
  "\<exists>slot < ST_COUNT.
     (\<forall>t. shield_stats (snd (shield_guard K skb now m)) t =
            (if t = slot then map_option (\<lambda>v. v + 1) (shield_stats m slot) else shield_stats m t))
     \<and> (fst (shield_guard K skb now m) = TC_ACT_SHOT \<longleftrightarrow> slot \<in> {ST_DROPPED_BAN, ST_DROPPED_THROTTLE})
     \<and> (skb_protocol K skb \<noteq> ETH_P_IPV6_BE \<longleftrightarrow> slot = ST_NOT_IPV6)
     \<and> (packet_source K skb = None \<longleftrightarrow> slot \<in> {ST_NOT_IPV6, ST_PARSE_FAILED})"
proof -
  have stats: "shield_stats (snd (throttle K cfg src now m)) = shield_stats m" for cfg src
    by simp
  consider "skb_protocol K skb \<noteq> ETH_P_IPV6_BE"
    | "skb_protocol K skb = ETH_P_IPV6_BE" "load_saddr K skb = None"
    | src where "skb_protocol K skb = ETH_P_IPV6_BE" "load_saddr K skb = Some src"
    by (cases "load_saddr K skb") auto
  then show ?thesis
  proof cases
    case 1
    then show ?thesis
      by (intro exI [of _ ST_NOT_IPV6])
        (simp add: shield_guard_def packet_source_def bump_other_cases ST_defs)
  next
    case 2
    then show ?thesis
      by (intro exI [of _ ST_PARSE_FAILED])
        (simp add: shield_guard_def packet_source_def bump_other_cases ST_defs)
  next
    case 3
    let ?banned = "case shield_bans m src of None \<Rightarrow> False | Some v \<Rightarrow> ban_active v now"
    let ?go = "case shield_config m of None \<Rightarrow> True
      | Some cfg \<Rightarrow> if rate_pps cfg \<noteq> 0 then fst (throttle K cfg src now m) else True"
    show ?thesis
      by (rule exI [of _ "if ?banned then ST_DROPPED_BAN else if ?go then ST_PASSED else ST_DROPPED_THROTTLE"])
        (use 3 in \<open>auto simp: shield_guard_def packet_source_def bump_other_cases ST_defs split_beta
            split: option.split\<close>)
  qed
qed

section \<open>The throttle over a run of packets\<close>

text \<open>The program on a sequence of packets with their arrival times.\<close>

fun guard_run :: "'p kern \<Rightarrow> ('p \<times> u64) list \<Rightarrow> maps \<Rightarrow> tc_act list \<times> maps" where
  "guard_run K [] m = ([], m)"
| "guard_run K ((skb, now) # ps) m =
     (let (v, m1) = shield_guard K skb now m; (vs, m2) = guard_run K ps m1 in (v # vs, m2))"

abbreviation ms_between :: "u64 \<Rightarrow> u64 \<Rightarrow> nat" where
  "ms_between t0 t1 \<equiv> (unat t1 - unat t0) div 1000000"

definition oks :: "tc_act list \<Rightarrow> nat" where
  "oks vs = length (filter (\<lambda>v. v = TC_ACT_OK) vs)"

lemma div_superadditive: "(x::nat) div k + y div k \<le> (x + y) div k"
  using div_add1_eq [of x y k] by linarith

lemma ms_between_add:
  "t0 \<le> t1 \<Longrightarrow> t1 \<le> t2 \<Longrightarrow> ms_between t0 t1 + ms_between t1 t2 \<le> ms_between t0 t2"
  using div_superadditive [of "unat t1 - unat t0" 1000000 "unat t2 - unat t1"]
  by (simp add: word_le_nat_alt)

lemma refill_budget:
  assumes "last_ns b \<le> now"
    and "unat (tokens_milli b) + unat (rate_pps cfg) * ms_between (last_ns b) now < 2 ^ 64"
  defines "b1 \<equiv> refill cfg now b"
  shows "last_ns b \<le> last_ns b1 \<and> last_ns b1 \<le> now \<and>
    unat (tokens_milli b1) \<le> unat (tokens_milli b) + unat (rate_pps cfg) * ms_between (last_ns b) (last_ns b1)"
proof -
  let ?e = "(now - last_ns b) div 1000000"
  have e: "unat ?e = ms_between (last_ns b) now"
    using assms(1) by (simp add: unat_div unat_sub)
  show ?thesis
  proof (cases "?e = 0")
    case True
    with assms(1) show ?thesis by (simp add: b1_def refill_def)
  next
    case False
    let ?t = "tokens_milli b + ?e * rate_pps cfg"
    have "unat (?e * rate_pps cfg) = unat ?e * unat (rate_pps cfg)"
      using assms(2) e by (simp add: unat_word_ariths mult.commute)
    then have t: "unat ?t = unat (tokens_milli b) + unat (rate_pps cfg) * ms_between (last_ns b) now"
      using assms(2) e by (simp add: unat_word_ariths mult.commute)
    have b1: "tokens_milli b1 \<le> ?t" "last_ns b1 = now"
      using False by (auto simp: b1_def refill_def Let_def)
    then have "unat (tokens_milli b1) \<le> unat ?t" by (simp add: word_le_nat_alt)
    with t b1(2) assms(1) show ?thesis by simp
  qed
qed

lemma shield_guard_budget:
  assumes "packet_source K skb = Some src" "shield_config m = Some cfg" "rate_pps cfg \<noteq> 0"
    and "shield_throttle m src = Some b" "last_ns b \<le> now"
    and "unat (tokens_milli b) + unat (rate_pps cfg) * ms_between (last_ns b) now < 2 ^ 64"
  shows "\<exists>b'. shield_throttle (snd (shield_guard K skb now m)) src = Some b'
    \<and> last_ns b \<le> last_ns b' \<and> last_ns b' \<le> now
    \<and> 1000 * (if fst (shield_guard K skb now m) = TC_ACT_OK then 1 else 0) + unat (tokens_milli b')
        \<le> unat (tokens_milli b) + unat (rate_pps cfg) * ms_between (last_ns b) (last_ns b')"
proof (cases "case shield_bans m src of None \<Rightarrow> False | Some v \<Rightarrow> ban_active v now")
  case True
  with assms(1,4,5) show ?thesis
    by (simp add: shield_guard_def packet_source_def split: if_splits)
next
  case False
  let ?b1 = "refill cfg now b"
  note r = refill_budget [OF assms(5,6)]
  have step: "shield_guard K skb now m =
      (if tokens_milli ?b1 < 1000
       then (TC_ACT_SHOT, bump ST_DROPPED_THROTTLE (m\<lparr>shield_throttle := (shield_throttle m)(src \<mapsto> ?b1)\<rparr>))
       else (TC_ACT_OK, bump ST_PASSED (m\<lparr>shield_throttle := (shield_throttle m)
               (src \<mapsto> ?b1\<lparr>tokens_milli := tokens_milli ?b1 - 1000\<rparr>)\<rparr>)))"
    using False assms(1-4)
    by (auto simp: shield_guard_def packet_source_def throttle_def Let_def split: if_splits)
  show ?thesis
  proof (cases "tokens_milli ?b1 < 1000")
    case True
    with step r show ?thesis by simp
  next
    case False
    then have "1000 \<le> tokens_milli ?b1" by (simp add: not_less)
    then have "unat (tokens_milli ?b1 - 1000) = unat (tokens_milli ?b1) - 1000"
      and "1000 \<le> unat (tokens_milli ?b1)"
      by (simp_all add: unat_sub word_le_nat_alt)
    with False step r show ?thesis by simp
  qed
qed

lemma guard_run_budget:
  assumes "shield_config m = Some cfg" "rate_pps cfg \<noteq> 0" "shield_throttle m src = Some b"
    and "\<And>skb t. (skb, t) \<in> set ps \<Longrightarrow> packet_source K skb = Some src \<and> last_ns b \<le> t \<and> t \<le> tmax"
    and "sorted (map snd ps)" "last_ns b \<le> tmax"
    and "unat (tokens_milli b) + unat (rate_pps cfg) * ms_between (last_ns b) tmax < 2 ^ 64"
  shows "1000 * oks (fst (guard_run K ps m))
    \<le> unat (tokens_milli b) + unat (rate_pps cfg) * ms_between (last_ns b) tmax"
  using assms
proof (induction ps arbitrary: m b)
  case Nil
  then show ?case by (simp add: oks_def)
next
  case (Cons p ps)
  obtain skb now where p: "p = (skb, now)" by fastforce
  let ?r = "unat (rate_pps cfg)"
  let ?step = "shield_guard K skb now m"
  have src: "packet_source K skb = Some src" and t: "last_ns b \<le> now" "now \<le> tmax"
    using Cons.prems(4) p by auto
  have "ms_between (last_ns b) now \<le> ms_between (last_ns b) tmax"
    using t by (simp add: word_le_nat_alt div_le_mono)
  then have "?r * ms_between (last_ns b) now \<le> ?r * ms_between (last_ns b) tmax" by simp
  then have "unat (tokens_milli b) + ?r * ms_between (last_ns b) now < 2 ^ 64"
    using Cons.prems(7) by linarith
  from shield_guard_budget [OF src Cons.prems(1-3) t(1) this] obtain b' where
      b': "shield_throttle (snd ?step) src = Some b'" "last_ns b \<le> last_ns b'" "last_ns b' \<le> now"
    and bud: "1000 * (if fst ?step = TC_ACT_OK then 1 else 0) + unat (tokens_milli b')
        \<le> unat (tokens_milli b) + ?r * ms_between (last_ns b) (last_ns b')"
    by blast
  have "ms_between (last_ns b) (last_ns b') + ms_between (last_ns b') tmax \<le> ms_between (last_ns b) tmax"
    using b'(2,3) t(2) by (intro ms_between_add) auto
  then have "?r * ms_between (last_ns b) (last_ns b') + ?r * ms_between (last_ns b') tmax
      \<le> ?r * ms_between (last_ns b) tmax"
    by (metis add_mult_distrib2 mult_le_mono2)
  moreover have "1000 * oks (fst (guard_run K ps (snd ?step)))
      \<le> unat (tokens_milli b') + ?r * ms_between (last_ns b') tmax"
  proof (rule Cons.IH)
    show "packet_source K skb' = Some src \<and> last_ns b' \<le> t' \<and> t' \<le> tmax" if "(skb', t') \<in> set ps" for skb' t'
      using Cons.prems(4,5) that p b'(3) by (force intro: order_trans)
    show "unat (tokens_milli b') + ?r * ms_between (last_ns b') tmax < 2 ^ 64"
      using bud calculation Cons.prems(7) by linarith
  qed (use Cons.prems b' t p in \<open>auto intro: order_trans\<close>)
  ultimately show ?case
    using bud p by (cases "fst ?step") (auto simp: oks_def split_beta)
qed

lemma last_ns_fresh [simp]: "last_ns (fresh_bucket cfg now) = now"
  by (simp add: fresh_bucket_def Let_def)

text \<open>C17. The throttle bounds the rate: of the packets one source sends in order up to a time
  \<open>tmax\<close>, starting with its first one at \<open>t0\<close>, no more pass than the burst (at least one) plus
  the configured packets per second over the elapsed milliseconds. The map update is assumed
  to keep the entry it writes, and the arithmetic to stay within 64 bits.\<close>

theorem guard_run_rate_bound:
  assumes "shield_config m = Some cfg" "rate_pps cfg \<noteq> 0" "shield_throttle m src = None"
    and "\<And>tb k v. lru_update K tb k v k = Some v"
    and "\<And>skb t. (skb, t) \<in> set ((skb0, t0) # ps) \<Longrightarrow> packet_source K skb = Some src \<and> t \<le> tmax"
    and "sorted (map snd ((skb0, t0) # ps))" "\<forall>v. shield_bans m src \<noteq> Some v"
    and "max 1000 (unat (burst_pkts cfg) * 1000) + unat (rate_pps cfg) * ms_between t0 tmax < 2 ^ 64"
  shows "1000 * oks (fst (guard_run K ((skb0, t0) # ps) m))
    \<le> max 1000 (unat (burst_pkts cfg) * 1000) + unat (rate_pps cfg) * ms_between t0 tmax"
proof -
  let ?b = "fresh_bucket cfg t0"
  let ?m1 = "snd (shield_guard K skb0 t0 m)"
  have "unat (burst_pkts cfg) * 1000 < 2 ^ 64" using assms(8) by linarith
  then have cap: "unat (burst_pkts cfg * 1000) = unat (burst_pkts cfg) * 1000"
    by (simp add: unat_word_ariths)
  have "unat (tokens_milli ?b) + 1000 = max 1000 (unat (burst_pkts cfg) * 1000)"
    using cap by (auto simp: fresh_bucket_def Let_def unat_sub word_less_nat_alt word_le_nat_alt)
  moreover have step: "shield_guard K skb0 t0 m =
      (TC_ACT_OK, bump ST_PASSED (m\<lparr>shield_throttle := lru_update K (shield_throttle m) src ?b\<rparr>))"
    using assms(1-3,7) assms(5) [of skb0 t0, THEN conjunct1]
    by (simp add: shield_guard_def packet_source_def throttle_def split: if_splits)
  moreover have "1000 * oks (fst (guard_run K ps ?m1))
      \<le> unat (tokens_milli ?b) + unat (rate_pps cfg) * ms_between (last_ns ?b) tmax"
  proof (rule guard_run_budget)
    show "packet_source K skb = Some src \<and> last_ns ?b \<le> t \<and> t \<le> tmax" if "(skb, t) \<in> set ps" for skb t
    proof -
      have "t \<in> snd ` set ps" using that by force
      with assms(6) have "t0 \<le> t" by auto
      with assms(5) [of skb t] that show ?thesis by simp
    qed
    show "unat (tokens_milli ?b) + unat (rate_pps cfg) * ms_between (last_ns ?b) tmax < 2 ^ 64"
      using calculation(1) assms(8) by simp
  qed (use assms step assms(5) [of skb0 t0] in auto)
  ultimately show ?thesis
    by (simp add: oks_def split_beta)
qed

theorem guard_run_rate_bound_witness:
  "1000 * oks (fst (guard_run plain_kern
       [((0xDD86, replicate 40 1), 0), ((0xDD86, replicate 40 1), 5000000), ((0xDD86, replicate 40 1), 6000000)]
       \<lparr>shield_bans = Map.empty, shield_throttle = Map.empty,
        shield_config = Some \<lparr>rate_pps = 100, burst_pkts = 1\<rparr>, shield_stats = (\<lambda>_. Some 0)\<rparr>))
   \<le> max 1000 (unat (burst_pkts \<lparr>rate_pps = 100, burst_pkts = 1\<rparr>) * 1000)
       + unat (rate_pps \<lparr>rate_pps = 100, burst_pkts = 1\<rparr>) * ms_between 0 6000000"
proof (rule guard_run_rate_bound [where src = "\<lparr>addr_b = replicate 16 1\<rparr>"])
  show "lru_update plain_kern tb k v k = Some v" for tb k v
    by (simp add: plain_kern_def)
  show "packet_source plain_kern skb = Some \<lparr>addr_b = replicate 16 1\<rparr> \<and> t \<le> 6000000"
    if "(skb, t) \<in> set [((0xDD86, replicate 40 1), 0), ((0xDD86, replicate 40 1), 5000000),
          ((0xDD86, replicate 40 1), 6000000)]" for skb and t :: u64
    using that by (auto simp: packet_source_def load_saddr_def plain_kern_def ETH_P_IPV6_BE_def
        IP6_SADDR_OFF_def)
qed simp_all

text \<open>
  A refill restarts the clock at the packet's time, so the part of a millisecond that has
  passed beyond the whole ones is lost: a source polled every 1999999 nanoseconds is credited
  one millisecond per packet.
\<close>

lemma refill_drops_remainder:
  "refill \<lparr>rate_pps = 1000, burst_pkts = 100\<rparr> 1999999 \<lparr>tokens_milli = 0, last_ns = 0\<rparr>
     = \<lparr>tokens_milli = 1000, last_ns = 1999999\<rparr>"
  by (simp add: refill_def)

end
