(* ===== verification/Guard.thy ===== *)
theory Guard
  imports Classifier
begin

text \<open>
  The guard CLI (\<open>guard/src/main.rs\<close>): every command with all its system calls, in the order
  the source makes them. The host is a parameter: a record of the calls the program makes on
  the state \<open>'w\<close> of the machine (the clocks, the pinned BPF maps reached through aya, \<open>tc\<close>,
  the file system, the loader), each of which may fail. A command runs on a process state
  that also records what was printed.
\<close>

section \<open>The host\<close>

datatype map_type = HashMap | ArrayMap | PerCpuArrayMap

text \<open>
  Results follow Rust: \<open>Inl\<close> carries the text of the error. Map handles, programs and links
  are numbers the host hands out.
\<close>

record 'w host =
  clock_monotonic :: "'w \<Rightarrow> (i64 \<times> i64) \<times> 'w"
  since_epoch :: "'w \<Rightarrow> u64 option \<times> 'w"
  map_from_pin :: "string \<Rightarrow> 'w \<Rightarrow> (string + nat) \<times> 'w"
  map_try_from :: "map_type \<Rightarrow> nat \<Rightarrow> 'w \<Rightarrow> (string + unit) \<times> 'w"
  hash_get :: "nat \<Rightarrow> addr6 \<Rightarrow> 'w \<Rightarrow> (string + ban_val) \<times> 'w"
  hash_insert :: "nat \<Rightarrow> addr6 \<Rightarrow> ban_val \<Rightarrow> 'w \<Rightarrow> (string + unit) \<times> 'w"
  hash_remove :: "nat \<Rightarrow> addr6 \<Rightarrow> 'w \<Rightarrow> (string + unit) \<times> 'w"
  hash_iter :: "nat \<Rightarrow> 'w \<Rightarrow> (string + addr6 \<times> ban_val) list \<times> 'w"
  map_max_entries :: "nat \<Rightarrow> 'w \<Rightarrow> (string + u32) \<times> 'w"
  config_get :: "nat \<Rightarrow> 'w \<Rightarrow> (string + config) \<times> 'w"
  config_set :: "nat \<Rightarrow> config \<Rightarrow> 'w \<Rightarrow> (string + unit) \<times> 'w"
  health_get :: "nat \<Rightarrow> 'w \<Rightarrow> (string + u64) \<times> 'w"
  health_set :: "nat \<Rightarrow> u64 \<Rightarrow> 'w \<Rightarrow> (string + unit) \<times> 'w"
  percpu_get :: "nat \<Rightarrow> nat \<Rightarrow> 'w \<Rightarrow> (string + u64 list) \<times> 'w"
  run_tc :: "string list \<Rightarrow> 'w \<Rightarrow> (string + bool \<times> string \<times> string) \<times> 'w"
  create_dir_all :: "string \<Rightarrow> 'w \<Rightarrow> (string + unit) \<times> 'w"
  path_exists :: "string \<Rightarrow> 'w \<Rightarrow> bool \<times> 'w"
  remove_file :: "string \<Rightarrow> 'w \<Rightarrow> (string + unit) \<times> 'w"
  remove_dir :: "string \<Rightarrow> 'w \<Rightarrow> (string + unit) \<times> 'w"
  ebpf_load :: "string \<Rightarrow> 'w \<Rightarrow> (string + nat) \<times> 'w"
  ebpf_program :: "nat \<Rightarrow> string \<Rightarrow> 'w \<Rightarrow> nat option \<times> 'w"
  prog_try_into :: "nat \<Rightarrow> 'w \<Rightarrow> (string + unit) \<times> 'w"
  prog_load :: "nat \<Rightarrow> 'w \<Rightarrow> (string + unit) \<times> 'w"
  qdisc_add_clsact :: "string \<Rightarrow> 'w \<Rightarrow> (string + unit) \<times> 'w"
  qdisc_detach_program :: "string \<Rightarrow> string \<Rightarrow> 'w \<Rightarrow> (string + unit) \<times> 'w"
  prog_attach :: "nat \<Rightarrow> string \<Rightarrow> 'w \<Rightarrow> (string + nat) \<times> 'w"
  prog_take_link :: "nat \<Rightarrow> nat \<Rightarrow> 'w \<Rightarrow> (string + unit) \<times> 'w"

text \<open>The running process: the host and the lines written so far.\<close>

record 'w ps =
  world :: 'w
  stdout :: "string list"
  stderr :: "string list"

definition sys :: "('w \<Rightarrow> 'a \<times> 'w) \<Rightarrow> 'w ps \<Rightarrow> 'a \<times> 'w ps" where
  "sys f p = (case f (world p) of (a, w) \<Rightarrow> (a, p\<lparr>world := w\<rparr>))"

definition println :: "string \<Rightarrow> 'w ps \<Rightarrow> 'w ps" where
  "println l p = p\<lparr>stdout := stdout p @ [l]\<rparr>"

definition eprintln :: "string \<Rightarrow> 'w ps \<Rightarrow> 'w ps" where
  "eprintln l p = p\<lparr>stderr := stderr p @ [l]\<rparr>"

section \<open>Errors\<close>

datatype gerror =
    InvalidAddress string
  | OpenMap string string
  | MapError string
  | RunTc string
  | TcFailed string string
  | HeartbeatWrite string
  | ReattachMissing string
  | CreatePinDir string string
  | LoadObject string
  | ProgramMissing
  | ProgramError string
  | VerifierRejected string
  | AttachFailed string string
  | LinkError string
  | RefusePurge string
  | Unpin string string
  | SweepFailed gerror
  | InsertBan string nat string
  | RemoveBan string string
  | UnbanDidNotTake string

section \<open>Clocks, addresses and maps\<close>

definition PROG_NAME :: string where
  "PROG_NAME = ''shield_guard''"

definition now_mono_ns :: "'w host \<Rightarrow> 'w ps \<Rightarrow> u64 \<times> 'w ps" where
  "now_mono_ns H p =
     (case sys (clock_monotonic H) p of ((tv_sec, tv_nsec), p1) \<Rightarrow> (tv_sec * 1000000000 + tv_nsec, p1))"

definition now_epoch_s :: "'w host \<Rightarrow> 'w ps \<Rightarrow> u64 \<times> 'w ps" where
  "now_epoch_s H p =
     (case sys (since_epoch H) p of (d, p1) \<Rightarrow> ((case d of None \<Rightarrow> 0 | Some s \<Rightarrow> s), p1))"

definition parse_v6 :: "string \<Rightarrow> gerror + ipv6addr option" where
  "parse_v6 s =
     (case parse_ip s of
        Some (V6 a) \<Rightarrow> Inr (Some a)
      | Some (V4 _) \<Rightarrow> Inr None
      | None \<Rightarrow> Inl (InvalidAddress s))"

definition open_map :: "'w host \<Rightarrow> string \<Rightarrow> string \<Rightarrow> 'w ps \<Rightarrow> (gerror + nat) \<times> 'w ps" where
  "open_map H pin_dir name p =
     (let path = path_join pin_dir name in
      context_err (OpenMap path) (sys (map_from_pin H path) p))"

definition typed_map ::
  "'w host \<Rightarrow> map_type \<Rightarrow> string \<Rightarrow> string \<Rightarrow> 'w ps \<Rightarrow> (gerror + nat) \<times> 'w ps" where
  "typed_map H ty pin_dir name p =
     bind_ok (open_map H pin_dir name p) (\<lambda>h p.
     bind_ok (context_err MapError (sys (map_try_from H ty h) p)) (\<lambda>_ p.
     (Inr h, p)))"

definition bans_map :: "'w host \<Rightarrow> string \<Rightarrow> 'w ps \<Rightarrow> (gerror + nat) \<times> 'w ps" where
  "bans_map H pin_dir p = typed_map H HashMap pin_dir ''shield_bans'' p"

definition health_map :: "'w host \<Rightarrow> string \<Rightarrow> 'w ps \<Rightarrow> (gerror + nat) \<times> 'w ps" where
  "health_map H pin_dir p = typed_map H ArrayMap pin_dir ''shield_health'' p"

definition config_map :: "'w host \<Rightarrow> string \<Rightarrow> 'w ps \<Rightarrow> (gerror + nat) \<times> 'w ps" where
  "config_map H pin_dir p = typed_map H ArrayMap pin_dir ''shield_config'' p"

section \<open>Attachment and heartbeat\<close>

definition classifier_attached :: "'w host \<Rightarrow> string \<Rightarrow> 'w ps \<Rightarrow> (gerror + bool) \<times> 'w ps" where
  "classifier_attached H iface p =
     bind_ok (context_err RunTc (sys (run_tc H [''filter'', ''show'', ''dev'', iface, ''ingress'']) p))
       (\<lambda>(success, out, err) p.
         if \<not> success then (Inl (TcFailed iface (trim (from_utf8_lossy err))), p)
         else (Inr (contains (from_utf8_lossy out) PROG_NAME), p))"

definition write_heartbeat :: "'w host \<Rightarrow> string \<Rightarrow> 'w ps \<Rightarrow> (gerror + unit) \<times> 'w ps" where
  "write_heartbeat H pin_dir p =
     bind_ok (health_map H pin_dir p) (\<lambda>h p.
     (case now_epoch_s H p of
        (now, p) \<Rightarrow> context_err HeartbeatWrite (sys (health_set H h now) p)))"

abbreviation em_dash :: string where
  "em_dash \<equiv> [CHR 0xE2, CHR 0x80, CHR 0x94]"

definition cmd_status :: "'w host \<Rightarrow> string \<Rightarrow> string \<Rightarrow> 'w ps \<Rightarrow> (gerror + bool) \<times> 'w ps" where
  "cmd_status H pin_dir iface p =
     bind_ok (classifier_attached H iface p) (\<lambda>attached p.
     if attached
     then (let p = snd (write_heartbeat H pin_dir p) in
           (Inr attached, println (''attached: '' @ PROG_NAME @ '' is filtering ingress on '' @ iface) p))
     else (Inr attached,
           println (''NOT ATTACHED: no '' @ PROG_NAME @ '' filter on '' @ iface @ '' ingress '' @ em_dash
                    @ '' nothing is being enforced'') p))"

definition cmd_health :: "'w host \<Rightarrow> string \<Rightarrow> u64 \<Rightarrow> 'w ps \<Rightarrow> (gerror + bool) \<times> 'w ps" where
  "cmd_health H pin_dir max_age p =
     bind_ok (health_map H pin_dir p) (\<lambda>h p.
     (case sys (health_get H h) p of
        (r, p) \<Rightarrow>
          (let last_beat = (case r of Inl _ \<Rightarrow> 0 | Inr v \<Rightarrow> v) in
           if last_beat = 0
           then (Inr True,
                 println (''unknown: no heartbeat yet (watchdog not running) '' @ em_dash @ '' reporting healthy'')
                   (eprintln (''note: no watchdog heartbeat yet, so a detached classifier would go '' @
                      ''unnoticed. Enable it with: systemctl enable --now fips-guard-watchdog.timer'') p))
           else (case now_epoch_s H p of
                   (now, p) \<Rightarrow>
                     (let age = sat_sub now last_beat in
                      if age > max_age
                      then (Inr False,
                            println (''stale: last confirmed '' @ u64_to_string age @ ''s ago (limit '' @
                              u64_to_string max_age @ ''s) '' @ em_dash @
                              '' enforcement is not known to be running'') p)
                      else (Inr True,
                            println (''ok: attachment confirmed '' @ u64_to_string age @ ''s ago'') p))))))"

section \<open>Loading, unloading and the throttle configuration\<close>

text \<open>A rate without a burst is given one packet of headroom.\<close>

definition effective_config :: "u64 \<Rightarrow> u64 \<Rightarrow> config" where
  "effective_config rate burst =
     \<lparr>rate_pps = rate, burst_pkts = (if rate > 0 \<and> burst = 0 then 1 else burst)\<rparr>"

definition set_config :: "'w host \<Rightarrow> string \<Rightarrow> u64 \<Rightarrow> u64 \<Rightarrow> 'w ps \<Rightarrow> (gerror + unit) \<times> 'w ps" where
  "set_config H pin_dir rate burst p =
     bind_ok (config_map H pin_dir p) (\<lambda>h p.
     context_err MapError (sys (config_set H h (effective_config rate burst)) p))"

definition throttle_line :: "u64 \<Rightarrow> u64 \<Rightarrow> string" where
  "throttle_line rate burst =
     ''throttle: '' @ u64_to_string rate @ '' pkt/s per source, burst '' @ u64_to_string burst"

definition cmd_load ::
  "'w host \<Rightarrow> string \<Rightarrow> string \<Rightarrow> u64 \<Rightarrow> u64 \<Rightarrow> 'w ps \<Rightarrow> (gerror + unit) \<times> 'w ps" where
  "cmd_load H pin_dir iface rate burst p =
     bind_ok (context_err (CreatePinDir pin_dir) (sys (create_dir_all H pin_dir) p)) (\<lambda>_ p.
     bind_ok (context_err LoadObject (sys (ebpf_load H pin_dir) p)) (\<lambda>ebpf p.
     (case sys (ebpf_program H ebpf PROG_NAME) p of
        (None, p) \<Rightarrow> (Inl ProgramMissing, p)
      | (Some prog, p) \<Rightarrow>
          bind_ok (context_err ProgramError (sys (prog_try_into H prog) p)) (\<lambda>_ p.
          bind_ok (context_err VerifierRejected (sys (prog_load H prog) p)) (\<lambda>_ p.
          (let p = snd (sys (qdisc_add_clsact H iface) p);
               p = snd (sys (qdisc_detach_program H iface PROG_NAME) p)
           in
           bind_ok (context_err (AttachFailed iface) (sys (prog_attach H prog iface) p)) (\<lambda>link_id p.
           bind_ok (context_err LinkError (sys (prog_take_link H prog link_id) p)) (\<lambda>_ p.
           bind_ok (set_config H pin_dir rate burst p) (\<lambda>_ p.
           (let p = println (''loaded on '' @ iface @ '', maps pinned at '' @ pin_dir) p in
            if rate > 0 then (Inr (), println (throttle_line rate burst) p)
            else (Inr (), println ''throttle: disabled (bans only)'' p))))))))))) "

definition cmd_watchdog :: "'w host \<Rightarrow> string \<Rightarrow> string \<Rightarrow> 'w ps \<Rightarrow> (gerror + unit) \<times> 'w ps" where
  "cmd_watchdog H pin_dir iface p =
     bind_ok (classifier_attached H iface p) (\<lambda>attached p.
     if attached then write_heartbeat H pin_dir p
     else
       (let p = eprintln (''watchdog: '' @ PROG_NAME @ '' is not attached to '' @ iface @ ''; re-attaching'') p;
            (r, p) = bind_ok (config_map H pin_dir p) (\<lambda>h p. context_err MapError (sys (config_get H h) p));
            cfg = (case r of Inl _ \<Rightarrow> \<lparr>rate_pps = 0, burst_pkts = 0\<rparr> | Inr c \<Rightarrow> c)
        in
        bind_ok (cmd_load H pin_dir iface (rate_pps cfg) (burst_pkts cfg) p) (\<lambda>_ p.
        bind_ok (classifier_attached H iface p) (\<lambda>attached p.
        if \<not> attached then (Inl (ReattachMissing iface), p)
        else
          bind_ok (write_heartbeat H pin_dir p) (\<lambda>_ p.
          (Inr (), eprintln (''watchdog: re-attached to '' @ iface) p))))))"

definition PURGED_MAPS :: "string list" where
  "PURGED_MAPS = [''shield_bans'', ''shield_throttle'', ''shield_config'', ''shield_stats'']"

fun unpin_all :: "'w host \<Rightarrow> string \<Rightarrow> string list \<Rightarrow> 'w ps \<Rightarrow> (gerror + unit) \<times> 'w ps" where
  "unpin_all H pin_dir [] p = (Inr (), p)"
| "unpin_all H pin_dir (name # names) p =
     (let path = path_join pin_dir name in
      case sys (path_exists H path) p of
        (False, p) \<Rightarrow> unpin_all H pin_dir names p
      | (True, p) \<Rightarrow>
          bind_ok (context_err (Unpin path) (sys (remove_file H path) p)) (\<lambda>_ p.
          unpin_all H pin_dir names p))"

definition cmd_unload ::
  "'w host \<Rightarrow> string \<Rightarrow> string \<Rightarrow> bool \<Rightarrow> 'w ps \<Rightarrow> (gerror + unit) \<times> 'w ps" where
  "cmd_unload H pin_dir iface purge p =
     (let (detached, p) =
        (case sys (qdisc_detach_program H iface PROG_NAME) p of
           (Inr _, p) \<Rightarrow> (True, println (''detached from '' @ iface) p)
         | (Inl e, p) \<Rightarrow> (False, eprintln (''warning: detach from '' @ iface @ '': '' @ e) p))
      in
      if \<not> purge
      then (Inr (), println (''maps left pinned at '' @ pin_dir @ '' (use --purge to discard bans)'') p)
      else if \<not> detached then (Inl (RefusePurge iface), p)
      else
        bind_ok (unpin_all H pin_dir PURGED_MAPS p) (\<lambda>_ p.
        (let p = snd (sys (remove_dir H pin_dir) p) in (Inr (), println ''unpinned maps'' p))))"

section \<open>Bans\<close>

text \<open>The keys of the entries that have lapsed at \<open>now\<close>; 0 is permanent and never lapses.\<close>

fun collect_expired :: "u64 \<Rightarrow> (string + addr6 \<times> ban_val) list \<Rightarrow> gerror + addr6 list" where
  "collect_expired now [] = Inr []"
| "collect_expired now (Inl e # es) = Inl (MapError e)"
| "collect_expired now (Inr (key, val) # es) =
     (case collect_expired now es of
        Inl e \<Rightarrow> Inl e
      | Inr ks \<Rightarrow>
          Inr (if expires_mono_ns val \<noteq> 0 \<and> expires_mono_ns val \<le> now then key # ks else ks))"

fun remove_keys :: "'w host \<Rightarrow> nat \<Rightarrow> addr6 list \<Rightarrow> 'w ps \<Rightarrow> 'w ps" where
  "remove_keys H h [] p = p"
| "remove_keys H h (k # ks) p = remove_keys H h ks (snd (sys (hash_remove H h k) p))"

definition prune_expired :: "'w host \<Rightarrow> nat \<Rightarrow> 'w ps \<Rightarrow> (gerror + nat) \<times> 'w ps" where
  "prune_expired H h p =
     (let (now, p) = now_mono_ns H p; (es, p) = sys (hash_iter H h) p in
      case collect_expired now es of
        Inl e \<Rightarrow> (Inl e, p)
      | Inr expired \<Rightarrow> (Inr (length expired), remove_keys H h expired p))"

definition ipv4_note :: "string \<Rightarrow> string" where
  "ipv4_note ip = ''note: '' @ ip @ '' is IPv4; the mesh is IPv6-only, nothing to do''"

definition ban_value :: "'w host \<Rightarrow> i64 \<Rightarrow> 'w ps \<Rightarrow> ban_val \<times> 'w ps" where
  "ban_value H seconds p =
     (if sint seconds \<le> 0 then (\<lparr>expires_mono_ns = 0, expires_epoch_s = 0\<rparr>, p)
      else
        (let (mono, p) = now_mono_ns H p; (epoch, p) = now_epoch_s H p in
         (\<lparr>expires_mono_ns = sat_add mono (sat_mul seconds 1000000000),
           expires_epoch_s = sat_add epoch seconds\<rparr>, p)))"

definition cmd_ban :: "'w host \<Rightarrow> string \<Rightarrow> string \<Rightarrow> i64 \<Rightarrow> 'w ps \<Rightarrow> (gerror + unit) \<times> 'w ps" where
  "cmd_ban H pin_dir ip seconds p =
     bind_ok (parse_v6 ip, p) (\<lambda>oaddr p.
     case oaddr of
       None \<Rightarrow> (Inr (), eprintln (ipv4_note ip) p)
     | Some addr \<Rightarrow>
         bind_ok (bans_map H pin_dir p) (\<lambda>h p.
         (let (val, p) = ban_value H seconds p; key = \<lparr>addr_b = octets addr\<rparr> in
          bind_ok
            (case sys (hash_insert H h key val) p of
               (Inr _, p) \<Rightarrow> (Inr (), p)
             | (Inl first_err, p) \<Rightarrow>
                 bind_ok (context_err SweepFailed (prune_expired H h p)) (\<lambda>reclaimed p.
                 bind_ok (context_err (InsertBan first_err reclaimed) (sys (hash_insert H h key val) p)) (\<lambda>_ p.
                 (Inr (), eprintln (''note: ban map was full; swept '' @ string_of_nat reclaimed @
                            '' expired entries'') p))))
            (\<lambda>_ p. (Inr (), println (''banned '' @ ip @ '' until '' @ u64_to_string (expires_epoch_s val)) p)))))"

definition is_ok :: "'e + 'a \<Rightarrow> bool" where
  "is_ok r = (case r of Inl _ \<Rightarrow> False | Inr _ \<Rightarrow> True)"

text \<open>The read-back that decides what an unban reports.\<close>

definition unban_verify ::
  "'w host \<Rightarrow> nat \<Rightarrow> addr6 \<Rightarrow> string \<Rightarrow> bool \<Rightarrow> 'w ps \<Rightarrow> (gerror + unit) \<times> 'w ps" where
  "unban_verify H h key ip was_banned p =
     (case sys (hash_get H h key) p of
        (after, p) \<Rightarrow>
          if is_ok after then (Inl (UnbanDidNotTake ip), p)
          else
            (let p = println (''unbanned '' @ ip) p in
             (Inr (), if \<not> was_banned
                      then eprintln (''note: '' @ ip @ '' was not banned in the guard; nothing to remove'') p
                      else p)))"

definition cmd_unban :: "'w host \<Rightarrow> string \<Rightarrow> string \<Rightarrow> 'w ps \<Rightarrow> (gerror + unit) \<times> 'w ps" where
  "cmd_unban H pin_dir ip p =
     bind_ok (parse_v6 ip, p) (\<lambda>oaddr p.
     case oaddr of
       None \<Rightarrow> (Inr (), eprintln (ipv4_note ip) p)
     | Some addr \<Rightarrow>
         bind_ok (bans_map H pin_dir p) (\<lambda>h p.
         (let key = \<lparr>addr_b = octets addr\<rparr>;
              (before, p) = sys (hash_get H h key) p;
              was_banned = is_ok before;
              (removed, p) = sys (hash_remove H h key) p
          in
          case removed of
            Inl e \<Rightarrow>
              if was_banned then (Inl (RemoveBan ip e), p)
              else unban_verify H h key ip was_banned p
          | Inr _ \<Rightarrow> unban_verify H h key ip was_banned p)))"

definition cmd_check :: "'w host \<Rightarrow> string \<Rightarrow> string \<Rightarrow> 'w ps \<Rightarrow> (gerror + bool) \<times> 'w ps" where
  "cmd_check H pin_dir ip p =
     bind_ok (parse_v6 ip, p) (\<lambda>oaddr p.
     case oaddr of
       None \<Rightarrow> (Inr False, println (''not banned '' @ ip) p)
     | Some addr \<Rightarrow>
         bind_ok (bans_map H pin_dir p) (\<lambda>h p.
         (let key = \<lparr>addr_b = octets addr\<rparr> in
          case sys (hash_get H h key) p of
            (Inl _, p) \<Rightarrow> (Inr False, println (''not banned '' @ ip) p)
          | (Inr v, p) \<Rightarrow>
              (let (live, p) =
                 (if expires_mono_ns v = 0 then (True, p)
                  else (case now_mono_ns H p of (now, p) \<Rightarrow> (expires_mono_ns v > now, p)))
               in
               if live
               then (Inr True, println (''banned '' @ ip @ '' until '' @ u64_to_string (expires_epoch_s v)) p)
               else
                 (let p = snd (sys (hash_remove H h key) p) in
                  (Inr False, println (''not banned '' @ ip) p))))))"

fun collect_active ::
  "u64 \<Rightarrow> (string + addr6 \<times> ban_val) list \<Rightarrow> gerror + (ipv6addr \<times> u64) list" where
  "collect_active now [] = Inr []"
| "collect_active now (Inl e # es) = Inl (MapError e)"
| "collect_active now (Inr (key, val) # es) =
     (case collect_active now es of
        Inl e \<Rightarrow> Inl e
      | Inr bs \<Rightarrow>
          Inr (if expires_mono_ns val = 0 \<or> expires_mono_ns val > now
               then (from_octets (addr_b key), expires_epoch_s val) # bs else bs))"

definition ban_line :: "ipv6addr \<times> u64 \<Rightarrow> string" where
  "ban_line b = (case b of (ip, until) \<Rightarrow> ipv6_to_string ip @ '' '' @ u64_to_string until)"

definition cmd_list :: "'w host \<Rightarrow> string \<Rightarrow> 'w ps \<Rightarrow> (gerror + unit) \<times> 'w ps" where
  "cmd_list H pin_dir p =
     bind_ok (bans_map H pin_dir p) (\<lambda>h p.
     bind_ok (prune_expired H h p) (\<lambda>_ p.
     (let (now, p) = now_mono_ns H p; (es, p) = sys (hash_iter H h) p in
      bind_ok (collect_active now es, p) (\<lambda>active p.
      (Inr (), foldl (\<lambda>p b. println (ban_line b) p) p active)))))"

section \<open>Counters\<close>

definition stat_sum :: "'w host \<Rightarrow> nat \<Rightarrow> nat \<Rightarrow> 'w ps \<Rightarrow> (gerror + u64) \<times> 'w ps" where
  "stat_sum H h slot p =
     bind_ok (context_err MapError (sys (percpu_get H h slot) p)) (\<lambda>vs p. (Inr (sum_list vs), p))"

definition STAT_LINES :: "(string \<times> nat) list" where
  "STAT_LINES =
     [(''passed             '', ST_PASSED),
      (''dropped (ban)      '', ST_DROPPED_BAN),
      (''dropped (throttle) '', ST_DROPPED_THROTTLE),
      (''not ipv6           '', ST_NOT_IPV6),
      (''parse failed       '', ST_PARSE_FAILED)]"

fun print_stats :: "'w host \<Rightarrow> nat \<Rightarrow> (string \<times> nat) list \<Rightarrow> 'w ps \<Rightarrow> (gerror + unit) \<times> 'w ps" where
  "print_stats H h [] p = (Inr (), p)"
| "print_stats H h ((label, slot) # ls) p =
     bind_ok (stat_sum H h slot p) (\<lambda>n p.
     print_stats H h ls (println (label @ u64_to_string n) p))"

definition throttle_stat_line :: "config \<Rightarrow> string" where
  "throttle_stat_line cfg =
     (if rate_pps cfg > 0
      then ''throttle           '' @ u64_to_string (rate_pps cfg) @ '' pkt/s per source, burst '' @
             u64_to_string (burst_pkts cfg)
      else ''throttle           disabled'')"

definition bans_stat_line :: "nat \<Rightarrow> nat \<Rightarrow> nat \<Rightarrow> string" where
  "bans_stat_line active capacity stale =
     ''bans               '' @ string_of_nat active @ ''/'' @ string_of_nat capacity @ '' active ('' @
       string_of_nat stale @ '' expired reclaimed)''"

definition cmd_stats :: "'w host \<Rightarrow> string \<Rightarrow> 'w ps \<Rightarrow> (gerror + unit) \<times> 'w ps" where
  "cmd_stats H pin_dir p =
     bind_ok (typed_map H PerCpuArrayMap pin_dir ''shield_stats'' p) (\<lambda>sh p.
     bind_ok (print_stats H sh STAT_LINES p) (\<lambda>_ p.
     bind_ok (config_map H pin_dir p) (\<lambda>ch p.
     bind_ok (context_err MapError (sys (config_get H ch) p)) (\<lambda>cfg p.
     (let p = println (throttle_stat_line cfg) p in
      bind_ok (open_map H pin_dir ''shield_bans'' p) (\<lambda>md p.
      (let (info, p) = sys (map_max_entries H md) p;
           capacity = (case info of Inl _ \<Rightarrow> 0 | Inr n \<Rightarrow> unat n)
       in
       bind_ok (context_err MapError (sys (map_try_from H HashMap md) p)) (\<lambda>_ p.
       (let (es, p) = sys (hash_iter H md) p; tot = length es in
        bind_ok (prune_expired H md p) (\<lambda>stale p.
        (Inr (), println (bans_stat_line (tot - stale) capacity stale) p)))))))))))"

section \<open>Dispatch\<close>

datatype cmd =
    Load string u64 u64
  | Unload string bool
  | Ban string i64
  | Unban string
  | Check string
  | List
  | Throttle u64 u64
  | Stats
  | Status string
  | Watchdog string
  | Health u64

datatype exit_code = SUCCESS | FAILURE

text \<open>The error chain as \<open>{e:#}\<close> prints it, the context first.\<close>

fun gerror_text :: "gerror \<Rightarrow> string" where
  "gerror_text (InvalidAddress s) = ''invalid address '' @ s @ '': invalid IP address syntax''"
| "gerror_text (OpenMap path e) =
     ''cannot open pinned map '' @ path @ '' (is the guard loaded? run: fips-guard load): '' @ e"
| "gerror_text (MapError e) = e"
| "gerror_text (RunTc e) = ''cannot run `tc` (install iproute2) to check the attachment: '' @ e"
| "gerror_text (TcFailed iface e) = ''tc filter show dev '' @ iface @ '' ingress failed: '' @ e"
| "gerror_text (HeartbeatWrite e) = ''cannot write the health heartbeat: '' @ e"
| "gerror_text (ReattachMissing iface) =
     ''re-attach to '' @ iface @ '' reported success but no filter is present''"
| "gerror_text (CreatePinDir d e) =
     ''cannot create pin dir '' @ d @ '' (is bpffs mounted at /sys/fs/bpf? mount -t bpf bpf /sys/fs/bpf): '' @ e"
| "gerror_text (LoadObject e) = ''failed to load BPF object: '' @ e"
| "gerror_text ProgramMissing = ''program '' @ PROG_NAME @ '' missing from object''"
| "gerror_text (ProgramError e) = e"
| "gerror_text (VerifierRejected e) = ''BPF verifier rejected the program: '' @ e"
| "gerror_text (AttachFailed iface e) = ''cannot attach to '' @ iface @ '' (does the interface exist?): '' @ e"
| "gerror_text (LinkError e) = e"
| "gerror_text (RefusePurge iface) =
     ''refusing to purge maps: the program is still attached to '' @ iface"
| "gerror_text (Unpin path e) = ''cannot unpin '' @ path @ '': '' @ e"
| "gerror_text (SweepFailed e) = ''ban failed and the expired-entry sweep also failed: '' @ gerror_text e"
| "gerror_text (InsertBan first_err n e) =
     ''cannot insert ban (first attempt: '' @ first_err @ ''); swept '' @ string_of_nat n @
     '' expired entries and still could not insert '' @ em_dash @
     '' the ban map may be full of active bans: '' @ e"
| "gerror_text (RemoveBan ip e) = ''cannot remove the ban on '' @ ip @ '': '' @ e"
| "gerror_text (UnbanDidNotTake ip) =
     ''unban of '' @ ip @ '' did not take: the entry is still in shield_bans. '' @
     ''If fail2ban is running, it re-bans every live ticket whenever '' @
     ''`actioncheck` fails '' @ em_dash @ '' check `fips-guard health`.''"

definition report :: "(gerror + unit) \<times> 'w ps \<Rightarrow> exit_code \<times> 'w ps" where
  "report r =
     (case r of
        (Inr _, p) \<Rightarrow> (SUCCESS, p)
      | (Inl e, p) \<Rightarrow> (FAILURE, eprintln (''error: '' @ gerror_text e) p))"

text \<open>\<open>check\<close>, \<open>status\<close> and \<open>health\<close> answer through the exit code.\<close>

definition report_bool :: "(gerror + bool) \<times> 'w ps \<Rightarrow> exit_code \<times> 'w ps" where
  "report_bool r =
     (case r of
        (Inr b, p) \<Rightarrow> (if b then SUCCESS else FAILURE, p)
      | (Inl e, p) \<Rightarrow> report (Inl e, p))"

fun guard_main :: "'w host \<Rightarrow> string \<Rightarrow> cmd \<Rightarrow> 'w ps \<Rightarrow> exit_code \<times> 'w ps" where
  "guard_main H pin_dir (Load iface rate burst) p = report (cmd_load H pin_dir iface rate burst p)"
| "guard_main H pin_dir (Unload iface purge) p = report (cmd_unload H pin_dir iface purge p)"
| "guard_main H pin_dir (Ban ip seconds) p = report (cmd_ban H pin_dir ip seconds p)"
| "guard_main H pin_dir (Unban ip) p = report (cmd_unban H pin_dir ip p)"
| "guard_main H pin_dir (Check ip) p = report_bool (cmd_check H pin_dir ip p)"
| "guard_main H pin_dir List p = report (cmd_list H pin_dir p)"
| "guard_main H pin_dir (Throttle rate burst) p =
     report (bind_ok (set_config H pin_dir rate burst p) (\<lambda>_ p.
       (Inr (), println (if rate > 0 then throttle_line rate burst else ''throttle: disabled'') p)))"
| "guard_main H pin_dir Stats p = report (cmd_stats H pin_dir p)"
| "guard_main H pin_dir (Status iface) p = report_bool (cmd_status H pin_dir iface p)"
| "guard_main H pin_dir (Watchdog iface) p = report (cmd_watchdog H pin_dir iface p)"
| "guard_main H pin_dir (Health max_age) p = report_bool (cmd_health H pin_dir max_age p)"

end
