(* ===== verification/Guard_Table.thy ===== *)
theory Guard_Table
  imports Guard
begin

text \<open>
  The ban table behind the guard CLI. The locale \<open>ban_table\<close> states what the commands rely on
  of a BPF hash map of fixed capacity, as bpf(2) documents it, over a view of the map as a
  partial function; the commands are verified against it once. It is interpreted on a
  reference host that keeps its maps as association lists, which also serves the examples.
\<close>

section \<open>The abstract table\<close>

text \<open>What is left of a table when the entries that have lapsed at \<open>now\<close> are gone.\<close>

definition live_part :: "u64 \<Rightarrow> (addr6 \<Rightarrow> ban_val option) \<Rightarrow> addr6 \<Rightarrow> ban_val option" where
  "live_part now T = (\<lambda>k. case T k of None \<Rightarrow> None | Some v \<Rightarrow> if ban_active v now then Some v else None)"

abbreviation table_key :: "ipv6addr \<Rightarrow> addr6" where
  "table_key a \<equiv> \<lparr>addr_b = octets a\<rparr>"

lemma table_key_inj: "table_key a = table_key b \<longleftrightarrow> a = b"
  by (simp add: octets_inj)

lemma expired_iff: "(expires_mono_ns v \<noteq> 0 \<and> expires_mono_ns v \<le> now) = (\<not> ban_active v now)"
  by (auto simp: ban_active_def)

lemma live_part_Some [simp]: "live_part now T k = Some v \<longleftrightarrow> T k = Some v \<and> ban_active v now"
  by (auto simp: live_part_def split: option.splits)

lemma live_part_idem [simp]: "live_part now (live_part now T) = live_part now T"
  by (auto simp: live_part_def fun_eq_iff split: option.splits)

lemma dom_live_part: "dom (live_part now T) \<subseteq> dom T"
  by (auto simp: live_part_def split: option.splits)

lemma live_part_upd_inactive:
  "T k = Some v \<Longrightarrow> \<not> ban_active v now \<Longrightarrow> live_part now (T(k := None)) = live_part now T"
  by (auto simp: live_part_def fun_eq_iff)

lemma collect_expired_Inr:
  "collect_expired now (map Inr es) = Inr (map fst (filter (\<lambda>(k, v). \<not> ban_active v now) es))"
  by (induction es) (auto simp: expired_iff simp del: not_less)

lemma collect_active_Inr:
  "collect_active now (map Inr es) =
     Inr (map (\<lambda>(k, v). (from_octets (addr_b k), expires_epoch_s v)) (filter (\<lambda>(k, v). ban_active v now) es))"
  by (induction es) (auto simp: ban_active_def [symmetric])

lemma live_part_restrict:
  assumes "map_of es = T" "distinct (map fst es)"
  shows "T |` (- set (map fst (filter (\<lambda>(k, v). \<not> ban_active v now) es))) = live_part now T"
proof
  fix k
  have "k \<in> set (map fst (filter (\<lambda>(k, v). \<not> ban_active v now) es)) \<longleftrightarrow>
      (\<exists>v. T k = Some v \<and> \<not> ban_active v now)"
    using assms by (force simp: map_of_eq_Some_iff)
  then show "(T |` (- set (map fst (filter (\<lambda>(k, v). \<not> ban_active v now) es)))) k = live_part now T k"
    by (cases "T k") (auto simp: restrict_map_def live_part_def)
qed

lemma map_of_filter_live:
  "distinct (map fst es) \<Longrightarrow>
     map_of (filter (\<lambda>(k, v). ban_active v now) es) = live_part now (map_of es)"
  by (simp add: live_part_def fun_eq_iff map_of_filter_values)

lemma ban_active_earlier: "now \<le> now' \<Longrightarrow> ban_active v now' \<Longrightarrow> ban_active v now"
  by (auto simp: ban_active_def)

lemma live_part_later: "now \<le> now' \<Longrightarrow> live_part now' (live_part now T) = live_part now' T"
  using ban_active_earlier by (auto simp: live_part_def fun_eq_iff split: option.splits)

section \<open>Process-state bookkeeping\<close>

lemma println_simps [simp]:
  "world (println l p) = world p" "stdout (println l p) = stdout p @ [l]" "stderr (println l p) = stderr p"
  by (simp_all add: println_def)

lemma eprintln_simps [simp]:
  "world (eprintln l p) = world p" "stdout (eprintln l p) = stdout p" "stderr (eprintln l p) = stderr p @ [l]"
  by (simp_all add: eprintln_def)

lemma sys_eq: "f (world p) = (a, w) \<Longrightarrow> sys f p = (a, p\<lparr>world := w\<rparr>)"
  by (simp add: sys_def)

lemma sys_same: "f (world p) = (a, world p) \<Longrightarrow> sys f p = (a, p)"
  by (simp add: sys_def)

lemma foldl_println:
  "world (foldl (\<lambda>p b. println (f b) p) p bs) = world p"
  "stdout (foldl (\<lambda>p b. println (f b) p) p bs) = stdout p @ map f bs"
  "stderr (foldl (\<lambda>p b. println (f b) p) p bs) = stderr p"
  by (induction bs arbitrary: p) simp_all

section \<open>The contract of the map\<close>

locale ban_table =
  fixes H :: "'w host"
    and ok :: "'w \<Rightarrow> bool"
    and view :: "'w \<Rightarrow> nat \<Rightarrow> addr6 \<Rightarrow> ban_val option"
    and cap :: "nat \<Rightarrow> nat"
  assumes get_hit: "ok w \<Longrightarrow> view w h k = Some v \<Longrightarrow> hash_get H h k w = (Inr v, w)"
    and get_miss: "ok w \<Longrightarrow> view w h k = None \<Longrightarrow> \<exists>e. hash_get H h k w = (Inl e, w)"
    and insert_room: "ok w \<Longrightarrow> view w h k \<noteq> None \<or> card (dom (view w h)) < cap h \<Longrightarrow>
      \<exists>w'. hash_insert H h k v w = (Inr (), w') \<and> ok w' \<and> view w' = (view w)(h := (view w h)(k \<mapsto> v))"
    and insert_full: "ok w \<Longrightarrow> view w h k = None \<Longrightarrow> cap h \<le> card (dom (view w h)) \<Longrightarrow>
      \<exists>e. hash_insert H h k v w = (Inl e, w)"
    and remove_hit: "ok w \<Longrightarrow> view w h k \<noteq> None \<Longrightarrow>
      \<exists>w'. hash_remove H h k w = (Inr (), w') \<and> ok w' \<and> view w' = (view w)(h := (view w h)(k := None))"
    and remove_miss: "ok w \<Longrightarrow> view w h k = None \<Longrightarrow> \<exists>e. hash_remove H h k w = (Inl e, w)"
    and iterate: "ok w \<Longrightarrow>
      \<exists>es. hash_iter H h w = (map Inr es, w) \<and> distinct (map fst es) \<and> map_of es = view w h"
    and clock_frame: "ok w \<Longrightarrow> clock_monotonic H w = (t, w') \<Longrightarrow> ok w' \<and> view w' = view w"
    and epoch_frame: "ok w \<Longrightarrow> since_epoch H w = (s, w') \<Longrightarrow> ok w' \<and> view w' = view w"
begin

lemma finite_dom: "ok w \<Longrightarrow> finite (dom (view w h))"
  using iterate [of w h] by (metis finite_dom_map_of)

lemma now_mono_frame:
  assumes "ok (world p)" "now_mono_ns H p = (t, p')"
  shows "ok (world p') \<and> view (world p') = view (world p) \<and> stdout p' = stdout p \<and> stderr p' = stderr p"
  using assms clock_frame
  by (auto simp: now_mono_ns_def sys_def split: prod.splits)

lemma now_epoch_frame:
  assumes "ok (world p)" "now_epoch_s H p = (t, p')"
  shows "ok (world p') \<and> view (world p') = view (world p) \<and> stdout p' = stdout p \<and> stderr p' = stderr p"
  using assms epoch_frame
  by (auto simp: now_epoch_s_def sys_def split: prod.splits)

lemma ban_value_frame:
  assumes "ok (world p)" "ban_value H seconds p = (v, p')"
  shows "ok (world p') \<and> view (world p') = view (world p) \<and> stdout p' = stdout p \<and> stderr p' = stderr p"
proof (cases "sint seconds \<le> 0")
  case True
  with assms show ?thesis by (auto simp: ban_value_def)
next
  case False
  obtain m p1 where m: "now_mono_ns H p = (m, p1)" by fastforce
  obtain e p2 where e: "now_epoch_s H p1 = (e, p2)" by fastforce
  from False m e assms(2) have "p' = p2" by (auto simp: ban_value_def)
  with now_mono_frame [OF assms(1) m] now_epoch_frame [OF _ e] show ?thesis by auto
qed

lemma remove_keys_view:
  "ok (world p) \<Longrightarrow>
     ok (world (remove_keys H h ks p)) \<and>
     view (world (remove_keys H h ks p)) = (view (world p))(h := view (world p) h |` (- set ks)) \<and>
     stdout (remove_keys H h ks p) = stdout p \<and> stderr (remove_keys H h ks p) = stderr p"
proof (induction ks arbitrary: p)
  case Nil
  then show ?case by (simp add: restrict_map_def fun_eq_iff)
next
  case (Cons k ks)
  show ?case
  proof (cases "view (world p) h k")
    case None
    then obtain e where "hash_remove H h k (world p) = (Inl e, world p)"
      using remove_miss [OF Cons.prems] by blast
    then have "snd (sys (hash_remove H h k) p) = p" by (simp add: sys_same)
    moreover have "view (world p) h |` (- set (k # ks)) = view (world p) h |` (- set ks)"
      using None by (auto simp: restrict_map_def fun_eq_iff)
    ultimately show ?thesis using Cons by simp
  next
    case (Some v)
    then obtain w' where w': "hash_remove H h k (world p) = (Inr (), w')" "ok w'"
        "view w' = (view (world p))(h := (view (world p) h)(k := None))"
      using remove_hit [OF Cons.prems] by (metis option.distinct(1))
    have "(view w')(h := view w' h |` (- set ks)) = (view (world p))(h := view (world p) h |` (- set (k # ks)))"
      by (auto simp: restrict_map_def fun_eq_iff w'(3))
    then show ?thesis
      using Cons.IH [of "p\<lparr>world := w'\<rparr>"] w'(2)
      by (simp add: sys_eq [where f = "hash_remove H h k", OF w'(1)] del: fun_upd_apply)
  qed
qed

lemma prune_spec:
  assumes "ok (world p)" "now_mono_ns H p = (now, p1)"
  shows "\<exists>n p'. prune_expired H h p = (Inr n, p') \<and> ok (world p') \<and> stdout p' = stdout p \<and> stderr p' = stderr p
    \<and> view (world p') = (view (world p))(h := live_part now (view (world p) h))
    \<and> n + card (dom (live_part now (view (world p) h))) = card (dom (view (world p) h))"
proof -
  note f = now_mono_frame [OF assms]
  then obtain es where es: "hash_iter H h (world p1) = (map Inr es, world p1)"
      "distinct (map fst es)" "map_of es = view (world p) h"
    using iterate [of "world p1" h] by auto
  let ?ks = "map fst (filter (\<lambda>(k, v). \<not> ban_active v now) es)"
  have "prune_expired H h p = (Inr (length ?ks), remove_keys H h ?ks p1)"
    by (simp add: prune_expired_def assms(2) sys_same [where f = "hash_iter H h", OF es(1)]
        collect_expired_Inr)
  moreover have "length ?ks + card (dom (live_part now (view (world p) h))) = card (dom (view (world p) h))"
  proof -
    have "set ?ks \<subseteq> dom (view (world p) h)"      using es(2) by (force simp: es(3) [symmetric] map_of_eq_Some_iff)
    moreover have "distinct ?ks" using es(2) by (simp add: distinct_map_filter)
    moreover have "dom (live_part now (view (world p) h)) = dom (view (world p) h) - set ?ks"
      using live_part_restrict [OF es(3,2), of now, symmetric] by (simp add: Diff_eq)
    moreover have "finite (dom (view (world p) h))" using finite_dom assms(1) by blast
    ultimately show ?thesis
      by (metis card_Diff_subset card_mono distinct_card finite_set le_add_diff_inverse)
  qed
  ultimately show ?thesis
    using remove_keys_view [of p1 h ?ks] f live_part_restrict [OF es(3,2)] by auto
qed

text \<open>The three outcomes of a ban: room at once, room after the sweep, full of active bans.\<close>

lemma ban_room:
  assumes "ok (world p)" "bans_map H pin p = (Inr h, p)" "parse_v6 ip = Inr (Some a)"
    and v: "ban_value H seconds p = (v, p1)"
    and room: "view (world p) h (table_key a) \<noteq> None \<or> card (dom (view (world p) h)) < cap h"
  shows "\<exists>p'. cmd_ban H pin ip seconds p = (Inr (), p') \<and> ok (world p')
    \<and> view (world p') = (view (world p))(h := (view (world p) h)(table_key a \<mapsto> v))"
proof -
  note f = ban_value_frame [OF assms(1) v]
  then obtain w' where w': "hash_insert H h (table_key a) v (world p1) = (Inr (), w')" "ok w'"
      "view w' = (view (world p))(h := (view (world p) h)(table_key a \<mapsto> v))"
    using insert_room [of "world p1" h "table_key a" v] room by auto
  show ?thesis
    using assms(2,3) v w'(2,3)
    by (simp add: cmd_ban_def sys_eq [where f = "hash_insert H h (table_key a) v", OF w'(1)])
qed

lemma ban_sweep:
  assumes "ok (world p)" "bans_map H pin p = (Inr h, p)" "parse_v6 ip = Inr (Some a)"
    and v: "ban_value H seconds p = (v, p1)" and now: "now_mono_ns H p1 = (now, p2)"
    and full: "view (world p) h (table_key a) = None" "cap h \<le> card (dom (view (world p) h))"
  shows "\<exists>r p'. cmd_ban H pin ip seconds p = (r, p') \<and> ok (world p')
    \<and> (if card (dom (live_part now (view (world p) h))) < cap h
       then r = Inr ()
         \<and> view (world p') = (view (world p))(h := (live_part now (view (world p) h))(table_key a \<mapsto> v))
       else (\<exists>e1 n e2. r = Inl (InsertBan e1 n e2))
         \<and> view (world p') = (view (world p))(h := live_part now (view (world p) h)))"
proof -
  let ?T = "live_part now (view (world p) h)" and ?k = "table_key a"
  note f = ban_value_frame [OF assms(1) v]
  then obtain e1 where e1: "hash_insert H h ?k v (world p1) = (Inl e1, world p1)"
    using insert_full [of "world p1" h ?k v] full by auto
  obtain n p3 where pr: "prune_expired H h p1 = (Inr n, p3)" "ok (world p3)"
      "view (world p3) = (view (world p))(h := ?T)"
    using prune_spec [OF _ now, of h] f by auto
  have none: "view (world p3) h ?k = None" using full(1) by (simp add: pr(3) live_part_def)
  show ?thesis
  proof (cases "card (dom ?T) < cap h")
    case True
    then obtain w' where w': "hash_insert H h ?k v (world p3) = (Inr (), w')" "ok w'"
        "view w' = (view (world p))(h := ?T(?k \<mapsto> v))"
      using insert_room [OF pr(2), of h ?k v] pr(3) by auto
    then show ?thesis
      using assms(2,3) v True
      by (simp add: cmd_ban_def sys_same [where f = "hash_insert H h ?k v", OF e1] pr(1)
          sys_eq [where f = "hash_insert H h ?k v", OF w'(1)])
  next
    case False
    then obtain e2 where e2: "hash_insert H h ?k v (world p3) = (Inl e2, world p3)"
      using insert_full [OF pr(2) none, of v] pr(3) by auto
    then show ?thesis
      using assms(2,3) v False pr(2,3)
      by (simp add: cmd_ban_def sys_same [where f = "hash_insert H h ?k v", OF e1] pr(1)
          sys_same [where f = "hash_insert H h ?k v", OF e2])
  qed
qed

lemma unban_spec:
  assumes "ok (world p)" "bans_map H pin p = (Inr h, p)" "parse_v6 ip = Inr (Some a)"
  shows "\<exists>p'. cmd_unban H pin ip p = (Inr (), p') \<and> ok (world p')
    \<and> view (world p') = (view (world p))(h := (view (world p) h)(table_key a := None))
    \<and> stdout p' = stdout p @ [''unbanned '' @ ip]"
proof (cases "view (world p) h (table_key a)")
  case None
  then obtain e1 e2 where e: "hash_get H h (table_key a) (world p) = (Inl e1, world p)"
      "hash_remove H h (table_key a) (world p) = (Inl e2, world p)"
    using get_miss remove_miss assms(1) by blast
  then show ?thesis
    using assms None
    by (simp add: cmd_unban_def unban_verify_def is_ok_def fun_upd_idem
        sys_same [where f = "hash_get H h (table_key a)", OF e(1)]
        sys_same [where f = "hash_remove H h (table_key a)", OF e(2)])
next
  case (Some v)
  then have g: "hash_get H h (table_key a) (world p) = (Inr v, world p)"
    using get_hit assms(1) by blast
  obtain w' where w': "hash_remove H h (table_key a) (world p) = (Inr (), w')" "ok w'"
      "view w' = (view (world p))(h := (view (world p) h)(table_key a := None))"
    using remove_hit [OF assms(1), of h "table_key a"] Some by auto
  then obtain e where e: "hash_get H h (table_key a) w' = (Inl e, w')"
    using get_miss [OF w'(2), of h "table_key a"] by auto
  then have "sys (hash_get H h (table_key a)) (p\<lparr>world := w'\<rparr>) = (Inl e, p\<lparr>world := w'\<rparr>)"
    by (simp add: sys_same)
  with g w' show ?thesis
    using assms
    by (simp add: cmd_unban_def unban_verify_def is_ok_def
        sys_same [where f = "hash_get H h (table_key a)", OF g]
        sys_eq [where f = "hash_remove H h (table_key a)", OF w'(1)])
qed

lemma check_spec:
  assumes "ok (world p)" "bans_map H pin p = (Inr h, p)" "parse_v6 ip = Inr (Some a)"
    and now: "now_mono_ns H p = (now, p1)"
  shows "\<exists>p'. cmd_check H pin ip p = (Inr (live_part now (view (world p) h) (table_key a) \<noteq> None), p')
    \<and> ok (world p') \<and> live_part now (view (world p') h) = live_part now (view (world p) h)
    \<and> (\<forall>g. g \<noteq> h \<longrightarrow> view (world p') g = view (world p) g)"
proof (cases "view (world p) h (table_key a)")
  case None
  then obtain e where e: "hash_get H h (table_key a) (world p) = (Inl e, world p)"
    using get_miss assms(1) by blast
  then show ?thesis
    using assms None
    by (simp add: cmd_check_def live_part_def sys_same [where f = "hash_get H h (table_key a)", OF e])
next
  case (Some v)
  then have g: "hash_get H h (table_key a) (world p) = (Inr v, world p)"
    using get_hit assms(1) by blast
  note sg = sys_same [where f = "hash_get H h (table_key a)", OF g]
  note f = now_mono_frame [OF assms(1) now]
  show ?thesis
  proof (cases "ban_active v now")
    case True
    then show ?thesis
      using assms Some f by (auto simp: cmd_check_def sg ban_active_def live_part_def)
  next
    case False
    obtain w' where w': "hash_remove H h (table_key a) (world p1) = (Inr (), w')" "ok w'"
        "view w' = (view (world p))(h := (view (world p) h)(table_key a := None))"
      using remove_hit [of "world p1" h "table_key a"] Some f by auto
    then show ?thesis
      using assms Some False f
      by (auto simp: cmd_check_def sg ban_active_def live_part_def not_less
          sys_eq [where f = "hash_remove H h (table_key a)", OF w'(1)])
  qed
qed

lemma list_spec:
  assumes "ok (world p)" "bans_map H pin p = (Inr h, p)"
    and now: "now_mono_ns H p = (now, p1)"
    and later: "now_mono_ns H (snd (prune_expired H h p)) = (now', p2)" "now \<le> now'"
  shows "\<exists>es p'. cmd_list H pin p = (Inr (), p') \<and> ok (world p')
    \<and> view (world p') = (view (world p))(h := live_part now (view (world p) h))
    \<and> distinct (map fst es) \<and> map_of es = live_part now' (view (world p) h)
    \<and> stdout p' = stdout p @ map (\<lambda>(k, v). ban_line (from_octets (addr_b k), expires_epoch_s v)) es"
proof -
  let ?T = "view (world p) h"
  obtain n q where q: "prune_expired H h p = (Inr n, q)" "ok (world q)" "stdout q = stdout p"
      "view (world q) = (view (world p))(h := live_part now ?T)"
    using prune_spec [OF assms(1) now, of h] by auto
  have f: "ok (world p2)" "view (world p2) = (view (world p))(h := live_part now ?T)" "stdout p2 = stdout p"
    using now_mono_frame [OF q(2)] later q by auto
  obtain es where es: "hash_iter H h (world p2) = (map Inr es, world p2)" "distinct (map fst es)"
      "map_of es = live_part now ?T"
    using iterate [OF f(1), of h] f(2) by auto
  let ?es = "filter (\<lambda>(k, v). ban_active v now') es"
  have "map_of ?es = live_part now' (live_part now ?T)"
    using map_of_filter_live [OF es(2)] es(3) by simp
  moreover have "live_part now' (live_part now ?T) = live_part now' ?T"
    using live_part_later [OF later(2)] .
  moreover have "distinct (map fst ?es)" using es(2) by (simp add: distinct_map_filter)
  moreover have "cmd_list H pin p = (Inr (),
      foldl (\<lambda>p b. println (ban_line b) p) p2 (map (\<lambda>(k, v). (from_octets (addr_b k), expires_epoch_s v)) ?es))"
    using assms(2) q(1) later(1)
    by (simp add: cmd_list_def sys_same [where f = "hash_iter H h", OF es(1)] collect_active_Inr)
  ultimately show ?thesis
    using f by (intro exI [of _ ?es]) (simp add: foldl_println split_def)
qed

end

end
