(* ===== verification/Guard_Load.thy ===== *)
theory Guard_Load
  imports Guard_Table
begin

text \<open>
  Loading, re-attaching and the heartbeat. The locale \<open>load_host\<close> states what a machine with a
  working BPF stack does for \<open>cmd_load\<close>, \<open>cmd_status\<close> and \<open>cmd_watchdog\<close>: which calls succeed
  and what they change of the throttle configuration, of the interfaces that carry the
  classifier, and of the heartbeat.
\<close>

text \<open>The part of the machine the commands are about.\<close>

record guard_state =
  g_config :: config
  g_attached :: "string set"
  g_beat :: u64

locale load_host =
  fixes H :: "'w host"
    and ok :: "'w \<Rightarrow> bool"
    and st :: "'w \<Rightarrow> guard_state"
    and dir :: string
    and up :: "string set"
    and cfd hfd :: nat
  assumes open_config: "ok w \<Longrightarrow> map_from_pin H (path_join dir ''shield_config'') w = (Inr cfd, w)"
    and config_type: "ok w \<Longrightarrow> map_try_from H ArrayMap cfd w = (Inr (), w)"
    and open_health: "ok w \<Longrightarrow> map_from_pin H (path_join dir ''shield_health'') w = (Inr hfd, w)"
    and health_type: "ok w \<Longrightarrow> map_try_from H ArrayMap hfd w = (Inr (), w)"
    and config_read: "ok w \<Longrightarrow> config_get H cfd w = (Inr (g_config (st w)), w)"
    and config_write: "ok w \<Longrightarrow>
      \<exists>w'. config_set H cfd c w = (Inr (), w') \<and> ok w' \<and> st w' = (st w)\<lparr>g_config := c\<rparr>"
    and health_write: "ok w \<Longrightarrow>
      \<exists>w'. health_set H hfd t w = (Inr (), w') \<and> ok w' \<and> st w' = (st w)\<lparr>g_beat := t\<rparr>"
    and epoch: "ok w \<Longrightarrow> \<exists>s w'. since_epoch H w = (s, w') \<and> ok w' \<and> st w' = st w"
    and tc_show: "ok w \<Longrightarrow> iface \<in> up \<Longrightarrow>
      \<exists>out err w'. run_tc H [''filter'', ''show'', ''dev'', iface, ''ingress''] w = (Inr (True, out, err), w')
        \<and> (contains (from_utf8_lossy out) PROG_NAME \<longleftrightarrow> iface \<in> g_attached (st w)) \<and> ok w' \<and> st w' = st w"
    and mkdir: "ok w \<Longrightarrow> \<exists>w'. create_dir_all H dir w = (Inr (), w') \<and> ok w' \<and> st w' = st w"
    and load: "ok w \<Longrightarrow> \<exists>e pr w1 w2. ebpf_load H dir w = (Inr e, w1) \<and> ebpf_program H e PROG_NAME w1 = (Some pr, w2)
        \<and> (\<exists>w3 w4. prog_try_into H pr w2 = (Inr (), w3) \<and> prog_load H pr w3 = (Inr (), w4) \<and> ok w4 \<and> st w4 = st w)"
    and clsact: "ok w \<Longrightarrow> \<exists>r w'. qdisc_add_clsact H iface w = (r, w') \<and> ok w' \<and> st w' = st w"
    and detach: "ok w \<Longrightarrow> \<exists>r w'. qdisc_detach_program H iface PROG_NAME w = (r, w') \<and> ok w'
        \<and> st w' = (st w)\<lparr>g_attached := g_attached (st w) - {iface}\<rparr>"
    and attach: "ok w \<Longrightarrow> iface \<in> up \<Longrightarrow>
      \<exists>l w1 w2. prog_attach H pr iface w = (Inr l, w1) \<and> prog_take_link H pr l w1 = (Inr (), w2) \<and> ok w2
        \<and> st w2 = (st w)\<lparr>g_attached := insert iface (g_attached (st w))\<rparr>"
begin

lemma config_map_opens: "ok (world p) \<Longrightarrow> config_map H dir p = (Inr cfd, p)"
  using open_config config_type
  by (simp add: config_map_def typed_map_def open_map_def sys_same)

lemma health_map_opens: "ok (world p) \<Longrightarrow> health_map H dir p = (Inr hfd, p)"
  using open_health health_type
  by (simp add: health_map_def typed_map_def open_map_def sys_same)

lemma attached_spec:
  assumes "ok (world p)" "iface \<in> up"
  shows "\<exists>p'. classifier_attached H iface p = (Inr (iface \<in> g_attached (st (world p))), p')
    \<and> ok (world p') \<and> st (world p') = st (world p)"
  using tc_show [OF assms] by (auto simp: classifier_attached_def sys_def)

lemma heartbeat_spec:
  assumes "ok (world p)"
  shows "\<exists>t p'. write_heartbeat H dir p = (Inr (), p') \<and> ok (world p')
    \<and> fst (now_epoch_s H p) = t \<and> st (world p') = (st (world p))\<lparr>g_beat := t\<rparr>"
proof -
  obtain s w where w: "since_epoch H (world p) = (s, w)" "ok w" "st w = st (world p)"
    using epoch [OF assms] by blast
  obtain t where t: "now_epoch_s H p = (t, p\<lparr>world := w\<rparr>)"
    using w(1) by (simp add: now_epoch_s_def sys_def)
  obtain w' where "health_set H hfd t w = (Inr (), w')" "ok w'" "st w' = (st w)\<lparr>g_beat := t\<rparr>"
    using health_write [OF w(2)] by blast
  with w t show ?thesis
    using assms by (simp add: write_heartbeat_def health_map_opens sys_def)
qed

lemma set_config_spec:
  assumes "ok (world p)"
  shows "\<exists>p'. set_config H dir rate burst p = (Inr (), p') \<and> ok (world p')
    \<and> st (world p') = (st (world p))\<lparr>g_config := effective_config rate burst\<rparr>"
  using config_write [OF assms, of "effective_config rate burst"] assms
  by (auto simp: set_config_def config_map_opens sys_def)

lemma load_spec:
  assumes "ok (world p)" "iface \<in> up"
  shows "\<exists>p'. cmd_load H dir iface rate burst p = (Inr (), p') \<and> ok (world p')
    \<and> st (world p') = (st (world p))\<lparr>g_config := effective_config rate burst,
         g_attached := insert iface (g_attached (st (world p)))\<rparr>"
proof -
  obtain w1 where 1: "create_dir_all H dir (world p) = (Inr (), w1)" "ok w1" "st w1 = st (world p)"
    using mkdir [OF assms(1)] by blast
  obtain e pr w2 w3 w4 w5 where 2: "ebpf_load H dir w1 = (Inr e, w2)" "ebpf_program H e PROG_NAME w2 = (Some pr, w3)"
      "prog_try_into H pr w3 = (Inr (), w4)" "prog_load H pr w4 = (Inr (), w5)" "ok w5" "st w5 = st w1"
    using load [OF 1(2)] by blast
  obtain r w6 where 3: "qdisc_add_clsact H iface w5 = (r, w6)" "ok w6" "st w6 = st w5"
    using clsact [OF 2(5)] by blast
  obtain r' w7 where 4: "qdisc_detach_program H iface PROG_NAME w6 = (r', w7)" "ok w7"
      "st w7 = (st w6)\<lparr>g_attached := g_attached (st w6) - {iface}\<rparr>"
    using detach [OF 3(2)] by blast
  obtain l w8 w9 where 5: "prog_attach H pr iface w7 = (Inr l, w8)" "prog_take_link H pr l w8 = (Inr (), w9)" "ok w9"
      "st w9 = (st w7)\<lparr>g_attached := insert iface (g_attached (st w7))\<rparr>"
    using attach [OF 4(2) assms(2)] by blast
  obtain q where 6: "set_config H dir rate burst (p\<lparr>world := w9\<rparr>) = (Inr (), q)" "ok (world q)"
      "st (world q) = (st w9)\<lparr>g_config := effective_config rate burst\<rparr>"
    using set_config_spec [of "p\<lparr>world := w9\<rparr>"] 5(3) by auto
  show ?thesis
    using 1 2 3 4 5 6 by (auto simp: cmd_load_def sys_def Let_def)
qed

text \<open>The watchdog on a machine that lost the filter: attached again, throttle as it was.\<close>

lemma watchdog_spec:
  assumes "ok (world p)" "iface \<in> up"
    and "rate_pps (g_config (st (world p))) > 0 \<Longrightarrow> burst_pkts (g_config (st (world p))) \<noteq> 0"
  shows "\<exists>t p'. cmd_watchdog H dir iface p = (Inr (), p') \<and> ok (world p')
    \<and> st (world p') = (st (world p))\<lparr>g_attached := insert iface (g_attached (st (world p))), g_beat := t\<rparr>"
proof -
  let ?cfg = "g_config (st (world p))"
  obtain p1 where 1: "classifier_attached H iface p = (Inr (iface \<in> g_attached (st (world p))), p1)"
      "ok (world p1)" "st (world p1) = st (world p)"
    using attached_spec [OF assms(1,2)] by blast
  show ?thesis
  proof (cases "iface \<in> g_attached (st (world p))")
    case True
    with 1 heartbeat_spec [OF 1(2)] show ?thesis
      by (auto simp: cmd_watchdog_def insert_absorb)
  next
    case False
    have eff: "effective_config (rate_pps ?cfg) (burst_pkts ?cfg) = ?cfg"
      using assms(3) by (auto simp: effective_config_def)
    let ?p2 = "eprintln (''watchdog: '' @ PROG_NAME @ '' is not attached to '' @ iface @ ''; re-attaching'') p1"
    have ok2: "ok (world ?p2)" and st2: "st (world ?p2) = st (world p)" using 1 by simp_all
    have rd: "bind_ok (config_map H dir ?p2) (\<lambda>h p. context_err MapError (sys (config_get H h) p)) = (Inr ?cfg, ?p2)"
      using config_map_opens [OF ok2] config_read [OF ok2] st2 by (simp add: sys_same)
    obtain p3 where 3: "cmd_load H dir iface (rate_pps ?cfg) (burst_pkts ?cfg) ?p2 = (Inr (), p3)" "ok (world p3)"
        "st (world p3) = (st (world p))\<lparr>g_attached := insert iface (g_attached (st (world p)))\<rparr>"
      using load_spec [OF ok2 assms(2), of "rate_pps ?cfg" "burst_pkts ?cfg"] st2 eff by auto
    obtain p4 where 4: "classifier_attached H iface p3 = (Inr True, p4)" "ok (world p4)"
        "st (world p4) = st (world p3)"
      using attached_spec [OF 3(2) assms(2)] 3(3) by auto
    show ?thesis
      using False 1 rd 3 4 heartbeat_spec [OF 4(2)]
      by (auto simp: cmd_watchdog_def Let_def)
  qed
qed

end

end
