(* ===== verification/Guard_Host.thy ===== *)
theory Guard_Host
  imports Guard_Load
begin

text \<open>
  A machine the guard runs on, with the classifier's own maps as the state behind the pins.
  The ban map is kept in iteration order beside the lookup the classifier uses; the invariant
  \<open>k_ok\<close> says they are the same table. The host discharges the contract \<open>ban_table\<close> and is
  where the witnesses of the guard's properties run.
\<close>

section \<open>The machine\<close>

record kworld =
  k_mono :: "i64 \<times> i64"
  k_epoch :: "u64 option"
  k_pins :: "(string \<times> nat) list"
  k_order :: "(addr6 \<times> ban_val) list"
  k_maps :: maps
  k_health :: u64
  k_ifaces :: "string list"
  k_filters :: "string list"

definition k_ok :: "kworld \<Rightarrow> bool" where
  "k_ok w \<longleftrightarrow> distinct (map fst (k_order w)) \<and> shield_bans (k_maps w) = map_of (k_order w)"

text \<open>The handles of the five maps; only the first is a ban table.\<close>

abbreviation (input) bans_fd :: nat where "bans_fd \<equiv> 0"

definition map_names :: "string list" where
  "map_names = [''shield_bans'', ''shield_throttle'', ''shield_config'', ''shield_stats'', ''shield_health'']"

definition map_kind :: "nat \<Rightarrow> map_type" where
  "map_kind h = (if h = 3 then PerCpuArrayMap else if h = 2 \<or> h = 4 then ArrayMap else HashMap)"

definition k_view :: "kworld \<Rightarrow> nat \<Rightarrow> addr6 \<Rightarrow> ban_val option" where
  "k_view w h = (if h = bans_fd then shield_bans (k_maps w) else Map.empty)"

definition k_cap :: "nat \<Rightarrow> nat \<Rightarrow> nat" where
  "k_cap c h = (if h = bans_fd then c else 0)"

definition set_bans :: "(addr6 \<times> ban_val) list \<Rightarrow> kworld \<Rightarrow> kworld" where
  "set_bans es w = w\<lparr>k_order := es, k_maps := (k_maps w)\<lparr>shield_bans := map_of es\<rparr>\<rparr>"

fun upd_alist :: "'k \<Rightarrow> 'v \<Rightarrow> ('k \<times> 'v) list \<Rightarrow> ('k \<times> 'v) list" where
  "upd_alist k v [] = [(k, v)]"
| "upd_alist k v ((k', v') # es) = (if k = k' then (k, v) # es else (k', v') # upd_alist k v es)"

definition del_alist :: "'k \<Rightarrow> ('k \<times> 'v) list \<Rightarrow> ('k \<times> 'v) list" where
  "del_alist k es = filter (\<lambda>e. fst e \<noteq> k) es"

definition k_insert :: "nat \<Rightarrow> nat \<Rightarrow> addr6 \<Rightarrow> ban_val \<Rightarrow> kworld \<Rightarrow> (string + unit) \<times> kworld" where
  "k_insert c h k v w =
     (if h \<noteq> bans_fd then (Inl ''EBADF'', w)
      else if shield_bans (k_maps w) k \<noteq> None \<or> length (k_order w) < c
      then (Inr (), set_bans (upd_alist k v (k_order w)) w)
      else (Inl ''E2BIG'', w))"

definition k_remove :: "nat \<Rightarrow> addr6 \<Rightarrow> kworld \<Rightarrow> (string + unit) \<times> kworld" where
  "k_remove h k w =
     (if h \<noteq> bans_fd then (Inl ''EBADF'', w)
      else if shield_bans (k_maps w) k = None then (Inl ''ENOENT'', w)
      else (Inr (), set_bans (del_alist k (k_order w)) w))"

definition k_get :: "nat \<Rightarrow> addr6 \<Rightarrow> kworld \<Rightarrow> (string + ban_val) \<times> kworld" where
  "k_get h k w = (case k_view w h k of None \<Rightarrow> (Inl ''ENOENT'', w) | Some v \<Rightarrow> (Inr v, w))"

definition k_load :: "string \<Rightarrow> kworld \<Rightarrow> kworld" where
  "k_load dir w =
     w\<lparr>k_pins := k_pins w @ filter (\<lambda>e. map_of (k_pins w) (fst e) = None)
                   (zip (map (path_join dir) map_names) [0..<5]),
       k_maps := (k_maps w)\<lparr>shield_config :=
                    (case shield_config (k_maps w) of
                       None \<Rightarrow> Some \<lparr>rate_pps = 0, burst_pkts = 0\<rparr> | Some c \<Rightarrow> Some c)\<rparr>\<rparr>"

definition k_tc :: "string list \<Rightarrow> kworld \<Rightarrow> (string + bool \<times> string \<times> string) \<times> kworld" where
  "k_tc args w =
     (let iface = (if 3 < length args then args ! 3 else '''') in
      (if iface \<in> set (k_ifaces w)
       then Inr (True, if iface \<in> set (k_filters w)
                       then ''bpf shield_guard''
                       else '''', '''')
       else Inr (False, '''', ''Cannot find device''), w))"

definition kernel_host :: "nat \<Rightarrow> kworld host" where
  "kernel_host c =
     \<lparr>clock_monotonic = (\<lambda>w. (k_mono w, w)),
      since_epoch = (\<lambda>w. (k_epoch w, w)),
      map_from_pin = (\<lambda>path w. (case map_of (k_pins w) path of None \<Rightarrow> Inl ''ENOENT'' | Some h \<Rightarrow> Inr h, w)),
      map_try_from = (\<lambda>ty h w. (if map_kind h = ty then Inr () else Inl ''invalid map type'', w)),
      hash_get = k_get,
      hash_insert = k_insert c,
      hash_remove = k_remove,
      hash_iter = (\<lambda>h w. (map Inr (if h = bans_fd then k_order w else []), w)),
      map_max_entries = (\<lambda>h w. (Inr (of_nat (k_cap c h)), w)),
      config_get = (\<lambda>h w. (case shield_config (k_maps w) of None \<Rightarrow> Inl ''ENOENT'' | Some cfg \<Rightarrow> Inr cfg, w)),
      config_set = (\<lambda>h cfg w. (Inr (), w\<lparr>k_maps := (k_maps w)\<lparr>shield_config := Some cfg\<rparr>\<rparr>)),
      health_get = (\<lambda>h w. (Inr (k_health w), w)),
      health_set = (\<lambda>h t w. (Inr (), w\<lparr>k_health := t\<rparr>)),
      percpu_get = (\<lambda>h i w. (case shield_stats (k_maps w) i of None \<Rightarrow> Inl ''ENOENT'' | Some v \<Rightarrow> Inr [v], w)),
      run_tc = k_tc,
      create_dir_all = (\<lambda>d w. (Inr (), w)),
      path_exists = (\<lambda>path w. (map_of (k_pins w) path \<noteq> None, w)),
      remove_file = (\<lambda>path w. (Inr (), w\<lparr>k_pins := del_alist path (k_pins w)\<rparr>)),
      remove_dir = (\<lambda>d w. (if k_pins w = [] then Inr () else Inl ''ENOTEMPTY'', w)),
      ebpf_load = (\<lambda>dir w. (Inr 1, k_load dir w)),
      ebpf_program = (\<lambda>e name w. (if name = PROG_NAME then Some 1 else None, w)),
      prog_try_into = (\<lambda>pr w. (Inr (), w)),
      prog_load = (\<lambda>pr w. (Inr (), w)),
      qdisc_add_clsact = (\<lambda>iface w. (Inr (), w)),
      qdisc_detach_program = (\<lambda>iface name w.
        (if iface \<in> set (k_filters w) then Inr () else Inl ''ENOENT'', w\<lparr>k_filters := removeAll iface (k_filters w)\<rparr>)),
      prog_attach = (\<lambda>pr iface w.
        (if iface \<in> set (k_ifaces w) then (Inr 1, w\<lparr>k_filters := iface # k_filters w\<rparr>) else (Inl ''ENODEV'', w))),
      prog_take_link = (\<lambda>pr l w. (Inr (), w))\<rparr>"

section \<open>The contract holds\<close>

lemma map_of_upd_alist: "map_of (upd_alist k v es) = (map_of es)(k \<mapsto> v)"
  by (induction es) (auto simp: fun_eq_iff)

lemma keys_upd_alist: "fst ` set (upd_alist k v es) = insert k (fst ` set es)"
  by (induction k v es rule: upd_alist.induct) auto

lemma distinct_upd_alist: "distinct (map fst es) \<Longrightarrow> distinct (map fst (upd_alist k v es))"
  by (induction es) (auto simp: keys_upd_alist)

lemma map_of_del_alist: "map_of (del_alist k es) = (map_of es)(k := None)"
  by (induction es) (auto simp: del_alist_def fun_eq_iff)

lemma distinct_del_alist: "distinct (map fst es) \<Longrightarrow> distinct (map fst (del_alist k es))"
  by (simp add: del_alist_def distinct_map_filter)

lemma k_view_set_bans: "k_view (set_bans es w) = (k_view w)(bans_fd := map_of es)"
  by (auto simp: k_view_def set_bans_def fun_eq_iff)

lemma k_ok_set_bans: "distinct (map fst es) \<Longrightarrow> k_ok (set_bans es w)"
  by (simp add: k_ok_def set_bans_def)

lemma k_size: "k_ok w \<Longrightarrow> card (dom (k_view w bans_fd)) = length (k_order w)"
  by (simp add: k_ok_def k_view_def card_dom_map_of)

lemma k_insert_room:
  assumes "k_ok w" "k_view w h k \<noteq> None \<or> card (dom (k_view w h)) < k_cap c h"
  shows "\<exists>w'. k_insert c h k v w = (Inr (), w') \<and> k_ok w' \<and> k_view w' = (k_view w)(h := (k_view w h)(k \<mapsto> v))"
proof -
  have h: "h = bans_fd" using assms(2) by (auto simp: k_view_def k_cap_def split: if_splits)
  then have "shield_bans (k_maps w) k \<noteq> None \<or> length (k_order w) < c"
    using assms k_size by (auto simp: k_view_def k_cap_def)
  with h assms(1) show ?thesis
    by (auto simp: k_insert_def k_view_set_bans map_of_upd_alist k_view_def k_ok_def
        intro!: k_ok_set_bans [unfolded k_ok_def] distinct_upd_alist)
qed

interpretation kernel: ban_table "kernel_host c" k_ok k_view "k_cap c" for c
proof (unfold_locales, goal_cases)
  case (1 w h k v)
  then show ?case by (simp add: kernel_host_def k_get_def)
next
  case (2 w h k)
  then show ?case by (simp add: kernel_host_def k_get_def)
next
  case (3 w h k v)
  then show ?case using k_insert_room by (simp add: kernel_host_def)
next
  case (4 w h k v)
  then show ?case
    using k_size [of w] by (cases "h = bans_fd") (auto simp: kernel_host_def k_insert_def k_cap_def k_view_def)
next
  case (5 w h k)
  then show ?case
    by (auto simp: kernel_host_def k_remove_def k_view_set_bans map_of_del_alist k_view_def k_ok_def
        intro!: k_ok_set_bans [unfolded k_ok_def] distinct_del_alist split: if_splits)
next
  case (6 w h k)
  then show ?case by (cases "h = bans_fd") (auto simp: kernel_host_def k_remove_def k_view_def)
next
  case (7 w h)
  then show ?case by (auto simp: kernel_host_def k_ok_def k_view_def)
next
  case (8 w t w')
  then show ?case by (simp add: kernel_host_def)
next
  case (9 w s w')
  then show ?case by (simp add: kernel_host_def)
qed

text \<open>With the maps of \<open>dir\<close> pinned the machine meets the contract of the loader as well.\<close>

definition k_loaded :: "string \<Rightarrow> string set \<Rightarrow> kworld \<Rightarrow> bool" where
  "k_loaded dir up w \<longleftrightarrow> map_of (k_pins w) (path_join dir ''shield_config'') = Some 2
     \<and> map_of (k_pins w) (path_join dir ''shield_health'') = Some 4
     \<and> shield_config (k_maps w) \<noteq> None \<and> set (k_ifaces w) = up"

definition k_st :: "kworld \<Rightarrow> guard_state" where
  "k_st w = \<lparr>g_config = (case shield_config (k_maps w) of None \<Rightarrow> \<lparr>rate_pps = 0, burst_pkts = 0\<rparr> | Some c \<Rightarrow> c),
     g_attached = set (k_filters w), g_beat = k_health w\<rparr>"

lemma tc_text: "contains ''bpf shield_guard'' PROG_NAME" "\<not> contains '''' PROG_NAME"
  by (simp_all add: contains_def PROG_NAME_def)

interpretation kernel_load: load_host "kernel_host c" "k_loaded dir up" k_st dir up 2 4 for c dir up
proof (unfold_locales, goal_cases)
  case (9 w iface)
  then show ?case
    by (auto simp: kernel_host_def k_tc_def k_loaded_def k_st_def tc_text)
qed (auto simp: kernel_host_def k_loaded_def k_st_def map_kind_def k_load_def PROG_NAME_def map_add_Some_iff
    split: option.splits)

section \<open>A machine for the examples\<close>

text \<open>The guard loaded on \<open>fips0\<close>: 100 seconds after boot, two bans, one of them lapsed.\<close>

definition demo_addr :: ipv6addr where
  "demo_addr = [0xFD00, 0, 0, 0, 0, 0, 0, 7]"

definition demo_live :: ban_val where
  "demo_live = \<lparr>expires_mono_ns = 200000000000, expires_epoch_s = 1100\<rparr>"

definition demo_lapsed :: ban_val where
  "demo_lapsed = \<lparr>expires_mono_ns = 50000000000, expires_epoch_s = 950\<rparr>"

definition demo_order :: "(addr6 \<times> ban_val) list" where
  "demo_order = [(table_key [0xFD00, 0, 0, 0, 0, 0, 0, 1], demo_live),
                 (table_key [0xFD00, 0, 0, 0, 0, 0, 0, 2], demo_lapsed)]"

definition demo_world :: kworld where
  "demo_world =
     k_load ''/p'' \<lparr>k_mono = (100, 0), k_epoch = Some 1000, k_pins = [], k_order = demo_order,
       k_maps = \<lparr>shield_bans = map_of demo_order, shield_throttle = Map.empty, shield_config = None,
                 shield_stats = (\<lambda>i. if i < ST_COUNT then Some 0 else None)\<rparr>,
       k_health = 0, k_ifaces = [''fips0''], k_filters = [''fips0'']\<rparr>"

definition demo_ps :: "kworld ps" where
  "demo_ps = \<lparr>world = demo_world, stdout = [], stderr = []\<rparr>"

lemma demo_addr_v6: "parse_v6 ''fd00::7'' = Inr (Some demo_addr)"
  by (simp add: parse_v6_def demo_addr_def parse_eval)

lemma demo_ok: "k_ok (world demo_ps)"
  by (simp add: k_ok_def demo_ps_def demo_world_def k_load_def demo_order_def octets_inj)

lemma kernel_host_sel [simp]:
  "clock_monotonic (kernel_host c) w = (k_mono w, w)"
  "since_epoch (kernel_host c) w = (k_epoch w, w)"
  "map_from_pin (kernel_host c) path w = (case map_of (k_pins w) path of None \<Rightarrow> Inl ''ENOENT'' | Some h \<Rightarrow> Inr h, w)"
  "map_try_from (kernel_host c) ty h w = (if map_kind h = ty then Inr () else Inl ''invalid map type'', w)"
  "hash_get (kernel_host c) = k_get" "hash_insert (kernel_host c) = k_insert c" "hash_remove (kernel_host c) = k_remove"
  "hash_iter (kernel_host c) h w = (map Inr (if h = bans_fd then k_order w else []), w)"
  "config_get (kernel_host c) h w = (case shield_config (k_maps w) of None \<Rightarrow> Inl ''ENOENT'' | Some cfg \<Rightarrow> Inr cfg, w)"
  "config_set (kernel_host c) h cfg w = (Inr (), w\<lparr>k_maps := (k_maps w)\<lparr>shield_config := Some cfg\<rparr>\<rparr>)"
  "health_get (kernel_host c) h w = (Inr (k_health w), w)"
  "health_set (kernel_host c) h t w = (Inr (), w\<lparr>k_health := t\<rparr>)"
  "run_tc (kernel_host c) = k_tc"
  by (simp_all add: kernel_host_def)

lemma k_mono_remove: "k_mono (snd (k_remove h k w)) = k_mono w"
  by (simp add: k_remove_def set_bans_def)

lemma k_mono_remove_keys: "k_mono (world (remove_keys (kernel_host c) h ks p)) = k_mono (world p)"
  by (induction ks arbitrary: p) (simp_all add: sys_def split_beta k_mono_remove)

lemma demo_world_sel [simp]:
  "k_mono demo_world = (100, 0)" "k_epoch demo_world = Some 1000" "k_order demo_world = demo_order"
  "shield_bans (k_maps demo_world) = map_of demo_order"
  "k_pins demo_world = [(''/p/shield_bans'', 0), (''/p/shield_throttle'', 1), (''/p/shield_config'', 2),
     (''/p/shield_stats'', 3), (''/p/shield_health'', 4)]"
  by (simp_all add: demo_world_def k_load_def map_names_def path_join_def upt_rec ends_with_def)

lemma world_demo_ps [simp]: "world demo_ps = demo_world"
  by (simp add: demo_ps_def)

lemma demo_open: "bans_map (kernel_host c) ''/p'' demo_ps = (Inr 0, demo_ps)"
  by (simp add: bans_map_def typed_map_def open_map_def sys_def path_join_def map_kind_def)

lemma demo_now: "now_mono_ns (kernel_host c) demo_ps = (100000000000, demo_ps)"
  by (simp add: now_mono_ns_def sys_def)

lemma demo_view: "k_view demo_world 0 = map_of demo_order"
  by (simp add: k_view_def)

lemma card_dom_map_of_singleton: "card (dom (map_of [e])) = 1"
  by (cases e) simp

end
