(* ===== verification/Guard_Frame.thy ===== *)
theory Guard_Frame
  imports Guard_Table
begin

text \<open>
  What the commands leave alone. \<open>host_frame\<close> is a predicate on the machine that every call
  but the two that modify a hash map preserves; \<open>host_invariant\<close> adds those two. Every command
  preserves the second kind, and the commands that do not edit the ban table preserve the
  first.
\<close>

definition keeps :: "('w \<Rightarrow> bool) \<Rightarrow> 'a \<times> 'w ps \<Rightarrow> bool" where
  "keeps P r \<longleftrightarrow> P (world (snd r))"

lemma keeps_pair [simp]: "keeps P (a, p) = P (world p)"
  by (simp add: keeps_def)

lemma keeps_bind:
  assumes "keeps P r" "\<And>a q. P (world q) \<Longrightarrow> keeps P (k a q)"
  shows "keeps P (bind_ok r k)"
  using assms by (auto simp: keeps_def bind_ok_def split: prod.split sum.split)

lemma keeps_context: "keeps P (context_err f r) = keeps P r"
  by (auto simp: keeps_def context_err_def split: prod.split sum.split)

lemma keeps_sys: "(\<And>w. P w \<Longrightarrow> P (snd (f w))) \<Longrightarrow> P (world p) \<Longrightarrow> keeps P (sys f p)"
  by (simp add: keeps_def sys_def split_beta)

lemma keeps_split:
  assumes "keeps P r" "\<And>a q. P (world q) \<Longrightarrow> keeps P (k a q)"
  shows "keeps P (case r of (a, q) \<Rightarrow> k a q)"
  using assms by (simp add: keeps_def split_beta)

lemma keeps_snd: "keeps P r \<Longrightarrow> P (world (snd r))"
  by (simp add: keeps_def)

text \<open>The commands that may change an entry of the ban table.\<close>

definition edits_bans :: "cmd \<Rightarrow> bool" where
  "edits_bans c = (case c of Ban _ _ \<Rightarrow> True | Unban _ \<Rightarrow> True | Check _ \<Rightarrow> True | List \<Rightarrow> True | Stats \<Rightarrow> True | _ \<Rightarrow> False)"

locale host_frame =
  fixes H :: "'w host" and P :: "'w \<Rightarrow> bool"
  assumes f_clock: "P w \<Longrightarrow> P (snd (clock_monotonic H w))"
    and f_epoch: "P w \<Longrightarrow> P (snd (since_epoch H w))"
    and f_pin: "P w \<Longrightarrow> P (snd (map_from_pin H path w))"
    and f_try: "P w \<Longrightarrow> P (snd (map_try_from H ty h w))"
    and f_get: "P w \<Longrightarrow> P (snd (hash_get H h k w))"
    and f_iter: "P w \<Longrightarrow> P (snd (hash_iter H h w))"
    and f_max: "P w \<Longrightarrow> P (snd (map_max_entries H h w))"
    and f_cget: "P w \<Longrightarrow> P (snd (config_get H h w))"
    and f_cset: "P w \<Longrightarrow> P (snd (config_set H h c w))"
    and f_hget: "P w \<Longrightarrow> P (snd (health_get H h w))"
    and f_hset: "P w \<Longrightarrow> P (snd (health_set H h t w))"
    and f_percpu: "P w \<Longrightarrow> P (snd (percpu_get H h i w))"
    and f_tc: "P w \<Longrightarrow> P (snd (run_tc H args w))"
    and f_mkdir: "P w \<Longrightarrow> P (snd (create_dir_all H d w))"
    and f_exists: "P w \<Longrightarrow> P (snd (path_exists H path w))"
    and f_rmfile: "P w \<Longrightarrow> P (snd (remove_file H path w))"
    and f_rmdir: "P w \<Longrightarrow> P (snd (remove_dir H d w))"
    and f_eload: "P w \<Longrightarrow> P (snd (ebpf_load H d w))"
    and f_eprog: "P w \<Longrightarrow> P (snd (ebpf_program H e n w))"
    and f_ptry: "P w \<Longrightarrow> P (snd (prog_try_into H pr w))"
    and f_pload: "P w \<Longrightarrow> P (snd (prog_load H pr w))"
    and f_clsact: "P w \<Longrightarrow> P (snd (qdisc_add_clsact H iface w))"
    and f_detach: "P w \<Longrightarrow> P (snd (qdisc_detach_program H iface n w))"
    and f_attach: "P w \<Longrightarrow> P (snd (prog_attach H pr iface w))"
    and f_link: "P w \<Longrightarrow> P (snd (prog_take_link H pr l w))"
begin

lemmas calls = f_clock f_epoch f_pin f_try f_get f_iter f_max f_cget f_cset f_hget f_hset f_percpu f_tc
  f_mkdir f_exists f_rmfile f_rmdir f_eload f_eprog f_ptry f_pload f_clsact f_detach f_attach f_link

lemma keeps_now: "P (world p) \<Longrightarrow> keeps P (now_mono_ns H p)" "P (world p) \<Longrightarrow> keeps P (now_epoch_s H p)"
  unfolding now_mono_ns_def now_epoch_s_def
  by (simp_all add: keeps_def sys_def split_beta calls)

lemma keeps_typed_map: "P (world p) \<Longrightarrow> keeps P (typed_map H ty pin name p)"
  unfolding typed_map_def open_map_def Let_def
  by (intro keeps_bind) (simp_all add: keeps_context keeps_sys calls)

lemma keeps_open_map: "P (world p) \<Longrightarrow> keeps P (open_map H pin name p)"
  unfolding open_map_def Let_def by (simp add: keeps_context keeps_sys calls)

lemma keeps_maps:
  "P (world p) \<Longrightarrow> keeps P (bans_map H pin p)" "P (world p) \<Longrightarrow> keeps P (health_map H pin p)"
  "P (world p) \<Longrightarrow> keeps P (config_map H pin p)"
  unfolding bans_map_def health_map_def config_map_def by (simp_all add: keeps_typed_map)

lemma keeps_attached: "P (world p) \<Longrightarrow> keeps P (classifier_attached H iface p)"
  unfolding classifier_attached_def
  by (intro keeps_bind) (auto simp: keeps_context keeps_sys calls)

lemma keeps_heartbeat: "P (world p) \<Longrightarrow> keeps P (write_heartbeat H pin p)"
  unfolding write_heartbeat_def
  by (intro keeps_bind keeps_split) (auto simp: keeps_context keeps_sys calls keeps_maps keeps_now)

lemma keeps_set_config: "P (world p) \<Longrightarrow> keeps P (set_config H pin r b p)"
  unfolding set_config_def
  by (intro keeps_bind) (auto simp: keeps_context keeps_sys calls keeps_maps)

lemma keeps_load:
  assumes "P (world p)"
  shows "keeps P (cmd_load H pin iface r b p)"
proof -
  have tail: "keeps P (bind_ok (context_err (AttachFailed iface) (sys (prog_attach H prog iface) q)) (\<lambda>link_id p.
           bind_ok (context_err LinkError (sys (prog_take_link H prog link_id) p)) (\<lambda>_ p.
           bind_ok (set_config H pin r b p) (\<lambda>_ p.
           (let p = println (''loaded on '' @ iface @ '', maps pinned at '' @ pin) p in
            if r > 0 then (Inr (), println (throttle_line r b) p)
            else (Inr (), println ''throttle: disabled (bans only)'' p))))))"
    if "P (world q)" for prog q
    using that by (intro keeps_bind) (auto simp: keeps_context keeps_sys calls keeps_set_config Let_def)
  have qdisc: "P (world (snd (sys (qdisc_detach_program H iface PROG_NAME) (snd (sys (qdisc_add_clsact H iface) q)))))"
    if "P (world q)" for q
    using that by (simp add: sys_def split_beta calls)
  have body: "keeps P (case x of None \<Rightarrow> (Inl ProgramMissing, q)
      | Some prog \<Rightarrow> bind_ok (context_err ProgramError (sys (prog_try_into H prog) q)) (\<lambda>_ p.
          bind_ok (context_err VerifierRejected (sys (prog_load H prog) p)) (\<lambda>_ p.
          (let p = snd (sys (qdisc_add_clsact H iface) p);
               p = snd (sys (qdisc_detach_program H iface PROG_NAME) p)
           in bind_ok (context_err (AttachFailed iface) (sys (prog_attach H prog iface) p)) (\<lambda>link_id p.
           bind_ok (context_err LinkError (sys (prog_take_link H prog link_id) p)) (\<lambda>_ p.
           bind_ok (set_config H pin r b p) (\<lambda>_ p.
           (let p = println (''loaded on '' @ iface @ '', maps pinned at '' @ pin) p in
            if r > 0 then (Inr (), println (throttle_line r b) p)
            else (Inr (), println ''throttle: disabled (bans only)'' p)))))))))" if "P (world q)" for x q
    using that unfolding Let_def
    by (cases x) (auto intro!: keeps_bind tail [unfolded Let_def] qdisc simp: keeps_context keeps_sys calls)
  show ?thesis
    unfolding cmd_load_def
    by (intro keeps_bind)
      (use assms in \<open>auto simp: keeps_context keeps_sys calls intro!: keeps_split body\<close>)
qed

lemma keeps_status: "P (world p) \<Longrightarrow> keeps P (cmd_status H pin iface p)"
  unfolding cmd_status_def Let_def
  by (intro keeps_bind) (auto simp: keeps_attached keeps_snd [OF keeps_heartbeat])

lemma keeps_health: "P (world p) \<Longrightarrow> keeps P (cmd_health H pin max_age p)"
  unfolding cmd_health_def Let_def
  by (intro keeps_bind keeps_split) (auto intro!: keeps_split simp: keeps_maps keeps_sys calls keeps_now)

lemma keeps_watchdog:
  assumes "P (world p)"
  shows "keeps P (cmd_watchdog H pin iface p)"
  unfolding cmd_watchdog_def Let_def
  by (rule keeps_bind) (use assms in \<open>auto simp: keeps_attached keeps_heartbeat keeps_load keeps_maps keeps_context keeps_sys calls
        intro!: keeps_bind keeps_split\<close>)

lemma keeps_unpin: "P (world p) \<Longrightarrow> keeps P (unpin_all H pin names p)"
proof (induction names arbitrary: p)
  case (Cons n names)
  have step: "keeps P (case b of False \<Rightarrow> unpin_all H pin names q | True \<Rightarrow>
      bind_ok (context_err (Unpin (path_join pin n)) (sys (remove_file H (path_join pin n)) q)) (\<lambda>_ p. unpin_all H pin names p))"
    if "P (world q)" for b q
    using that Cons.IH by (cases b) (auto intro!: keeps_bind simp: keeps_context keeps_sys calls)
  show ?case
    unfolding unpin_all.simps Let_def
    by (rule keeps_split) (use Cons.prems step in \<open>auto simp: keeps_sys calls\<close>)
qed simp

lemma keeps_unload:
  assumes "P (world p)"
  shows "keeps P (cmd_unload H pin iface purge p)"
proof -
  obtain r q where r: "sys (qdisc_detach_program H iface PROG_NAME) p = (r, q)" by fastforce
  have q: "P (world q)" using keeps_sys [of P "qdisc_detach_program H iface PROG_NAME" p] assms calls r by simp
  have rm: "P (world (snd (sys (remove_dir H pin) v)))" if "P (world v)" for v
    using that by (simp add: sys_def split_beta calls)
  show ?thesis
    unfolding cmd_unload_def Let_def r
    by (cases r; cases purge) (use q rm in \<open>auto intro!: keeps_bind keeps_unpin\<close>)
qed

lemma keeps_print_stats: "P (world p) \<Longrightarrow> keeps P (print_stats H h ls p)"
proof (induction ls arbitrary: p)
  case (Cons l ls)
  then show ?case
    by (cases l) (auto intro!: keeps_bind simp: stat_sum_def keeps_context keeps_sys calls)
qed simp

text \<open>The counters a report prints are the sums over the CPUs of what the map holds.\<close>

lemma print_stats_values:
  assumes "P (world p)" "\<And>i w. i \<in> snd ` set ls \<Longrightarrow> P w \<Longrightarrow> fst (percpu_get H h i w) = Inr (cpus i)"
    and "print_stats H h ls p = (Inr (), q)"
  shows "stdout q = stdout p @ map (\<lambda>(label, i). label @ u64_to_string (sum_list (cpus i))) ls"
  using assms
proof (induction ls arbitrary: p)
  case (Cons l ls)
  obtain label i where l: "l = (label, i)" by fastforce
  obtain w where w: "percpu_get H h i (world p) = (Inr (cpus i), w)"
    using Cons.prems(2) [OF _ Cons.prems(1), of i] l by (cases "percpu_get H h i (world p)") auto
  have "P w" using f_percpu [OF Cons.prems(1), of h i] w by simp
  moreover have "print_stats H h ls (println (label @ u64_to_string (sum_list (cpus i))) (p\<lparr>world := w\<rparr>)) = (Inr (), q)"
    using Cons.prems(3) l w by (simp add: stat_sum_def sys_def)
  ultimately show ?case
    using Cons.IH [of "println (label @ u64_to_string (sum_list (cpus i))) (p\<lparr>world := w\<rparr>)"] Cons.prems(2) l
    by (simp add: image_iff)
qed simp

lemma keeps_ban_value: "P (world p) \<Longrightarrow> keeps P (ban_value H seconds p)"
  unfolding ban_value_def Let_def
  by (auto intro!: keeps_split simp: keeps_now)

lemma keeps_report: "keeps P (report r) = keeps P r" "keeps P (report_bool r') = keeps P r'"
  by (auto simp: keeps_def report_def report_bool_def split: prod.split sum.split)

lemma guard_main_frame: "\<not> edits_bans c \<Longrightarrow> P (world p) \<Longrightarrow> keeps P (guard_main H pin c p)"
  by (cases c) (auto simp: edits_bans_def keeps_report keeps_load keeps_unload keeps_status keeps_watchdog
      keeps_health keeps_set_config intro!: keeps_bind)

end

locale host_invariant = host_frame +
  assumes f_insert: "P w \<Longrightarrow> P (snd (hash_insert H h k v w))"
    and f_remove: "P w \<Longrightarrow> P (snd (hash_remove H h k w))"
begin

lemma keeps_remove_keys: "P (world p) \<Longrightarrow> P (world (remove_keys H h ks p))"
  by (induction ks arbitrary: p) (simp_all add: sys_def split_beta f_remove)

lemma keeps_prune: "P (world p) \<Longrightarrow> keeps P (prune_expired H h p)"
  unfolding prune_expired_def Let_def
  by (intro keeps_split) (auto simp: keeps_now keeps_sys calls keeps_remove_keys split: sum.split)

lemma keeps_ban:
  assumes "P (world p)"
  shows "keeps P (cmd_ban H pin ip seconds p)"
proof -
  have ins: "keeps P (case x of (Inr _, p) \<Rightarrow> (Inr (), p)
     | (Inl first_err, p) \<Rightarrow>
         bind_ok (context_err SweepFailed (prune_expired H h p)) (\<lambda>reclaimed p.
         bind_ok (context_err (InsertBan first_err reclaimed) (sys (hash_insert H h key val) p)) (\<lambda>_ p.
         (Inr (), eprintln (''note: ban map was full; swept '' @ string_of_nat reclaimed @ '' expired entries'') p))))"
    if "keeps P x" for x :: "(string + unit) \<times> _" and h key val
    using that
    by (cases x; cases "fst x") (auto intro!: keeps_bind simp: keeps_context keeps_prune keeps_sys f_insert)
  show ?thesis
    unfolding cmd_ban_def Let_def
    by (rule keeps_bind)
      (use assms in \<open>auto intro!: keeps_bind keeps_split ins
         simp: keeps_maps keeps_ban_value keeps_sys f_insert split: option.split\<close>)
qed

lemma keeps_unban: 
  assumes "P (world p)"
  shows "keeps P (cmd_unban H pin ip p)"
proof -
  have v: "keeps P (unban_verify H h key ip b q)" if "P (world q)" for h key b q
    unfolding unban_verify_def Let_def
    by (rule keeps_split) (use that in \<open>auto simp: keeps_sys calls\<close>)
  show ?thesis
    unfolding cmd_unban_def Let_def
    by (rule keeps_bind)
      (use assms in \<open>auto intro!: keeps_bind keeps_split v
         simp: keeps_maps keeps_sys calls f_remove split: option.split sum.split\<close>)
qed

lemma keeps_check:
  assumes "P (world p)"
  shows "keeps P (cmd_check H pin ip p)"
proof -
  have rm: "P (world (snd (sys (hash_remove H h key) q)))" if "P (world q)" for h key q
    using that by (simp add: sys_def split_beta f_remove)
  have found: "keeps P (case x of Inl _ \<Rightarrow> (Inr False, println (''not banned '' @ ip) q)
      | Inr v \<Rightarrow> (let (live, p) = (if expires_mono_ns v = 0 then (True, q)
                  else (case now_mono_ns H q of (now, p) \<Rightarrow> (expires_mono_ns v > now, p)))
               in if live then (Inr True, println (''banned '' @ ip @ '' until '' @ u64_to_string (expires_epoch_s v)) p)
               else (let p = snd (sys (hash_remove H h key) p) in (Inr False, println (''not banned '' @ ip) p))))"
    if "P (world q)" for x h key q
    using that unfolding Let_def
    by (cases x) (auto intro!: keeps_split simp: keeps_now rm)
  show ?thesis
    unfolding cmd_check_def Let_def
    by (rule keeps_bind)
      (use assms in \<open>auto intro!: keeps_bind keeps_split found [unfolded Let_def]
         simp: keeps_maps keeps_sys calls split: option.split\<close>)
qed

lemma keeps_list: "P (world p) \<Longrightarrow> keeps P (cmd_list H pin p)"
  unfolding cmd_list_def Let_def
  by (intro keeps_bind keeps_split)
    (auto simp: keeps_maps keeps_prune keeps_now keeps_sys calls foldl_println)

lemma keeps_stats: "P (world p) \<Longrightarrow> keeps P (cmd_stats H pin p)"
  unfolding cmd_stats_def Let_def
  by (intro keeps_bind keeps_split)
    (auto simp: keeps_maps keeps_typed_map keeps_open_map keeps_print_stats keeps_context keeps_prune keeps_sys calls)

lemma guard_main_invariant: "P (world p) \<Longrightarrow> keeps P (guard_main H pin c p)"
  using guard_main_frame [of c p pin] keeps_ban keeps_unban keeps_check keeps_list keeps_stats
  by (cases "edits_bans c") (cases c, auto simp: edits_bans_def keeps_report)

end

end
