(* ===== verification/Guard_Props.thy ===== *)
theory Guard_Props
  imports Guard_Host Guard_Frame
begin

text \<open>
  What the commands of the guard CLI guarantee. The properties on the ban table assume the
  contract \<open>ban_table\<close> of the host; those on error paths and on the read-back of an unban hold
  on every host, whatever its calls return.
\<close>

section \<open>Bans\<close>

text \<open>C16. A ban: if the table has the address or a free slot the entry is written and nothing
  else changes; if the table is full the entries that have lapsed are swept, no active ban is
  lost, and the ban is written if that made room; otherwise the command fails, and says so.\<close>

theorem cmd_ban_outcome:
  assumes "ban_table H ok view cap" "ok (world p)"
    and "bans_map H pin p = (Inr h, p)" "parse_v6 ip = Inr (Some a)"
    and "ban_value H seconds p = (v, p1)" "now_mono_ns H p1 = (now, p2)"
  shows "\<exists>r p'. cmd_ban H pin ip seconds p = (r, p') \<and> ok (world p') \<and>
    (let T = view (world p) h; live = live_part now T; k = table_key a in
     if T k \<noteq> None \<or> card (dom T) < cap h
     then r = Inr () \<and> view (world p') = (view (world p))(h := T(k \<mapsto> v))
     else if card (dom live) < cap h
     then r = Inr () \<and> view (world p') = (view (world p))(h := live(k \<mapsto> v))
     else (\<exists>e1 n e2. r = Inl (InsertBan e1 n e2)) \<and> view (world p') = (view (world p))(h := live))"
proof (cases "view (world p) h (table_key a) \<noteq> None \<or> card (dom (view (world p) h)) < cap h")
  case True
  then show ?thesis
    using ban_table.ban_room [OF assms(1-5)] by (simp add: Let_def)
next
  case False
  then show ?thesis
    using ban_table.ban_sweep [OF assms] by (simp add: Let_def not_less del: fun_upd_apply)
qed

text \<open>On a full table of two with one entry lapsed, a permanent ban finds room.\<close>

theorem cmd_ban_outcome_witness:
  "\<exists>r p'. cmd_ban (kernel_host 2) ''/p'' ''fd00::7'' 0 demo_ps = (r, p') \<and> k_ok (world p') \<and> r = Inr ()
     \<and> k_view (world p') 0 (table_key demo_addr) = Some \<lparr>expires_mono_ns = 0, expires_epoch_s = 0\<rparr>"
proof -
  let ?v = "\<lparr>expires_mono_ns = 0, expires_epoch_s = 0\<rparr> :: ban_val"
  have v: "ban_value (kernel_host 2) 0 demo_ps = (?v, demo_ps)" by (simp add: ban_value_def)
  have none: "map_of demo_order (table_key demo_addr) = None"
    by (simp add: demo_order_def demo_addr_def octets_inj)
  have two: "card (dom (map_of demo_order)) = 2"
    by (simp add: card_dom_map_of demo_order_def octets_inj)
  have "map_of (filter (\<lambda>(k, v). ban_active v 100000000000) demo_order) = live_part 100000000000 (map_of demo_order)"
    by (rule map_of_filter_live) (simp add: demo_order_def octets_inj)
  moreover have "filter (\<lambda>(k, v). ban_active v 100000000000) demo_order = [hd demo_order]"
    by (simp add: demo_order_def demo_live_def demo_lapsed_def ban_active_def)
  ultimately have "card (dom (live_part 100000000000 (map_of demo_order))) = 1"
    by (metis card_dom_map_of_singleton)
  with two show ?thesis
    using cmd_ban_outcome [OF kernel.ban_table_axioms demo_ok demo_open demo_addr_v6 v demo_now]
    by (auto simp: Let_def k_cap_def demo_view none)
qed

lemma ban_value_spec:
  assumes "ban_value H seconds p = (v, p')" "now_mono_ns H p = (m0, p1)" "now_epoch_s H p1 = (e0, p2)"
  shows "if sint seconds \<le> 0
    then v = \<lparr>expires_mono_ns = 0, expires_epoch_s = 0\<rparr> \<and> p' = p \<and> (\<forall>t. ban_active v t)
    else expires_mono_ns v \<noteq> 0
      \<and> unat (expires_mono_ns v) = min (unat m0 + nat (sint seconds) * 1000000000) (2 ^ 64 - 1)
      \<and> unat (expires_epoch_s v) = min (unat e0 + nat (sint seconds)) (2 ^ 64 - 1)
      \<and> (\<forall>t. ban_active v t \<longleftrightarrow> unat t < min (unat m0 + nat (sint seconds) * 1000000000) (2 ^ 64 - 1))"
proof (cases "sint seconds \<le> 0")
  case True
  with assms show ?thesis by (auto simp: ban_value_def ban_active_def)
next
  case False
  then have s: "nat (sint seconds) = unat seconds" "0 < unat seconds"
    by (simp_all add: nat_sint_pos)
  let ?m = "sat_add m0 (sat_mul seconds 1000000000)"
  have v: "v = \<lparr>expires_mono_ns = ?m, expires_epoch_s = sat_add e0 seconds\<rparr>"
    using False assms by (simp add: ban_value_def)
  have m: "unat ?m = min (unat m0 + unat seconds * 1000000000) (2 ^ 64 - 1)"
    by (simp add: unat_sat_add unat_sat_mul)
  then have "?m \<noteq> 0" using s(2) by (auto simp: unat_eq_zero [symmetric])
  with v m show ?thesis
    using False s by (simp add: unat_sat_add ban_active_def word_less_nat_alt)
qed

text \<open>C22. The entry a ban writes: zero or fewer seconds is permanent; otherwise it lapses that
  long after the reading of the monotonic clock, at the latest at the end of the clock's range,
  and is never taken for a permanent one: it holds at the moment it is written unless the
  clock is at its very end.\<close>

theorem ban_value_expiry:
  assumes "ban_value H seconds p = (v, p')" "now_mono_ns H p = (m0, p1)" "now_epoch_s H p1 = (e0, p2)"
  shows "if sint seconds \<le> 0
    then v = \<lparr>expires_mono_ns = 0, expires_epoch_s = 0\<rparr> \<and> p' = p \<and> (\<forall>t. ban_active v t)
    else expires_mono_ns v \<noteq> 0
      \<and> unat (expires_mono_ns v) = min (unat m0 + nat (sint seconds) * 1000000000) (2 ^ 64 - 1)
      \<and> unat (expires_epoch_s v) = min (unat e0 + nat (sint seconds)) (2 ^ 64 - 1)
      \<and> (\<forall>t. ban_active v t \<longleftrightarrow> unat t < min (unat m0 + nat (sint seconds) * 1000000000) (2 ^ 64 - 1))"
  by (rule ban_value_spec [OF assms])

text \<open>A ban of one hour at 100 seconds after boot.\<close>

theorem ban_value_expiry_witness:
  "fst (ban_value (kernel_host 2) 3600 demo_ps) = \<lparr>expires_mono_ns = 3700000000000, expires_epoch_s = 4600\<rparr>
   \<and> expires_mono_ns (fst (ban_value (kernel_host 2) 3600 demo_ps)) \<noteq> 0"
proof -
  have e: "now_epoch_s (kernel_host 2) demo_ps = (1000, demo_ps)"
    by (simp add: now_epoch_s_def sys_def)
  have v: "ban_value (kernel_host 2) 3600 demo_ps =
      (\<lparr>expires_mono_ns = 3700000000000, expires_epoch_s = 4600\<rparr>, demo_ps)"
    by (simp add: ban_value_def demo_now e sat_add_def sat_mul_def)
  then show ?thesis
    using ban_value_expiry [OF v demo_now e] by simp
qed

text \<open>An unban always succeeds on a working host and leaves the table without the
  address and otherwise as it was.\<close>

theorem cmd_unban_clears:
  assumes "ban_table H ok view cap" "ok (world p)"
    and "bans_map H pin p = (Inr h, p)" "parse_v6 ip = Inr (Some a)"
  shows "\<exists>p'. cmd_unban H pin ip p = (Inr (), p') \<and> ok (world p')
    \<and> view (world p') = (view (world p))(h := (view (world p) h)(table_key a := None))
    \<and> stdout p' = stdout p @ [''unbanned '' @ ip]"
  by (rule ban_table.unban_spec [OF assms])

theorem cmd_unban_clears_witness:
  "\<exists>p'. cmd_unban (kernel_host 2) ''/p'' ''fd00::7'' demo_ps = (Inr (), p') \<and> k_ok (world p')
     \<and> k_view (world p') 0 (table_key demo_addr) = None"
proof -
  obtain p' where "cmd_unban (kernel_host 2) ''/p'' ''fd00::7'' demo_ps = (Inr (), p')" "k_ok (world p')"
      "k_view (world p') = (k_view (world demo_ps))(0 := (k_view (world demo_ps) 0)(table_key demo_addr := None))"
    using cmd_unban_clears [OF kernel.ban_table_axioms demo_ok demo_open demo_addr_v6, of 2] by blast
  then show ?thesis by simp
qed

text \<open>C23. On any host at all, whatever the map calls return: an unban of an IPv6 address
  reports success only after the last thing it asked the map was the address, and the map did
  not have it.\<close>

theorem cmd_unban_success_verified:
  assumes "cmd_unban H pin ip p = (Inr (), p')" "parse_v6 ip = Inr (Some a)"
  shows "\<exists>h q e. bans_map H pin p = (Inr h, q) \<and> (\<exists>w. hash_get H h (table_key a) w = (Inl e, world p'))
    \<and> (\<exists>out. stdout p' = out @ [''unbanned '' @ ip])"
proof -
  obtain r q where q: "bans_map H pin p = (r, q)" by fastforce
  with assms obtain h where h: "r = Inr h" by (cases r) (simp_all add: cmd_unban_def)
  have "unban_verify H h (table_key a) ip wb s = (Inr (), p') \<Longrightarrow>
      (\<exists>e w. hash_get H h (table_key a) w = (Inl e, world p')) \<and> (\<exists>out. stdout p' = out @ [''unbanned '' @ ip])"
    for wb s
    by (cases "hash_get H h (table_key a) (world s)")
      (auto simp: unban_verify_def sys_def is_ok_def Let_def intro!: exI [of _ "world s"]
        split: sum.splits if_splits)
  with assms q h show ?thesis
    by (auto simp: cmd_unban_def Let_def split: sum.splits if_splits prod.splits)
qed

theorem cmd_unban_success_verified_witness:
  "\<exists>w e. hash_get (kernel_host 2) 0 (table_key demo_addr) w
     = (Inl e, world (snd (cmd_unban (kernel_host 2) ''/p'' ''fd00::7'' demo_ps)))"
proof -
  obtain p' where p': "cmd_unban (kernel_host 2) ''/p'' ''fd00::7'' demo_ps = (Inr (), p')"
    using kernel.unban_spec [OF demo_ok demo_open demo_addr_v6] by blast
  with cmd_unban_success_verified [OF p' demo_addr_v6] show ?thesis
    by (simp add: demo_open) blast
qed

text \<open>C24. \<open>list\<close> prints one line for each active ban and for nothing else, and takes only
  lapsed entries out of the table.\<close>

theorem cmd_list_active:
  assumes "ban_table H ok view cap" "ok (world p)" "bans_map H pin p = (Inr h, p)"
    and "now_mono_ns H p = (now, p1)" "now_mono_ns H (snd (prune_expired H h p)) = (now', p2)" "now \<le> now'"
  shows "\<exists>es p'. cmd_list H pin p = (Inr (), p') \<and> ok (world p')
    \<and> view (world p') = (view (world p))(h := live_part now (view (world p) h))
    \<and> distinct (map fst es) \<and> map_of es = live_part now' (view (world p) h)
    \<and> stdout p' = stdout p @ map (\<lambda>(k, v). ban_line (from_octets (addr_b k), expires_epoch_s v)) es"
  by (rule ban_table.list_spec [OF assms])

theorem cmd_list_active_witness:
  "\<exists>es p'. cmd_list (kernel_host 2) ''/p'' demo_ps = (Inr (), p')
     \<and> map_of es = live_part 100000000000 (map_of demo_order)
     \<and> stdout p' = map (\<lambda>(k, v). ban_line (from_octets (addr_b k), expires_epoch_s v)) es"
proof -
  obtain n q where q: "prune_expired (kernel_host 2) 0 demo_ps = (Inr n, q)" "k_mono (world q) = (100, 0)"
    by (simp add: prune_expired_def demo_now sys_def collect_expired_Inr k_mono_remove_keys)
  have now: "now_mono_ns (kernel_host 2) (snd (prune_expired (kernel_host 2) 0 demo_ps)) = (100000000000, q)"
    using q by (simp add: now_mono_ns_def sys_def)
  show ?thesis
    using cmd_list_active [OF kernel.ban_table_axioms demo_ok demo_open demo_now now]
    by (auto simp: demo_view demo_ps_def)
qed

section \<open>Addresses the guard does not handle\<close>

text \<open>Text that is no address fails every command with a message, and an IPv4 address is
  reported and left alone; neither touches a map or any other part of the machine.\<close>

theorem guard_main_foreign_address:
  "case parse_ip ip of
     None \<Rightarrow> \<forall>c \<in> {Ban ip seconds, Unban ip, Check ip}.
       guard_main H pin c p = (FAILURE, eprintln (''error: '' @ gerror_text (InvalidAddress ip)) p)
   | Some (V4 _) \<Rightarrow>
       guard_main H pin (Ban ip seconds) p = (SUCCESS, eprintln (ipv4_note ip) p)
       \<and> guard_main H pin (Unban ip) p = (SUCCESS, eprintln (ipv4_note ip) p)
       \<and> guard_main H pin (Check ip) p = (FAILURE, println (''not banned '' @ ip) p)
   | Some (V6 a) \<Rightarrow> parse_v6 ip = Inr (Some a) \<and> length (octets a) = 16"
  using length_parse_ip [of ip]
  by (auto simp: parse_v6_def cmd_ban_def cmd_unban_def cmd_check_def report_def report_bool_def length_octets
      split: option.split ip_addr.split)

theorem guard_main_foreign_address_witness:
  "guard_main (kernel_host 2) ''/p'' (Unban ''10.0.0.1'') demo_ps
     = (SUCCESS, eprintln (ipv4_note ''10.0.0.1'') demo_ps)
   \<and> guard_main (kernel_host 2) ''/p'' (Check ''x'') demo_ps
     = (FAILURE, eprintln (''error: '' @ gerror_text (InvalidAddress ''x'')) demo_ps)"
proof -
  have "parse_ip ''10.0.0.1'' = Some (V4 [10, 0, 0, 1])" "parse_ip ''x'' = None"
    by (simp_all add: parse_eval)
  then show ?thesis
    using guard_main_foreign_address [of "''10.0.0.1''" 0 "kernel_host 2" "''/p''" demo_ps]
      guard_main_foreign_address [of "''x''" 0 "kernel_host 2" "''/p''" demo_ps]
    by simp
qed

section \<open>Heartbeat and attachment\<close>

text \<open>\<open>health\<close> is unhealthy exactly when a heartbeat was written and is older than the limit;
  a machine whose clock went back before the heartbeat counts as fresh.\<close>

theorem cmd_health_verdict:
  assumes "health_map H pin p = (Inr h, q)" "health_get H h (world q) = (r, w)"
    and "now_epoch_s H (q\<lparr>world := w\<rparr>) = (now, q')"
  shows "fst (cmd_health H pin max_age p) =
    Inr (case r of Inl _ \<Rightarrow> True
         | Inr beat \<Rightarrow> beat = 0 \<or> unat now - unat beat \<le> unat max_age)"
proof -
  have "unat (sat_sub now beat) = unat now - unat beat" for beat
    by (simp add: sat_sub_def unat_sub word_le_nat_alt)
  then show ?thesis
    using assms
    by (auto simp: cmd_health_def sys_def Let_def word_less_nat_alt not_less split: sum.splits)
qed

theorem cmd_health_verdict_witness:
  "fst (cmd_health (kernel_host 2) ''/p'' 60 (demo_ps\<lparr>world := demo_world\<lparr>k_health := 900\<rparr>\<rparr>)) = Inr False"
proof -
  let ?p = "demo_ps\<lparr>world := demo_world\<lparr>k_health := 900\<rparr>\<rparr>"
  have "health_map (kernel_host 2) ''/p'' ?p = (Inr 4, ?p)"
    by (simp add: health_map_def typed_map_def open_map_def sys_def path_join_def map_kind_def)
  moreover have "health_get (kernel_host 2) 4 (world ?p) = (Inr 900, world ?p)" by simp
  moreover have "now_epoch_s (kernel_host 2) (?p\<lparr>world := world ?p\<rparr>) = (1000, ?p)"
    by (simp add: now_epoch_s_def sys_def)
  ultimately show ?thesis
    using cmd_health_verdict [of "kernel_host 2" "''/p''" ?p 4 ?p "Inr 900" "world ?p" 1000 ?p 60] by simp
qed

text \<open>The watchdog reports success only when \<open>tc\<close> has just shown the classifier on the
  interface and the heartbeat was written after that, on any host; \<open>status\<close> writes no
  heartbeat when the classifier is missing.\<close>

theorem heartbeat_only_when_attached:
  "(cmd_watchdog H pin iface p = (Inr (), p') \<longrightarrow>
      (\<exists>q q1 q2. classifier_attached H iface q = (Inr True, q1) \<and> write_heartbeat H pin q1 = (Inr (), q2)
         \<and> world p' = world q2))
   \<and> (cmd_status H pin iface p = (Inr False, p') \<longrightarrow>
      (\<exists>q. classifier_attached H iface p = (Inr False, q) \<and> world p' = world q))"
proof (intro conjI impI)
  assume w: "cmd_watchdog H pin iface p = (Inr (), p')"
  obtain r q where r: "classifier_attached H iface p = (r, q)" by fastforce
  with w obtain att where "r = Inr att" by (cases r) (simp_all add: cmd_watchdog_def)
  with w r show "\<exists>q q1 q2. classifier_attached H iface q = (Inr True, q1)
      \<and> write_heartbeat H pin q1 = (Inr (), q2) \<and> world p' = world q2"
    by (cases att) (auto simp: cmd_watchdog_def Let_def bind_ok_Inr split: prod.splits if_splits; force)+
next
  assume "cmd_status H pin iface p = (Inr False, p')"
  then show "\<exists>q. classifier_attached H iface p = (Inr False, q) \<and> world p' = world q"
    by (auto simp: cmd_status_def bind_ok_def Let_def split: prod.splits sum.splits if_splits)
qed

lemma demo_loaded: "k_loaded ''/p'' {''fips0''} (world demo_ps)"
  by (simp add: k_loaded_def path_join_def) (simp add: demo_world_def k_load_def)

theorem heartbeat_only_when_attached_witness:
  "\<exists>q q1 q2. classifier_attached (kernel_host 2) ''fips0'' q = (Inr True, q1)
     \<and> write_heartbeat (kernel_host 2) ''/p'' q1 = (Inr (), q2)
     \<and> world (snd (cmd_watchdog (kernel_host 2) ''/p'' ''fips0'' demo_ps)) = world q2"
proof -
  have cfg: "rate_pps (g_config (k_st (world demo_ps))) = 0"
    by (simp add: k_st_def demo_world_def k_load_def)
  obtain p' where p': "cmd_watchdog (kernel_host 2) ''/p'' ''fips0'' demo_ps = (Inr (), p')"
    using kernel_load.watchdog_spec [OF demo_loaded, of "''fips0''" 2] cfg by auto
  then show ?thesis
    using heartbeat_only_when_attached [of "kernel_host 2" "''/p''" "''fips0''" demo_ps p'] by auto
qed



text \<open>\<open>load\<close> and \<open>throttle\<close> never store a rate without a burst, so the classifier always has
  room for one packet, and storing what was stored changes nothing.\<close>

theorem cmd_load_configures:
  assumes "load_host H ok st dir up cfd hfd" "ok (world p)" "iface \<in> up"
  shows "\<exists>p'. cmd_load H dir iface rate burst p = (Inr (), p') \<and> ok (world p')
    \<and> iface \<in> g_attached (st (world p')) \<and> g_beat (st (world p')) = g_beat (st (world p))
    \<and> (let c = g_config (st (world p')) in
        rate_pps c = rate \<and> (rate > 0 \<longrightarrow> burst_pkts c > 0) \<and> (burst > 0 \<longrightarrow> burst_pkts c = burst)
        \<and> effective_config (rate_pps c) (burst_pkts c) = c)"
proof -
  have "b \<noteq> 0 \<longleftrightarrow> 0 < b" for b :: u64 by (simp add: word_gt_0)
  then have laws: "rate > 0 \<longrightarrow> burst_pkts (effective_config rate burst) > 0"
      "burst > 0 \<longrightarrow> burst_pkts (effective_config rate burst) = burst"
      "effective_config rate (burst_pkts (effective_config rate burst)) = effective_config rate burst"
      "rate_pps (effective_config rate burst) = rate"
    by (auto simp: effective_config_def)
  obtain p' where "cmd_load H dir iface rate burst p = (Inr (), p')" "ok (world p')"
      "st (world p') = (st (world p))\<lparr>g_config := effective_config rate burst,
         g_attached := insert iface (g_attached (st (world p)))\<rparr>"
    using load_host.load_spec [OF assms] by blast
  with laws show ?thesis by (simp add: Let_def)
qed

theorem cmd_load_configures_witness:
  "\<exists>p'. cmd_load (kernel_host 2) ''/p'' ''fips0'' 50 0 demo_ps = (Inr (), p')
     \<and> 0 < burst_pkts (g_config (k_st (world p')))"
  using cmd_load_configures [OF kernel_load.load_host_axioms demo_loaded, of "''fips0''" 2 50 0]
  by (auto simp: Let_def)

section \<open>Unloading\<close>

text \<open>What unpinning touches: on any host, only the four listed paths, and only when they exist.\<close>

lemma unpin_all_frame:
  assumes "\<And>n w. n \<in> set names \<Longrightarrow> P w \<Longrightarrow> P (snd (remove_file H (path_join pin n) w))"
    and "\<And>path w. P w \<Longrightarrow> P (snd (path_exists H path w))" "P (world p)"
  shows "P (world (snd (unpin_all H pin names p)))"
  using assms(1,3)
proof (induction names arbitrary: p)
  case (Cons n names)
  obtain b w where e: "path_exists H (path_join pin n) (world p) = (b, w)" by fastforce
  obtain r w' where f: "remove_file H (path_join pin n) w = (r, w')" by fastforce
  have w: "P w" using assms(2) [OF Cons.prems(2), of "path_join pin n"] e by simp
  then have w': "P w'" using Cons.prems(1) [of n w] f by simp
  show ?case
    using Cons w w' e f by (cases r; cases b) (auto simp: sys_def)
qed simp

text \<open>Without \<open>--purge\<close> unloading only detaches: nothing of the machine changes after the
  detach call, so every ban survives a restart. With \<open>--purge\<close> and a detach that failed the
  command refuses and touches nothing else, on any host.\<close>

theorem cmd_unload_keeps_maps:
  assumes "qdisc_detach_program H iface PROG_NAME (world p) = (r, w)"
  shows "fst (cmd_unload H pin iface False p) = Inr () \<and> world (snd (cmd_unload H pin iface False p)) = w
    \<and> (\<forall>e. r = Inl e \<longrightarrow> fst (cmd_unload H pin iface True p) = Inl (RefusePurge iface)
        \<and> world (snd (cmd_unload H pin iface True p)) = w)"
  using assms by (cases r) (simp_all add: cmd_unload_def sys_def)

theorem cmd_unload_keeps_maps_witness:
  "fst (cmd_unload (kernel_host 2) ''/p'' ''eth9'' True demo_ps) = Inl (RefusePurge ''eth9'')
   \<and> world (snd (cmd_unload (kernel_host 2) ''/p'' ''eth9'' True demo_ps)) = demo_world"
proof -
  have "qdisc_detach_program (kernel_host 2) ''eth9'' PROG_NAME (world demo_ps) = (Inl ''ENOENT'', demo_world)"
    by (simp add: kernel_host_def) (simp add: demo_world_def k_load_def)
  from cmd_unload_keeps_maps [OF this] show ?thesis by simp
qed

lemma path_join_inj:
  "\<not> starts_with m ''/'' \<Longrightarrow> \<not> starts_with n ''/'' \<Longrightarrow> path_join d m = path_join d n \<longleftrightarrow> m = n"
  by (auto simp: path_join_def)

text \<open>C39. A purge unpins four of the five maps: on any host whose file calls touch nothing else,
  the pin of \<open>shield_health\<close>, and with it the last heartbeat, is still there afterwards.\<close>

theorem purge_keeps_health_pin:
  assumes "\<And>path w. pins w - {path} \<subseteq> pins (snd (remove_file H path w))"
    and "\<And>path w. pins w \<subseteq> pins (snd (path_exists H path w))"
    and "\<And>w. pins w \<subseteq> pins (snd (qdisc_detach_program H iface PROG_NAME w))"
    and "\<And>w. pins w \<subseteq> pins (snd (remove_dir H pin w))"
    and "path_join pin ''shield_health'' \<in> pins (world p)"
  shows "path_join pin ''shield_health'' \<in> pins (world (snd (cmd_unload H pin iface True p)))"
proof -
  let ?P = "\<lambda>w. path_join pin ''shield_health'' \<in> pins w"
  obtain r w where d: "qdisc_detach_program H iface PROG_NAME (world p) = (r, w)" by fastforce
  have w: "?P w" using assms(3) [of "world p"] assms(5) d by auto
  have un: "?P (world (snd (unpin_all H pin PURGED_MAPS q)))" if "?P (world q)" for q
  proof (rule unpin_all_frame [where P = ?P])
    fix n v
    assume "n \<in> set PURGED_MAPS" "?P v"
    moreover from this(1) have "path_join pin n \<noteq> path_join pin ''shield_health''"
      by (auto simp: PURGED_MAPS_def path_join_inj)
    ultimately show "?P (snd (remove_file H (path_join pin n) v))"
      using assms(1) [of v "path_join pin n"] by auto
  qed (use assms(2) that in auto)
  show ?thesis
  proof (cases r)
    case (Inl e)
    with d w show ?thesis by (simp add: cmd_unload_def sys_def)
  next
    case (Inr u)
    obtain r' q where q: "unpin_all H pin PURGED_MAPS (println (''detached from '' @ iface) (p\<lparr>world := w\<rparr>)) = (r', q)"
      by fastforce
    then have "?P (world q)" using un [of "println (''detached from '' @ iface) (p\<lparr>world := w\<rparr>)"] w by simp
    then have "?P (snd (remove_dir H pin (world q)))" using assms(4) by auto
    with Inr d q \<open>?P (world q)\<close> show ?thesis
      by (cases r') (simp_all add: cmd_unload_def sys_def split_beta)
  qed
qed

theorem purge_keeps_health_pin_witness:
  "''/p/shield_health'' \<in> fst ` set (k_pins (world (snd (cmd_unload (kernel_host 2) ''/p'' ''fips0'' True demo_ps))))"
proof -
  have "path_join ''/p'' ''shield_health'' \<in> fst ` set (k_pins (world (snd (cmd_unload (kernel_host 2) ''/p'' ''fips0'' True demo_ps))))"
    by (rule purge_keeps_health_pin [where pins = "\<lambda>w. fst ` set (k_pins w)"])
      (auto simp: kernel_host_def del_alist_def path_join_def)
  then show ?thesis by (simp add: path_join_def)
qed

section \<open>Counters\<close>

lemma sys_out [simp]: "stdout (snd (sys f p)) = stdout p" "stderr (snd (sys f p)) = stderr p"
  by (simp_all add: sys_def split_beta)

lemma sys_outD: "sys f p = (r, q) \<Longrightarrow> stdout q = stdout p"
  by (metis snd_conv sys_out(1))

lemma context_sysD: "context_err g (sys f p) = (Inr r, q) \<Longrightarrow> stdout q = stdout p"
  by (cases "sys f p") (auto simp: context_err_def dest: sys_outD split: sum.splits)

lemma typed_map_out: "typed_map H ty pin name p = (Inr h, q) \<Longrightarrow> stdout q = stdout p"
  by (auto simp: typed_map_def open_map_def bind_ok_Inr Let_def dest!: context_sysD)

lemma remove_keys_out: "stdout (remove_keys H h ks p) = stdout p"
  by (induction ks arbitrary: p) simp_all

lemma prune_expired_out: "prune_expired H h p = (r, q) \<Longrightarrow> stdout q = stdout p"
  by (auto simp: prune_expired_def now_mono_ns_def remove_keys_out dest!: sys_outD
      split: prod.splits sum.splits)

lemma cmd_stats_lines:
  assumes "host_frame H P" "P (world p)" "\<And>h i w. i < ST_COUNT \<Longrightarrow> P w \<Longrightarrow> fst (percpu_get H h i w) = Inr (cpus i)"
    and "cmd_stats H pin p = (Inr (), p')"
  shows "\<exists>cfg active capacity stale.
    stdout p' = stdout p @ map (\<lambda>(label, i). label @ u64_to_string (sum_list (cpus i))) STAT_LINES
        @ [throttle_stat_line cfg, bans_stat_line active capacity stale]"
proof -
  obtain sh p1 p2 where 1: "typed_map H PerCpuArrayMap pin ''shield_stats'' p = (Inr sh, p1)"
      "print_stats H sh STAT_LINES p1 = (Inr (), p2)"
      and rest: "bind_ok (config_map H pin p2) (\<lambda>ch p.
     bind_ok (context_err MapError (sys (config_get H ch) p)) (\<lambda>cfg p.
     (let p = println (throttle_stat_line cfg) p in
      bind_ok (open_map H pin ''shield_bans'' p) (\<lambda>md p.
      (let (info, p) = sys (map_max_entries H md) p;
           capacity = (case info of Inl _ \<Rightarrow> 0 | Inr n \<Rightarrow> unat n)
       in
       bind_ok (context_err MapError (sys (map_try_from H HashMap md) p)) (\<lambda>_ p.
       (let (es, p) = sys (hash_iter H md) p; tot = length es in
        bind_ok (prune_expired H md p) (\<lambda>stale p.
        (Inr (), println (bans_stat_line (tot - stale) capacity stale) p))))))))) = (Inr (), p')"
    using assms(4) by (auto simp: cmd_stats_def bind_ok_Inr)
  have slots: "i \<in> snd ` set STAT_LINES \<Longrightarrow> i < ST_COUNT" for i
    by (auto simp: STAT_LINES_def ST_defs)
  have "P (world p1)"
    using host_frame.keeps_typed_map [OF assms(1,2), of PerCpuArrayMap pin "''shield_stats''"] 1(1) by simp
  then have ns: "stdout p2 = stdout p @ map (\<lambda>(label, i). label @ u64_to_string (sum_list (cpus i))) STAT_LINES"
    using host_frame.print_stats_values [OF assms(1) _ _ 1(2), of cpus] assms(3) typed_map_out [OF 1(1)]
    by (simp add: slots)
  have "\<exists>cfg a c s. stdout p' = stdout p2 @ [throttle_stat_line cfg, bans_stat_line a c s]"
    using rest
    by (auto simp: bind_ok_Inr config_map_def open_map_def Let_def split_beta
        dest!: typed_map_out context_sysD prune_expired_out) blast+
  then obtain cfg a c s where "stdout p' = stdout p2 @ [throttle_stat_line cfg, bans_stat_line a c s]"
    by blast
  with ns show ?thesis
    by (intro exI [of _ cfg] exI [of _ a] exI [of _ c] exI [of _ s]) simp
qed

lemma demo_stats: "\<exists>p'. cmd_stats (kernel_host 2) ''/p'' demo_ps = (Inr (), p')"
proof -
  have st: "shield_stats (k_maps demo_world) = (\<lambda>i. if i < ST_COUNT then Some 0 else None)"
      "shield_config (k_maps demo_world) = Some \<lparr>rate_pps = 0, burst_pkts = 0\<rparr>"
    by (simp_all add: demo_world_def k_load_def)
  have pc: "percpu_get (kernel_host 2) h i w =
      (case shield_stats (k_maps w) i of None \<Rightarrow> Inl ''ENOENT'' | Some v \<Rightarrow> Inr [v], w)"
      "map_max_entries (kernel_host 2) h w = (Inr (of_nat (k_cap 2 h)), w)" for h i w
    by (simp_all add: kernel_host_def)
  show ?thesis
    by (simp add: cmd_stats_def typed_map_def open_map_def config_map_def sys_def path_join_def map_kind_def
        STAT_LINES_def ST_defs stat_sum_def st pc prune_expired_def now_mono_ns_def collect_expired_Inr split_beta)
qed

end
