(* ===== verification/System.thy ===== *)
theory System
  imports Guard_Host Guard_Frame
begin

text \<open>
  The guard in operation: commands of the CLI, packets that reach the classifier and the
  passing of time, in any order, on one machine. The invariant of the machine and the life of
  a ban are proved over every such run.
\<close>

section \<open>Runs\<close>

definition k_now :: "kworld \<Rightarrow> u64" where
  "k_now w = fst (k_mono w) * 1000000000 + snd (k_mono w)"

datatype 'p event = Run cmd exit_code | Packet 'p tc_act | Tick

inductive sys_step :: "nat \<Rightarrow> string \<Rightarrow> 'p kern \<Rightarrow> kworld \<Rightarrow> 'p event \<Rightarrow> kworld \<Rightarrow> bool"
  for c :: nat and pin :: string and K :: "'p kern" where
  command: "guard_main (kernel_host c) pin cmd \<lparr>world = w, stdout = [], stderr = []\<rparr> = (code, p) \<Longrightarrow>
    sys_step c pin K w (Run cmd code) (world p)"
| packet: "shield_guard K skb (k_now w) (k_maps w) = (verdict, m) \<Longrightarrow>
    sys_step c pin K w (Packet skb verdict) (w\<lparr>k_maps := m\<rparr>)"
| tick: "k_now w \<le> k_now (w\<lparr>k_mono := t\<rparr>) \<Longrightarrow>
    sys_step c pin K w Tick (w\<lparr>k_mono := t, k_epoch := s\<rparr>)"

inductive sys_run :: "nat \<Rightarrow> string \<Rightarrow> 'p kern \<Rightarrow> kworld \<Rightarrow> 'p event list \<Rightarrow> kworld \<Rightarrow> bool"
  for c :: nat and pin :: string and K :: "'p kern" and w :: kworld where
  start: "sys_run c pin K w [] w"
| next_step: "sys_run c pin K w es w1 \<Longrightarrow> sys_step c pin K w1 e w2 \<Longrightarrow> sys_run c pin K w (es @ [e]) w2"

inductive_cases sys_stepE: "sys_step c pin K w e w'"
inductive_simps sys_run_Nil [simp]: "sys_run c pin K w [] w'"

section \<open>The invariant of the machine\<close>

definition k_inv :: "nat \<Rightarrow> kworld \<Rightarrow> bool" where
  "k_inv c w \<longleftrightarrow> k_ok w \<and> length (k_order w) \<le> c"

lemma length_upd_alist: "length (upd_alist k v es) = (if k \<in> fst ` set es then length es else Suc (length es))"
  by (induction k v es rule: upd_alist.induct) auto

lemma length_del_alist: "length (del_alist k es) \<le> length es"
  by (simp add: del_alist_def)

lemma k_inv_insert: "k_inv c w \<Longrightarrow> k_inv c (snd (k_insert c h k v w))"
  by (auto simp: k_inv_def k_insert_def k_ok_def set_bans_def distinct_upd_alist length_upd_alist image_iff
      dest: map_of_SomeD)

lemma k_inv_remove: "k_inv c w \<Longrightarrow> k_inv c (snd (k_remove h k w))"
  using length_del_alist [of k "k_order w"]
  by (auto simp: k_inv_def k_remove_def k_ok_def set_bans_def distinct_del_alist)

text \<open>No other call touches the ban table or the clock.\<close>

lemma kernel_calls:
  assumes "\<And>w w'. P w \<Longrightarrow> k_order w' = k_order w \<Longrightarrow> shield_bans (k_maps w') = shield_bans (k_maps w) \<Longrightarrow>
      k_mono w' = k_mono w \<Longrightarrow> P w'"
  shows "host_frame (kernel_host c) P"
proof (unfold_locales, goal_cases)
  case (5 w h k)
  then show ?case by (simp add: k_get_def split: option.split)
qed (auto simp: kernel_host_def k_tc_def Let_def k_load_def intro: assms split: option.split)

interpretation kernel_inv: host_invariant "kernel_host c" "k_inv c" for c
proof -
  have "host_frame (kernel_host c) (k_inv c)"
    by (rule kernel_calls) (simp add: k_inv_def k_ok_def)
  then show "host_invariant (kernel_host c) (k_inv c)"
    by (rule host_invariant.intro) (unfold_locales, simp_all add: k_inv_insert k_inv_remove)
qed

text \<open>The machine at time \<open>t\<close> with an entry \<open>v\<close> for \<open>k\<close>.\<close>

definition holds_entry :: "nat \<Rightarrow> u64 \<Rightarrow> addr6 \<Rightarrow> ban_val \<Rightarrow> kworld \<Rightarrow> bool" where
  "holds_entry c t k v = (\<lambda>w. k_inv c w \<and> k_now w = t \<and> shield_bans (k_maps w) k = Some v)"

interpretation kernel_entry: host_frame "kernel_host c" "holds_entry c t k v" for c t k v
  by (rule kernel_calls) (auto simp: holds_entry_def k_inv_def k_ok_def k_now_def)

lemma sys_step_inv: "sys_step c pin K w e w' \<Longrightarrow> k_inv c w \<Longrightarrow> k_inv c w'"
proof (induction rule: sys_step.induct)
  case (command cmd w code p)
  then show ?case
    using kernel_inv.guard_main_invariant [of c "\<lparr>world = w, stdout = [], stderr = []\<rparr>" pin cmd]
    by (simp add: keeps_def)
next
  case (packet skb w verdict m)
  then show ?case
    using shield_guard_bans [of K skb "k_now w" "k_maps w"] by (simp add: k_inv_def k_ok_def)
next
  case (tick w t s)
  then show ?case by (simp add: k_inv_def k_ok_def)
qed

section \<open>The life of a ban\<close>

text \<open>
  The guard's own commands leave an active entry as it is, except a ban or an unban of that
  very address.
\<close>

lemma kernel_now: "now_mono_ns (kernel_host c) p = (k_now (world p), p)"
  by (simp add: now_mono_ns_def sys_def k_now_def split_beta)

lemma kernel_open: "\<exists>r. bans_map (kernel_host c) pin p = (r, p)"
  by (cases "map_of (k_pins (world p)) (path_join pin ''shield_bans'')")
    (auto simp: bans_map_def typed_map_def open_map_def sys_def)

definition names_addr :: "ipv6addr \<Rightarrow> cmd \<Rightarrow> bool" where
  "names_addr a c = (case c of Ban ip _ \<Rightarrow> parse_v6 ip = Inr (Some a) | Unban ip \<Rightarrow> parse_v6 ip = Inr (Some a) | _ \<Rightarrow> False)"

lemma view_bans: "shield_bans (k_maps w) = k_view w 0"
  by (simp add: k_view_def)

lemma live_part_keeps:
  "V' = V(h := live_part t (V h)) \<Longrightarrow> V 0 k = Some v \<Longrightarrow> ban_active v t \<Longrightarrow> V' (0::nat) k = Some v"
  by (cases "h = 0") simp_all

lemma prune_keeps_entry:
  assumes "k_ok (world p)" "k_view (world p) 0 k = Some v" "ban_active v (k_now (world p))"
  shows "k_view (world (snd (prune_expired (kernel_host c) h p))) 0 k = Some v"
proof -
  obtain n p' where "prune_expired (kernel_host c) h p = (Inr n, p')"
      "k_view (world p') = (k_view (world p))(h := live_part (k_now (world p)) (k_view (world p) h))"
    using kernel.prune_spec [OF assms(1) kernel_now] by blast
  with live_part_keeps [OF this(2) assms(2,3)] show ?thesis by simp
qed

lemma ban_keeps_entry:
  assumes "k_ok (world p)" "k_view (world p) 0 (table_key a) = Some v" "ban_active v (k_now (world p))"
    and "parse_v6 ip \<noteq> Inr (Some a)"
  shows "k_view (world (snd (cmd_ban (kernel_host c) pin ip s p))) 0 (table_key a) = Some v"
proof -
  obtain r where r: "bans_map (kernel_host c) pin p = (r, p)" using kernel_open by blast
  consider e where "parse_v6 ip = Inl e" | "parse_v6 ip = Inr None"
    | b e where "parse_v6 ip = Inr (Some b)" "r = Inl e" | b h where "parse_v6 ip = Inr (Some b)" "r = Inr h"
    by (metis option.exhaust sum.exhaust)
  then show ?thesis
  proof cases
    case (4 b h)
    then have ne: "table_key b \<noteq> table_key a" using assms(4) by (auto simp: octets_inj)
    have m: "bans_map (kernel_host c) pin p = (Inr h, p)" using r 4(2) by simp
    obtain u q where u: "ban_value (kernel_host c) s p = (u, q)" by fastforce
    let ?T = "k_view (world p) h" and ?t = "k_now (world q)"
    have "k_now (world q) = k_now (world p)"
      using u
      by (simp add: ban_value_def kernel_now now_epoch_s_def sys_def split: if_splits)
    show ?thesis
    proof (cases "?T (table_key b) \<noteq> None \<or> card (dom ?T) < k_cap c h")
      case True
      obtain p' where "cmd_ban (kernel_host c) pin ip s p = (Inr (), p')"
          "k_view (world p') = (k_view (world p))(h := ?T(table_key b \<mapsto> u))"
        using kernel.ban_room [OF assms(1) m 4(1) u True] by blast
      with ne assms(2) show ?thesis by (cases "h = 0") simp_all
    next
      case False
      then have full: "?T (table_key b) = None" "k_cap c h \<le> card (dom ?T)" by auto
      obtain r' p' where p': "cmd_ban (kernel_host c) pin ip s p = (r', p')"
          "k_view (world p') = (k_view (world p))(h := (live_part ?t ?T)(table_key b \<mapsto> u))
           \<or> k_view (world p') = (k_view (world p))(h := live_part ?t ?T)"
        using kernel.ban_sweep [OF assms(1) m 4(1) u kernel_now full] by (metis (no_types, lifting))
      then show ?thesis
        using ne assms(2,3) \<open>k_now (world q) = k_now (world p)\<close> by (cases "h = 0") auto
    qed
  qed (use assms(2) r in \<open>simp_all add: cmd_ban_def\<close>)
qed

lemma unban_keeps_entry:
  assumes "k_ok (world p)" "k_view (world p) 0 (table_key a) = Some v" "parse_v6 ip \<noteq> Inr (Some a)"
  shows "k_view (world (snd (cmd_unban (kernel_host c) pin ip p))) 0 (table_key a) = Some v"
proof -
  obtain r where r: "bans_map (kernel_host c) pin p = (r, p)" using kernel_open by blast
  consider e where "parse_v6 ip = Inl e" | "parse_v6 ip = Inr None"
    | b e where "parse_v6 ip = Inr (Some b)" "r = Inl e" | b h where "parse_v6 ip = Inr (Some b)" "r = Inr h"
    by (metis option.exhaust sum.exhaust)
  then show ?thesis
  proof cases
    case (4 b h)
    then have ne: "table_key b \<noteq> table_key a" using assms(3) by (auto simp: octets_inj)
    have m: "bans_map (kernel_host c) pin p = (Inr h, p)" using r 4(2) by simp
    obtain p' where "cmd_unban (kernel_host c) pin ip p = (Inr (), p')"
        "k_view (world p') = (k_view (world p))(h := (k_view (world p) h)(table_key b := None))"
      using kernel.unban_spec [OF assms(1) m 4(1)] by blast
    with ne assms(2) show ?thesis by (cases "h = 0") simp_all
  qed (use assms(2) r in \<open>simp_all add: cmd_unban_def\<close>)
qed

lemma check_keeps_entry:
  assumes "k_ok (world p)" "k_view (world p) 0 k = Some v" "ban_active v (k_now (world p))"
  shows "k_view (world (snd (cmd_check (kernel_host c) pin ip p))) 0 k = Some v"
proof -
  obtain r where r: "bans_map (kernel_host c) pin p = (r, p)" using kernel_open by blast
  consider e where "parse_v6 ip = Inl e" | "parse_v6 ip = Inr None"
    | b e where "parse_v6 ip = Inr (Some b)" "r = Inl e" | b h where "parse_v6 ip = Inr (Some b)" "r = Inr h"
    by (metis option.exhaust sum.exhaust)
  then show ?thesis
  proof cases
    case (4 b h)
    have m: "bans_map (kernel_host c) pin p = (Inr h, p)" using r 4(2) by simp
    obtain x p' where p': "cmd_check (kernel_host c) pin ip p = (x, p')"
        "live_part (k_now (world p)) (k_view (world p') h) = live_part (k_now (world p)) (k_view (world p) h)"
        "\<forall>g. g \<noteq> h \<longrightarrow> k_view (world p') g = k_view (world p) g"
      using kernel.check_spec [OF assms(1) m 4(1) kernel_now] by blast
    show ?thesis
    proof (cases "h = 0")
      case True
      have "live_part (k_now (world p)) (k_view (world p') h) k = Some v"
        using p'(2) assms(2,3) True by simp
      with p'(1) True show ?thesis by simp
    qed (use p' assms(2) in simp)
  qed (use assms(2) r in \<open>simp_all add: cmd_check_def\<close>)
qed

lemma list_keeps_entry:
  assumes "k_ok (world p)" "k_view (world p) 0 k = Some v" "ban_active v (k_now (world p))"
  shows "k_view (world (snd (cmd_list (kernel_host c) pin p))) 0 k = Some v"
proof -
  obtain r where r: "bans_map (kernel_host c) pin p = (r, p)" using kernel_open by blast
  show ?thesis
  proof (cases r)
    case (Inr h)
    have "k_view (world (snd (prune_expired (kernel_host c) h p))) 0 k = Some v"
      by (rule prune_keeps_entry [OF assms])
    then show ?thesis
      using r Inr
      by (auto simp: cmd_list_def kernel_now sys_def bind_ok_def foldl_println split: prod.splits sum.splits)
  qed (use r assms(2) in \<open>simp add: cmd_list_def\<close>)
qed

lemma prune_holds_entry:
  assumes "holds_entry c t k v (world p)" "ban_active v t"
  shows "keeps (holds_entry c t k v) (prune_expired (kernel_host c) h p)"
proof -
  have "k_inv c (world (snd (prune_expired (kernel_host c) h p)))"
    using kernel_inv.keeps_prune [of c p h] assms(1) by (simp add: keeps_def holds_entry_def)
  moreover have "k_now (world (snd (prune_expired (kernel_host c) h p))) = k_now (world p)"
    by (auto simp: prune_expired_def kernel_now sys_def k_now_def k_mono_remove_keys split: sum.split)
  ultimately show ?thesis
    using prune_keeps_entry [of p k v c h] assms by (simp add: holds_entry_def keeps_def k_inv_def view_bans)
qed

lemma stats_keeps_entry:
  assumes "holds_entry c t k v (world p)" "ban_active v t"
  shows "keeps (holds_entry c t k v) (cmd_stats (kernel_host c) pin p)"
proof -
  note f = kernel_entry.keeps_typed_map kernel_entry.keeps_maps kernel_entry.keeps_open_map
    kernel_entry.keeps_print_stats kernel_entry.calls
  show ?thesis
    unfolding cmd_stats_def Let_def
    by (intro keeps_bind keeps_split)
      (use assms in \<open>auto simp: keeps_context prune_holds_entry keeps_sys f simp del: kernel_host_sel\<close>)
qed

lemma command_keeps_entry:
  assumes "holds_entry c t (table_key a) v (world p)" "ban_active v t" "\<not> names_addr a cmd"
  shows "k_view (world (snd (guard_main (kernel_host c) pin cmd p))) 0 (table_key a) = Some v"
proof (cases "edits_bans cmd")
  case False
  then have "keeps (holds_entry c t (table_key a) v) (guard_main (kernel_host c) pin cmd p)"
    using kernel_entry.guard_main_frame assms(1) by blast
  then show ?thesis by (simp add: keeps_def holds_entry_def view_bans)
next
  case True
  have ok: "k_ok (world p)" "k_view (world p) 0 (table_key a) = Some v" "ban_active v (k_now (world p))"
    using assms(1,2) by (simp_all add: holds_entry_def k_inv_def view_bans)
  have rep: "world (snd (report r)) = world (snd r)" "world (snd (report_bool b)) = world (snd b)" for r b
    by (auto simp: report_def report_bool_def split: prod.split sum.split)
  show ?thesis
  proof (cases cmd)
    case (Ban ip s)
    then show ?thesis
      using ban_keeps_entry [OF ok] assms(3) by (simp add: names_addr_def rep)
  next
    case (Unban ip)
    then show ?thesis
      using unban_keeps_entry [OF ok(1,2)] assms(3) by (simp add: names_addr_def rep)
  next
    case Stats
    then show ?thesis
      using stats_keeps_entry [OF assms(1,2), of pin] by (simp add: rep keeps_def holds_entry_def view_bans)
  qed (use True check_keeps_entry [OF ok] list_keeps_entry [OF ok] in \<open>simp_all add: edits_bans_def rep\<close>)
qed

lemma command_now: "k_now (world (snd (guard_main (kernel_host c) pin cmd p))) = k_now (world p)"
proof -
  have "host_frame (kernel_host c) (\<lambda>w. k_now w = k_now (world p))"
    by (rule kernel_calls) (simp add: k_now_def)
  then have "host_invariant (kernel_host c) (\<lambda>w. k_now w = k_now (world p))"
    by (rule host_invariant.intro)
      (unfold_locales, simp_all add: k_now_def k_insert_def k_remove_def set_bans_def)
  from host_invariant.guard_main_invariant [OF this, of p pin cmd] show ?thesis by (simp add: keeps_def)
qed

lemma run_keeps_entry:
  assumes "sys_run c pin K w es w'" "k_inv c w" "shield_bans (k_maps w) (table_key a) = Some v"
    and "ban_active v (k_now w')" "\<And>cmd code. Run cmd code \<in> set es \<Longrightarrow> \<not> names_addr a cmd"
  shows "k_inv c w' \<and> k_now w \<le> k_now w' \<and> shield_bans (k_maps w') (table_key a) = Some v"
  using assms
proof (induction rule: sys_run.induct)
  case (next_step es w1 e w2)
  have mono: "k_now w1 \<le> k_now w2"
    using next_step.hyps(2)
  proof (cases rule: sys_step.cases)
    case (command cmd code p)
    then show ?thesis
      using command_now [of c pin cmd "\<lparr>world = w1, stdout = [], stderr = []\<rparr>"] by simp
  qed (simp_all add: k_now_def)
  have act: "ban_active v (k_now w1)" using ban_active_earlier [OF mono] next_step.prems(3) .
  have IH: "k_inv c w1" "k_now w \<le> k_now w1" "shield_bans (k_maps w1) (table_key a) = Some v"
    using next_step.IH next_step.prems act by auto
  have "shield_bans (k_maps w2) (table_key a) = Some v"
    using next_step.hyps(2)
  proof (cases rule: sys_step.cases)
    case (command cmd code p)
    have "holds_entry c (k_now w1) (table_key a) v (world \<lparr>world = w1, stdout = [], stderr = []\<rparr>)"
      using IH by (simp add: holds_entry_def)
    from command_keeps_entry [OF this act, of cmd pin] next_step.prems(4) [of cmd code] command
    show ?thesis by (simp add: view_bans)
  next
    case (packet skb verdict m)
    then show ?thesis
      using IH(3) shield_guard_bans [of K skb "k_now w1" "k_maps w1"] by simp
  next
    case (tick t s)
    then show ?thesis using IH(3) by simp
  qed
  then show ?case
    using sys_step_inv [OF next_step.hyps(2) IH(1)] IH(2) mono by (meson order_trans)
qed simp

end
