(* ===== verification/Guard_Contract.thy ===== *)
theory Guard_Contract
  imports System Guard_Props Ban_Contract
begin

text \<open>
  The eBPF guard as a backend of the contract: the running machine of \<open>System\<close> (commands, packets,
  time) simulates the abstract bans. The abstraction reads the ban map at the machine's clock;
  lapsed entries, sweeps, capacity and the throttle do not show in it.
\<close>

section \<open>The abstraction\<close>

definition expiry_of :: "ban_val \<Rightarrow> expiry" where
  "expiry_of v = (if expires_mono_ns v = 0 then Permanent else Until (unat (expires_mono_ns v)))"

definition guard_due :: "nat \<Rightarrow> int \<Rightarrow> expiry" where
  "guard_due t s = (if s \<le> 0 then Permanent else Until (min (t + nat s * 1000000000) (2 ^ 64 - 1)))"

definition guard_abs :: "kworld \<Rightarrow> addr6 contract" where
  "guard_abs w = \<lparr>clock = unat (k_now w), banned = (\<lambda>k. map_option expiry_of (live_part (k_now w) (k_view w 0) k))\<rparr>"

text \<open>How an event of the machine reads in the contract. A failing \<open>check\<close> says either that the
  node is not banned or that the map could not be opened: the exit code is the same.\<close>

definition on_node :: "string \<Rightarrow> (addr6 \<Rightarrow> bool) \<Rightarrow> bool \<Rightarrow> bool" where
  "on_node ip named other = (case parse_v6 ip of Inr (Some a) \<Rightarrow> named (table_key a) | _ \<Rightarrow> other)"

fun guard_reads :: "'p kern \<Rightarrow> 'p event \<Rightarrow> addr6 verb \<Rightarrow> bool" where
  "guard_reads K (Run (Ban ip s) code) v =
     on_node ip (\<lambda>k. v = (if code = SUCCESS then Banned k (sint s) else Silent)) (v = Silent)"
| "guard_reads K (Run (Unban ip) code) v =
     on_node ip (\<lambda>k. v = (if code = SUCCESS then Unbanned k else Silent)) (v = Silent)"
| "guard_reads K (Run (Check ip) code) v =
     on_node ip (\<lambda>k. v = Answer k (code = SUCCESS) \<or> code = FAILURE \<and> v = Silent) (v = Silent)"
| "guard_reads K (Run _ code) v = (v = Silent)"
| "guard_reads K (Packet skb verdict) v =
     (case packet_source K skb of
        None \<Rightarrow> v = Silent
      | Some k \<Rightarrow> v = Enforced k \<and> verdict = TC_ACT_SHOT \<or> v = Spared k)"
| "guard_reads K Tick v = (v = Elapse)"

text \<open>The pin of the ban map, when there is one, is the ban map.\<close>

definition pins_ok :: "string \<Rightarrow> kworld \<Rightarrow> bool" where
  "pins_ok pin w \<longleftrightarrow> map_of (k_pins w) (path_join pin ''shield_bans'') \<in> {None, Some 0}"

definition guard_inv :: "nat \<Rightarrow> string \<Rightarrow> kworld \<Rightarrow> bool" where
  "guard_inv c pin w \<longleftrightarrow> k_inv c w \<and> pins_ok pin w"

lemma in_force_expiry: "in_force (expiry_of v) (unat t) = ban_active v t"
  by (simp add: expiry_of_def ban_active_def word_less_nat_alt)

lemma clock_guard_abs [simp]: "clock (guard_abs w) = unat (k_now w)"
  by (simp add: guard_abs_def)

lemma banned_guard_abs: "banned (guard_abs w) k = map_option expiry_of (live_part (k_now w) (k_view w 0) k)"
  by (simp add: guard_abs_def)

lemma guard_abs_cong:
  "k_now w' = k_now w \<Longrightarrow> live_part (k_now w) (k_view w' 0) = live_part (k_now w) (k_view w 0) \<Longrightarrow>
     guard_abs w' = guard_abs w"
  by (simp add: guard_abs_def)

lemma in_force_live:
  "in_force_part (unat t) (\<lambda>k. map_option expiry_of (T k)) k = map_option expiry_of (live_part t T k)"
  by (cases "T k") (auto simp: in_force_part_def live_part_def in_force_expiry)

section \<open>The pins\<close>

lemma basename_path_join:
  assumes "CHR ''/'' \<notin> set n"
  shows "takeWhile (\<lambda>ch. ch \<noteq> CHR ''/'') (rev (path_join d n)) = rev n"
proof -
  have all: "takeWhile (\<lambda>ch. ch \<noteq> CHR ''/'') (rev n) = rev n"
    using assms by (subst takeWhile_eq_all_conv) auto
  have rel: "\<not> starts_with n ''/''" using assms by (cases n) auto
  have slash: "takeWhile (\<lambda>ch. ch \<noteq> CHR ''/'') (rev n @ CHR ''/'' # y) = rev n" for y
    using assms by (subst takeWhile_append2) auto
  show ?thesis
  proof (cases "d \<noteq> [] \<and> last d = CHR ''/''")
    case False
    then show ?thesis using rel all slash by (cases "d = []") (simp_all add: path_join_def)
  next
    case True
    then obtain y where "rev d = CHR ''/'' # y" by (cases d rule: rev_cases) auto
    with rel slash True show ?thesis by (simp add: path_join_def)
  qed
qed

lemma path_join_name:
  "path_join d n = path_join d' n' \<Longrightarrow> CHR ''/'' \<notin> set n \<Longrightarrow> CHR ''/'' \<notin> set n' \<Longrightarrow> n = n'"
  by (metis basename_path_join rev_rev_ident)

lemma no_slash: "CHR ''/'' \<notin> set ''shield_bans''"
  by simp

lemma pins_ok_load: "pins_ok pin w \<Longrightarrow> pins_ok pin (k_load d w)"
proof -
  let ?q = "path_join pin ''shield_bans''" and ?new = "zip (map (path_join d) map_names) [0..<5]"
  have *: "map_of (filter f ?new) ?q = Some h \<Longrightarrow> h = 0" for f h
  proof -
    assume "map_of (filter f ?new) ?q = Some h"
    then have "(?q, h) \<in> set ?new" by (auto dest: map_of_SomeD)
    then obtain n where n: "?q = path_join d n" "(n, h) \<in> set (zip map_names [0..<5])"
      by (auto simp: zip_map1)
    moreover have "CHR ''/'' \<notin> set n" using n(2) by (auto simp: map_names_def dest!: set_zip_leftD)
    ultimately have "n = ''shield_bans''" by (metis path_join_name no_slash)
    with n(2) show "h = 0" by (simp add: map_names_def upt_rec)
  qed
  have "map_of (filter f ?new) ?q \<in> {None, Some 0}" for f
    using * [of f] by (cases "map_of (filter f ?new) ?q") auto
  then show "pins_ok pin w \<Longrightarrow> pins_ok pin (k_load d w)"
    by (auto simp: pins_ok_def k_load_def map_add_def split: option.split)
qed

lemma pins_ok_unpin: "pins_ok pin w \<Longrightarrow> pins_ok pin (w\<lparr>k_pins := del_alist path (k_pins w)\<rparr>)"
  by (simp add: pins_ok_def map_of_del_alist)

interpretation kernel_pins: host_invariant "kernel_host c" "pins_ok pin" for c pin
proof (unfold_locales, goal_cases)
  case (5 w h k)
  then show ?case by (simp add: k_get_def split: option.split)
next
  case (16 w path)
  then show ?case by (simp add: kernel_host_def pins_ok_unpin)
next
  case (18 w d)
  then show ?case by (simp add: kernel_host_def pins_ok_load)
next
  case (26 w h k v)
  then show ?case by (simp add: k_insert_def set_bans_def pins_ok_def)
next
  case (27 w h k)
  then show ?case by (simp add: k_remove_def set_bans_def pins_ok_def)
qed (auto simp: kernel_host_def k_tc_def Let_def pins_ok_def split: option.split)

lemma guard_open:
  assumes "pins_ok pin (world p)"
  obtains e where "bans_map (kernel_host c) pin p = (Inl e, p)" | "bans_map (kernel_host c) pin p = (Inr 0, p)"
  using assms
  by (cases "map_of (k_pins (world p)) (path_join pin ''shield_bans'')")
    (auto simp: bans_map_def typed_map_def open_map_def sys_def pins_ok_def map_kind_def)

section \<open>Commands that change no ban in force\<close>

text \<open>The machine at time \<open>t\<close> with \<open>L\<close> the bans in force.\<close>

definition holds_live :: "nat \<Rightarrow> u64 \<Rightarrow> (addr6 \<Rightarrow> ban_val option) \<Rightarrow> kworld \<Rightarrow> bool" where
  "holds_live c t L = (\<lambda>w. k_inv c w \<and> k_now w = t \<and> live_part t (k_view w 0) = L)"

interpretation kernel_live: host_frame "kernel_host c" "holds_live c t L" for c t L
proof (rule kernel_calls)
  fix w w' :: kworld
  assume w: "holds_live c t L w" and same: "k_order w' = k_order w"
    "shield_bans (k_maps w') = shield_bans (k_maps w)" "k_mono w' = k_mono w"
  from same(2) have "k_view w' 0 = k_view w 0" by (simp add: k_view_def)
  with w same show "holds_live c t L w'"
    by (simp add: holds_live_def k_inv_def k_ok_def k_now_def)
qed

lemma holds_live_abs: "holds_live c (k_now w) (live_part (k_now w) (k_view w 0)) w' \<Longrightarrow> guard_abs w' = guard_abs w"
  by (rule guard_abs_cong) (simp_all add: holds_live_def)

lemma prune_holds_live:
  assumes "holds_live c t L (world p)"
  shows "keeps (holds_live c t L) (prune_expired (kernel_host c) h p)"
proof -
  have "k_ok (world p)" using assms by (simp add: holds_live_def k_inv_def)
  then obtain n p' where p': "prune_expired (kernel_host c) h p = (Inr n, p')"
      "k_view (world p') = (k_view (world p))(h := live_part (k_now (world p)) (k_view (world p) h))"
    using kernel.prune_spec [OF _ kernel_now] by blast
  have "k_inv c (world p')"
    using kernel_inv.keeps_prune [of c p h] assms p'(1) by (simp add: holds_live_def)
  moreover have "k_now (world (snd (prune_expired (kernel_host c) h p))) = k_now (world p)"
    by (auto simp: prune_expired_def kernel_now sys_def k_now_def k_mono_remove_keys split: sum.split)
  ultimately show ?thesis using assms p' by (auto simp: holds_live_def)
qed

lemma list_holds_live:
  "holds_live c t L (world p) \<Longrightarrow> keeps (holds_live c t L) (cmd_list (kernel_host c) pin p)"
  unfolding cmd_list_def Let_def
  by (intro keeps_bind keeps_split)
    (auto simp: kernel_live.keeps_maps kernel_live.keeps_now prune_holds_live keeps_sys kernel_live.calls
      foldl_println simp del: kernel_host_sel)

lemma stats_holds_live:
  assumes "holds_live c t L (world p)"
  shows "keeps (holds_live c t L) (cmd_stats (kernel_host c) pin p)"
proof -
  note f = kernel_live.keeps_typed_map kernel_live.keeps_maps kernel_live.keeps_open_map
    kernel_live.keeps_print_stats kernel_live.calls
  show ?thesis
    unfolding cmd_stats_def Let_def
    by (intro keeps_bind keeps_split)
      (use assms in \<open>auto simp: keeps_context prune_holds_live keeps_sys f simp del: kernel_host_sel\<close>)
qed

lemma report_keeps [simp]:
  "world (snd (report r)) = world (snd r)" "world (snd (report_bool b)) = world (snd b)"
  by (auto simp: report_def report_bool_def split: prod.split sum.split)

lemma report_code:
  "fst (report r) = SUCCESS \<longleftrightarrow> (\<exists>x. fst r = Inr x)"
  "fst (report_bool b) = SUCCESS \<longleftrightarrow> fst b = Inr True"
  by (auto simp: report_def report_bool_def split: prod.split sum.split)

text \<open>Every command but \<open>ban\<close>, \<open>unban\<close> and \<open>check\<close> reads as silence.\<close>

lemma quiet_command:
  assumes "k_inv c (world p)" "\<And>ip s. cmd \<noteq> Ban ip s" "\<And>ip. cmd \<noteq> Unban ip" "\<And>ip. cmd \<noteq> Check ip"
  shows "guard_abs (world (snd (guard_main (kernel_host c) pin cmd p))) = guard_abs (world p)"
proof (rule holds_live_abs)
  let ?P = "holds_live c (k_now (world p)) (live_part (k_now (world p)) (k_view (world p) 0))"
  have P: "?P (world p)" using assms(1) by (simp add: holds_live_def)
  have "keeps ?P (guard_main (kernel_host c) pin cmd p)"
  proof (cases "edits_bans cmd")
    case False
    then show ?thesis using kernel_live.guard_main_frame P by blast
  next
    case True
    then have "cmd = List \<or> cmd = Stats" using assms(2-4) by (cases cmd) (auto simp: edits_bans_def)
    then show ?thesis
      using list_holds_live [OF P, of pin] stats_holds_live [OF P, of pin] by (auto simp: keeps_def)
  qed
  then show "?P (world (snd (guard_main (kernel_host c) pin cmd p)))" by (simp add: keeps_def)
qed

section \<open>The verbs of the contract\<close>

lemma ban_verb:
  assumes "guard_inv c pin (world p)" "guard_main (kernel_host c) pin (Ban ip s) p = (code, p')"
  shows "\<exists>v. guard_reads K (Run (Ban ip s) code) v \<and> contract_step guard_due (guard_abs (world p)) v (guard_abs (world p'))"
proof -
  have now: "k_now (world p') = k_now (world p)"
    using command_now [of c pin "Ban ip s" p] unfolding assms(2) by simp
  have ok: "k_ok (world p)" "pins_ok pin (world p)" using assms(1) by (simp_all add: guard_inv_def k_inv_def)
  show ?thesis
  proof (cases "\<exists>a. parse_v6 ip = Inr (Some a)")
    case False
    then have "world p' = world p"
      using assms(2) by (auto simp: cmd_ban_def report_def bind_ok_def split: sum.splits option.splits)
    with False show ?thesis
      by (auto simp: on_node_def contract_step.silent split: sum.splits option.splits)
  next
    case True
    then obtain a where a: "parse_v6 ip = Inr (Some a)" ..
    show ?thesis
    proof (rule guard_open [OF ok(2)])
      fix e assume "bans_map (kernel_host c) pin p = (Inl e, p)"
      then have "world p' = world p" "code = FAILURE"
        using assms(2) a by (auto simp: cmd_ban_def report_def)
      with a show ?thesis by (auto simp: on_node_def contract_step.silent)
    next
      assume m: "bans_map (kernel_host c) pin p = (Inr 0, p)"
      obtain v q where v: "ban_value (kernel_host c) s p = (v, q)" by fastforce
      let ?T = "k_view (world p) 0" and ?t = "k_now (world p)"
      have q: "k_now (world q) = ?t"
        using v by (simp add: ban_value_def kernel_now now_epoch_s_def sys_def split: if_splits)
      obtain e0 q2 where e0: "now_epoch_s (kernel_host c) p = (e0, q2)" by fastforce
      have due: "expiry_of v = guard_due (unat ?t) (sint s)"
        using ban_value_spec [OF v kernel_now e0]
        by (auto simp: expiry_of_def guard_due_def split: if_splits)
      have outcome: "code = SUCCESS \<and> live_part ?t (k_view (world p') 0) = live_part ?t (?T(table_key a \<mapsto> v))
          \<or> code = FAILURE \<and> live_part ?t (k_view (world p') 0) = live_part ?t ?T"
      proof (cases "?T (table_key a) \<noteq> None \<or> card (dom ?T) < k_cap c 0")
        case True
        then show ?thesis using kernel.ban_room [OF ok(1) m a v] assms(2) by (auto simp: report_def)
      next
        case False
        then have full: "?T (table_key a) = None" "k_cap c 0 \<le> card (dom ?T)" by auto
        have "live_part ?t ((live_part ?t ?T)(table_key a \<mapsto> v)) = live_part ?t (?T(table_key a \<mapsto> v))"
          by (auto simp: live_part_def fun_eq_iff split: option.split)
        with kernel.ban_sweep [OF ok(1) m a v kernel_now full] q assms(2) show ?thesis
          by (auto simp: report_def split: if_splits)
      qed
      then show ?thesis
      proof
        assume s: "code = SUCCESS \<and> live_part ?t (k_view (world p') 0) = live_part ?t (?T(table_key a \<mapsto> v))"
        let ?B = "(banned (guard_abs (world p)))(table_key a \<mapsto> guard_due (unat ?t) (sint s))"
        have "in_force_part (unat ?t) ?B k = banned (guard_abs (world p')) k" for k
          using s now due
          by (auto simp: in_force_part_upd banned_guard_abs in_force_part_def live_part_def in_force_expiry
              in_force_expiry [of v ?t, unfolded due] fun_eq_iff split: option.split)
        then have "guard_abs (world p') = (guard_abs (world p))\<lparr>banned := in_force_part (clock (guard_abs (world p))) ?B\<rparr>"
          using now by (simp add: guard_abs_def fun_eq_iff)
        with contract_step.ban [of guard_due "guard_abs (world p)" "table_key a" "sint s"] s a show ?thesis
          by (auto simp: on_node_def)
      next
        assume "code = FAILURE \<and> live_part ?t (k_view (world p') 0) = live_part ?t ?T"
        then have "guard_abs (world p') = guard_abs (world p)" "code = FAILURE"
          using guard_abs_cong [OF now] by simp_all
        with a show ?thesis by (auto simp: on_node_def contract_step.silent)
      qed
    qed
  qed
qed

lemma unban_verb:
  assumes "guard_inv c pin (world p)" "guard_main (kernel_host c) pin (Unban ip) p = (code, p')"
  shows "\<exists>v. guard_reads K (Run (Unban ip) code) v \<and> contract_step guard_due (guard_abs (world p)) v (guard_abs (world p'))"
proof -
  have now: "k_now (world p') = k_now (world p)"
    using command_now [of c pin "Unban ip" p] unfolding assms(2) by simp
  have ok: "k_ok (world p)" "pins_ok pin (world p)" using assms(1) by (simp_all add: guard_inv_def k_inv_def)
  show ?thesis
  proof (cases "\<exists>a. parse_v6 ip = Inr (Some a)")
    case False
    then have "world p' = world p"
      using assms(2) by (auto simp: cmd_unban_def report_def bind_ok_def split: sum.splits option.splits)
    with False show ?thesis
      by (auto simp: on_node_def contract_step.silent split: sum.splits option.splits)
  next
    case True
    then obtain a where a: "parse_v6 ip = Inr (Some a)" ..
    show ?thesis
    proof (rule guard_open [OF ok(2)])
      fix e assume "bans_map (kernel_host c) pin p = (Inl e, p)"
      then have "world p' = world p" "code = FAILURE"
        using assms(2) a by (auto simp: cmd_unban_def report_def)
      with a show ?thesis by (auto simp: on_node_def contract_step.silent)
    next
      assume m: "bans_map (kernel_host c) pin p = (Inr 0, p)"
      from kernel.unban_spec [OF ok(1) m a] assms(2)
      have s: "code = SUCCESS" "k_view (world p') 0 = (k_view (world p) 0)(table_key a := None)"
        by (auto simp: report_def)
      have "guard_abs (world p') = (guard_abs (world p))\<lparr>banned := (banned (guard_abs (world p)))(table_key a := None)\<rparr>"
        using now s(2) by (simp add: guard_abs_def live_part_def fun_eq_iff)
      with contract_step.unban [of guard_due "guard_abs (world p)" "table_key a"] s(1) a show ?thesis
        by (auto simp: on_node_def)
    qed
  qed
qed

lemma check_verb:
  assumes "guard_inv c pin (world p)" "guard_main (kernel_host c) pin (Check ip) p = (code, p')"
  shows "\<exists>v. guard_reads K (Run (Check ip) code) v \<and> contract_step guard_due (guard_abs (world p)) v (guard_abs (world p'))"
proof -
  have now: "k_now (world p') = k_now (world p)"
    using command_now [of c pin "Check ip" p] unfolding assms(2) by simp
  have ok: "k_ok (world p)" "pins_ok pin (world p)" using assms(1) by (simp_all add: guard_inv_def k_inv_def)
  show ?thesis
  proof (cases "\<exists>a. parse_v6 ip = Inr (Some a)")
    case False
    then have "world p' = world p"
      using assms(2) by (auto simp: cmd_check_def report_def report_bool_def bind_ok_def split: sum.splits option.splits)
    with False show ?thesis
      by (auto simp: on_node_def contract_step.silent split: sum.splits option.splits)
  next
    case True
    then obtain a where a: "parse_v6 ip = Inr (Some a)" ..
    show ?thesis
    proof (rule guard_open [OF ok(2)])
      fix e assume "bans_map (kernel_host c) pin p = (Inl e, p)"
      then have "world p' = world p" "code = FAILURE"
        using assms(2) a by (auto simp: cmd_check_def report_def report_bool_def)
      with a show ?thesis by (auto simp: on_node_def contract_step.silent)
    next
      assume m: "bans_map (kernel_host c) pin p = (Inr 0, p)"
      let ?t = "k_now (world p)" and ?T = "k_view (world p) 0"
      have s: "(code = SUCCESS) = (live_part ?t ?T (table_key a) \<noteq> None)"
          "live_part ?t (k_view (world p') 0) = live_part ?t ?T"
        using kernel.check_spec [OF ok(1) m a kernel_now] assms(2)
        by (auto simp: report_bool_def split: if_splits)
      have "guard_abs (world p') = guard_abs (world p)"
        by (rule guard_abs_cong [OF now s(2)])
      with contract_step.answer [of guard_due "guard_abs (world p)" "table_key a"] s(1) a show ?thesis
        by (auto simp: on_node_def banned_guard_abs)
    qed
  qed
qed

section \<open>The simulation\<close>

lemma packet_verb:
  assumes "shield_guard K skb (k_now w) (k_maps w) = (verdict, m)"
  shows "\<exists>v. guard_reads K (Packet skb verdict) v \<and> contract_step guard_due (guard_abs w) v (guard_abs (w\<lparr>k_maps := m\<rparr>))"
proof -
  have "shield_bans m = shield_bans (k_maps w)" using assms by (metis shield_guard_bans snd_conv)
  then have same: "guard_abs (w\<lparr>k_maps := m\<rparr>) = guard_abs w"
    by (simp add: guard_abs_def k_now_def k_view_def)
  show ?thesis
  proof (cases "packet_source K skb")
    case None
    then show ?thesis by (simp add: same contract_step.silent)
  next
    case (Some k)
    show ?thesis
    proof (cases "banned (guard_abs w) k")
      case None
      then show ?thesis using Some by (auto simp: same intro: contract_step.spare)
    next
      case (Some u)
      then obtain v where "shield_bans (k_maps w) k = Some v" "ban_active v (k_now w)"
        by (auto simp: banned_guard_abs k_view_def)
      then have "verdict = TC_ACT_SHOT"
        using assms \<open>packet_source K skb = Some k\<close>
        by (auto simp: shield_guard_def packet_source_def split: if_splits)
      then show ?thesis
        using Some \<open>packet_source K skb = Some k\<close> by (auto simp: same intro!: contract_step.enforce)
    qed
  qed
qed

lemma guard_step_inv: "guard_inv c pin w \<Longrightarrow> sys_step c pin K w e w' \<Longrightarrow> guard_inv c pin w'"
proof -
  assume inv: "guard_inv c pin w" and step: "sys_step c pin K w e w'"
  have "pins_ok pin w'" using step
  proof (cases rule: sys_step.cases)
    case (command cmd code p)
    then show ?thesis
      using kernel_pins.guard_main_invariant [of pin "\<lparr>world = w, stdout = [], stderr = []\<rparr>" c pin cmd] inv
      by (simp add: keeps_def guard_inv_def)
  qed (use inv in \<open>simp_all add: guard_inv_def pins_ok_def\<close>)
  with inv sys_step_inv [OF step] show "guard_inv c pin w'" by (simp add: guard_inv_def)
qed

lemma guard_simulates:
  assumes inv: "guard_inv c pin w" and step: "sys_step c pin K w e w'"
  shows "\<exists>v. guard_reads K e v \<and> contract_step guard_due (guard_abs w) v (guard_abs w')"
  using step
proof (cases rule: sys_step.cases)
  case (command cmd code p)
  let ?p = "\<lparr>world = w, stdout = [], stderr = []\<rparr>"
  have p: "guard_inv c pin (world ?p)" using inv by simp
  have quiet: "guard_abs w' = guard_abs w"
    if "\<And>ip s. cmd \<noteq> Ban ip s" "\<And>ip. cmd \<noteq> Unban ip" "\<And>ip. cmd \<noteq> Check ip"
    using quiet_command [of c ?p cmd pin] that inv command by (simp add: guard_inv_def)
  show ?thesis
  proof (cases cmd)
    case (Ban ip s)
    then show ?thesis using ban_verb [OF p] command by auto
  next
    case (Unban ip)
    then show ?thesis using unban_verb [OF p] command by auto
  next
    case (Check ip)
    then show ?thesis using check_verb [OF p] command by auto
  qed (use quiet command in \<open>simp_all add: contract_step.silent\<close>)
next
  case (packet skb verdict m)
  then show ?thesis using packet_verb by simp
next
  case (tick t s)
  have le: "k_now w \<le> k_now (w\<lparr>k_mono := t, k_epoch := s\<rparr>)" using tick(3) by (simp add: k_now_def)
  have "guard_abs w' = \<lparr>clock = unat (k_now w'), banned = in_force_part (unat (k_now w')) (banned (guard_abs w))\<rparr>"
    using tick le live_part_later [of "k_now w" "k_now w'" "k_view w 0"]
    by (auto simp: guard_abs_def in_force_live k_view_def fun_eq_iff)
  with contract_step.elapse [of "guard_abs w" "unat (k_now w')" guard_due] le tick show ?thesis
    by (auto simp: word_le_nat_alt)
qed

interpretation guard_backend: ban_backend "sys_step c pin K" "guard_inv c pin" guard_abs "guard_reads K" guard_due
  for c pin K
  by unfold_locales (blast intro: guard_step_inv guard_simulates)+

lemma sys_run_runs: "sys_run c pin K w es w' \<longleftrightarrow> runs (sys_step c pin K) w es w'"
proof
  show "sys_run c pin K w es w' \<Longrightarrow> runs (sys_step c pin K) w es w'"
    by (induction rule: sys_run.induct) (auto intro: runs.intros)
  show "runs (sys_step c pin K) w es w' \<Longrightarrow> sys_run c pin K w es w'"
    by (induction rule: runs.induct) (auto intro: sys_run.intros)
qed


lemma demo_guard_inv: "guard_inv 4 ''/p'' demo_world"
  using demo_ok by (simp add: guard_inv_def k_inv_def pins_ok_def path_join_def demo_order_def)

lemma demo_tick: "sys_run 4 ''/p'' plain_kern demo_world [Tick] demo_world"
proof -
  have "sys_step 4 ''/p'' plain_kern demo_world Tick demo_world"
    using sys_step.tick [of demo_world "k_mono demo_world" 4 "''/p''" plain_kern "k_epoch demo_world"]
    by (simp del: demo_world_sel)
  from sys_run.next_step [OF sys_run.start this] show ?thesis by simp
qed


end
