(* ===== verification/Ui_Main.thy ===== *)
theory Ui_Main
  imports Http Collect Net_Addr
begin

text \<open>
  The dashboard (\<open>ui/src/main.rs\<close>): the flags, the routes and what each of them answers, and
  the check on the address it binds. The text of the page is a parameter; the state \<open>'w\<close> of the
  machine is threaded through the handlers in the order they query it.
\<close>

section \<open>State\<close>

definition MAX_TAIL_BYTES :: u64 where
  "MAX_TAIL_BYTES = 2 * 1024 * 1024"

definition MAX_TAIL_LINES :: nat where
  "MAX_TAIL_LINES = 1000"

record args =
  bind_to :: string
  insecure_bind :: bool
  env_file :: "string option"
  log_dir :: string
  shield_config_bin :: string
  shield_ban_bin :: string
  fips_guard_bin :: string

definition state_config :: "'w env \<Rightarrow> args \<Rightarrow> 'w \<Rightarrow> (string + uconfig) \<times> 'w" where
  "state_config E st w = config_load E (shield_config_bin st) (env_file st) w"

definition known_services :: "'w env \<Rightarrow> args \<Rightarrow> 'w \<Rightarrow> string list \<times> 'w" where
  "known_services E st w =
     (case state_config E st w of
        (Inr c, w) \<Rightarrow> (map log_name (services c), w)
      | (Inl _, w) \<Rightarrow> ([], w))"

definition dash :: string where
  "dash = [CHR 0xE2, CHR 0x80, CHR 0x94]"

definition hint :: "args \<Rightarrow> string \<Rightarrow> string" where
  "hint st what =
     (if what = ''config'' then
        ''shield-ui runs `'' @ from_utf8_lossy (shield_config_bin st) @
        '' show --porcelain`. Install it with `sudo make install` '' @
        ''(host mode), or point --shield-config at it. In container mode it lives '' @
        ''inside the image, so the host needs its own copy plus presets/. If it is '' @
        ''installed, it may simply not have found a shield.env '' @ dash @ '' pass --env-file.''
      else if what = ''bans'' then
        ''shield-ui runs `'' @ from_utf8_lossy (shield_ban_bin st) @
        '' list`. Install it with `sudo make install` or '' @
        ''`sudo make install-guard`. With the eBPF backend it execs fips-guard, '' @
        ''which needs CAP_BPF to open the pinned maps '' @ dash @ '' a unit with an empty '' @
        ''CapabilityBoundingSet cannot, even as root.''
      else
        ''shield-ui runs `'' @ from_utf8_lossy (fips_guard_bin st) @
        '' stats`. This is optional: without the eBPF guard, '' @
        ''bans are enforced by the banlist file. If you do run it, note that '' @
        ''reading the pinned maps needs CAP_BPF.'')"

section \<open>Routes\<close>

text \<open>The three parts of the status document, in order.\<close>

definition status_config :: "'w env \<Rightarrow> args \<Rightarrow> obj \<Rightarrow> 'w \<Rightarrow> obj \<times> 'w" where
  "status_config E st o1 w =
     (case state_config E st w of
        (Inr cfg, w) \<Rightarrow>
          (let o1 = obj_raw o1 ''services'' (arr (map service_json (services cfg)));
               o1 = obj_str o1 ''bind_addr'' (unwrap_or (ucfg_get cfg ''SHIELD_BIND_ADDR'') []);
               o1 = obj_str o1 ''preset'' (unwrap_or (ucfg_get cfg ''SHIELD_PRESET'') ''default'')
           in (obj_bool o1 ''config_ok'' True, w))
      | (Inl e, w) \<Rightarrow>
          (let o1 = obj_raw o1 ''services'' ''[]'';
               o1 = obj_bool o1 ''config_ok'' False;
               o1 = obj_str o1 ''config_error'' e
           in (obj_str o1 ''config_hint'' (hint st ''config''), w)))"

definition ban_order :: "ban \<Rightarrow> u64" where
  "ban_order b = (if ban_until b = 0 then - 1 else ban_until b)"

definition recent_bans :: "ban list \<Rightarrow> ban list" where
  "recent_bans bs = rev (sort_key ban_order bs)"

definition status_bans :: "'w env \<Rightarrow> args \<Rightarrow> obj \<Rightarrow> 'w \<Rightarrow> obj \<times> 'w" where
  "status_bans E st o1 w =
     (case bans E (shield_ban_bin st) w of
        (Inr bs, w) \<Rightarrow>
          (let (t, w) = now_s E w;
               o1 = obj_num o1 ''ban_count'' (of_nat (length bs));
               o1 = obj_bool o1 ''bans_ok'' True
           in (obj_raw o1 ''bans'' (arr (map (ban_json t) (take 20 (recent_bans bs)))), w))
      | (Inl e, w) \<Rightarrow>
          (let o1 = obj_bool o1 ''bans_ok'' False;
               o1 = obj_num o1 ''ban_count'' 0;
               o1 = obj_raw o1 ''bans'' ''[]'';
               o1 = obj_str o1 ''bans_error'' e
           in (obj_str o1 ''bans_hint'' (hint st ''bans''), w)))"

definition stat_json :: "string \<times> string \<Rightarrow> string" where
  "stat_json kv = (case kv of (k, v) \<Rightarrow> fst (obj_done (obj_str (obj_str obj_new ''label'' k) ''value'' v)))"

definition status_guard :: "'w env \<Rightarrow> args \<Rightarrow> obj \<Rightarrow> 'w \<Rightarrow> obj \<times> 'w" where
  "status_guard E st o1 w =
     (case guard_stats E (fips_guard_bin st) w of
        (Inr stats, w) \<Rightarrow>
          (obj_raw (obj_bool o1 ''guard_ok'' True) ''guard'' (arr (map stat_json stats)), w)
      | (Inl e, w) \<Rightarrow>
          (let o1 = obj_bool o1 ''guard_ok'' False;
               o1 = obj_raw o1 ''guard'' ''[]'';
               (installed, w) = file_exists E (fips_guard_bin st) w;
               o1 = obj_bool o1 ''guard_installed'' installed;
               o1 = obj_str o1 ''guard_error'' e
           in (obj_str o1 ''guard_hint'' (hint st ''guard''), w)))"

definition api_status :: "'w env \<Rightarrow> args \<Rightarrow> 'w \<Rightarrow> response \<times> 'w" where
  "api_status E st w =
     (let (o1, w) = status_config E st obj_new w;
          (o1, w) = status_bans E st o1 w;
          (o1, w) = status_guard E st o1 w;
          (t, w) = now_s E w
      in (response_json (fst (obj_done (obj_num o1 ''now'' t))), w))"

definition api_bans :: "'w env \<Rightarrow> args \<Rightarrow> 'w \<Rightarrow> response \<times> 'w" where
  "api_bans E st w =
     (let (t, w) = now_s E w in
      case bans E (shield_ban_bin st) w of
        (Inr bs, w) \<Rightarrow>
          (let o1 = obj_num obj_new ''count'' (of_nat (length bs));
               o1 = obj_raw o1 ''bans'' (arr (map (ban_json t) bs))
           in (response_json (fst (obj_done o1)), w))
      | (Inl e, w) \<Rightarrow> (response_error 500 e, w))"

definition clamp :: "nat \<Rightarrow> nat \<Rightarrow> nat \<Rightarrow> nat" where
  "clamp lo hi n = (if n < lo then lo else if n > hi then hi else n)"

definition logs_json :: "string \<Rightarrow> string \<Rightarrow> string \<Rightarrow> response" where
  "logs_json svc kind ls =
     response_json (fst (obj_done (obj_raw (obj_str (obj_str obj_new ''service'' svc) ''kind'' kind) ''lines'' ls)))"

definition api_logs :: "'w env \<Rightarrow> args \<Rightarrow> request \<Rightarrow> 'w \<Rightarrow> response \<times> 'w" where
  "api_logs E st req w =
     (case param req ''service'' of
        None \<Rightarrow> (response_error 400 ''service is required'', w)
      | Some svc \<Rightarrow>
          (let kind = unwrap_or (param req ''kind'') ''stream'' in
           if \<not> (kind = ''access'' \<or> kind = ''stream'')
           then (response_error 400 ''kind must be access or stream'', w)
           else
             (let (known, w) = known_services E st w in
              if \<not> list_ex (\<lambda>s. s = svc) known
              then (response_error 404 ''unknown service'', w)
              else
                (let n = clamp 1 MAX_TAIL_LINES (unwrap_or (Option.bind (param req ''n'') parse_usize) 100);
                     path = log_path (log_dir st) svc kind
                 in case tail E path n MAX_TAIL_BYTES w of
                      (Inr ls, w) \<Rightarrow> (logs_json svc kind (str_arr ls), w)
                    | (Inl NotFound, w) \<Rightarrow> (logs_json svc kind ''[]'', w)
                    | (Inl (OtherIo _), w) \<Rightarrow> (response_error 500 ''log could not be read'', w)))))"

definition handle :: "string \<Rightarrow> 'w env \<Rightarrow> args \<Rightarrow> request \<Rightarrow> 'w \<Rightarrow> response \<times> 'w" where
  "handle page E st req w =
     (if req_path req = ''/'' \<or> req_path req = ''/index.html'' then (response_html page, w)
      else if req_path req = ''/api/status'' then api_status E st w
      else if req_path req = ''/api/bans'' then api_bans E st w
      else if req_path req = ''/api/logs'' then api_logs E st req w
      else (response_error 404 ''no such endpoint'', w))"

section \<open>Start-up\<close>

datatype ui_error =
    NotAnAddress string
  | RefusingToBind socket_addr
  | CannotBind socket_addr string

datatype ui_note = Dashboard_On socket_addr | Warning_Routable

text \<open>
  Up to the accept loop: the listener and the lines on standard error, or the error. Binding
  the socket is a parameter.
\<close>

definition ui_start ::
  "(socket_addr \<Rightarrow> 'w \<Rightarrow> (string + 'l) \<times> 'w) \<Rightarrow> args \<Rightarrow> 'w \<Rightarrow> (ui_error + 'l \<times> ui_note list) \<times> 'w" where
  "ui_start tcp_bind a w =
     (case parse_socket_addr (bind_to a) of
        None \<Rightarrow> (Inl (NotAnAddress (bind_to a)), w)
      | Some addr \<Rightarrow>
          (let loopback = is_loopback (sock_ip addr) in
           if \<not> loopback \<and> \<not> insecure_bind a then (Inl (RefusingToBind addr), w)
           else
             bind_ok (context_err (CannotBind addr) (tcp_bind addr w)) (\<lambda>l w.
             (Inr (l, Dashboard_On addr # (if \<not> loopback then [Warning_Routable] else [])), w))))"

text \<open>The process on the connections it accepts.\<close>

definition ui_main ::
  "(socket_addr \<Rightarrow> 'w \<Rightarrow> (string + 'l) \<times> 'w) \<Rightarrow> 's sock \<Rightarrow> string \<Rightarrow> 'w env \<Rightarrow> args
     \<Rightarrow> (tcp_in \<times> 's) option list \<Rightarrow> 'w \<Rightarrow> (ui_error + 's list \<times> ui_note list) \<times> 'w" where
  "ui_main tcp_bind K page E a conns w =
     bind_ok (ui_start tcp_bind a w) (\<lambda>(_, notes) w.
     (case serve (handle page E a) K conns w of (ss, w) \<Rightarrow> (Inr (ss, notes), w)))"

end
