(* ===== verification/Node.thy ===== *)
theory Node
  imports Guard_Host Ui_Main
begin

text \<open>
  A node that runs both programs: the machine of the guard with the classifier's maps, the
  files and the configuration the dashboard reads. Here the query verbs of the dashboard run
  the guard CLI itself on the machine, as the ban tool does with the eBPF backend. The
  node meets the contract the log reader relies on.
\<close>

section \<open>The machine\<close>

record node =
  n_kernel :: kworld
  n_files :: "(string \<times> string) list"
  n_open :: "(string \<times> nat) list"
  n_config :: "string list"

text \<open>A run of the guard CLI as a child process: its exit code and what it printed.\<close>

definition run_guard :: "nat \<Rightarrow> string \<Rightarrow> cmd \<Rightarrow> node \<Rightarrow> (string + cmd_output) \<times> node" where
  "run_guard c pin cmd nd =
     (case guard_main (kernel_host c) pin cmd \<lparr>world = n_kernel nd, stdout = [], stderr = []\<rparr> of
        (code, p) \<Rightarrow>
          (Inr \<lparr>success = (code = SUCCESS), status_text = ''exit status: 1'',
                out_bytes = print_lines (stdout p), err_bytes = print_lines (stderr p)\<rparr>,
           nd\<lparr>n_kernel := world p\<rparr>))"

definition node_exec :: "nat \<Rightarrow> string \<Rightarrow> string \<Rightarrow> string list \<Rightarrow> node \<Rightarrow> (string + cmd_output) \<times> node" where
  "node_exec c pin bin args nd =
     (if bin = ''shield-ban'' \<and> args = [''list''] then run_guard c pin List nd
      else if bin = ''fips-guard'' \<and> args = [''stats''] then run_guard c pin Stats nd
      else if bin = ''shield-config'' \<and> take 2 args = [''show'', ''--porcelain''] then
        (Inr \<lparr>success = True, status_text = ''exit status: 0'', out_bytes = print_lines (n_config nd),
              err_bytes = []\<rparr>, nd)
      else (Inl ''No such file or directory (os error 2)'', nd))"

definition node_content :: "node \<Rightarrow> string \<Rightarrow> string option" where
  "node_content nd path = map_of (n_files nd) path"

definition node_opened :: "node \<Rightarrow> nat \<Rightarrow> (string \<times> nat) option" where
  "node_opened nd f = (if f < length (n_open nd) then Some (n_open nd ! f) else None)"

definition node_seek :: "nat \<Rightarrow> i64 \<Rightarrow> node \<Rightarrow> (io_error + u64) \<times> node" where
  "node_seek f off nd =
     (case node_opened nd f of
        None \<Rightarrow> (Inl (OtherIo ''EBADF''), nd)
      | Some (s, i) \<Rightarrow>
          (let pos = of_nat (length s) + off in
           if unat pos \<le> length s then (Inr pos, nd\<lparr>n_open := (n_open nd)[f := (s, unat pos)]\<rparr>)
           else (Inl (OtherIo ''EINVAL''), nd)))"

definition node_read :: "nat \<Rightarrow> nat \<Rightarrow> node \<Rightarrow> (io_error + string) \<times> node" where
  "node_read f n nd =
     (case node_opened nd f of
        None \<Rightarrow> (Inl (OtherIo ''EBADF''), nd)
      | Some (s, i) \<Rightarrow>
          if i + n \<le> length s
          then (Inr (take n (drop i s)), nd\<lparr>n_open := (n_open nd)[f := (s, i + n)]\<rparr>)
          else (Inl (OtherIo ''failed to fill whole buffer''), nd))"

definition node_env :: "nat \<Rightarrow> string \<Rightarrow> node env" where
  "node_env c pin =
     \<lparr>exec = node_exec c pin,
      file_open = (\<lambda>path nd. case node_content nd path of
         None \<Rightarrow> (Inl NotFound, nd)
       | Some s \<Rightarrow> (Inr (length (n_open nd)), nd\<lparr>n_open := n_open nd @ [(s, 0)]\<rparr>)),
      seek_end = node_seek, read_exact = node_read,
      wall_clock = (\<lambda>nd. (k_epoch (n_kernel nd), nd)),
      file_exists = (\<lambda>path nd. (path \<in> {''shield-ban'', ''fips-guard'', ''shield-config''}, nd))\<rparr>"

lemma unat_seek:
  assumes "length s < 2 ^ 63" "d \<le> length s"
  shows "of_nat (length s) + - of_nat d = (of_nat (length s - d) :: u64)"
    and "unat (of_nat (length s - d) :: u64) = length s - d"
  using assms by (simp add: of_nat_diff, simp add: unat_of_nat del: of_nat_diff)

interpretation node_logs: log_files "node_env c pin" node_content node_opened for c pin
proof (unfold_locales, goal_cases)
  case (1 w path s)
  then show ?case by (simp add: node_env_def node_opened_def)
next
  case (2 w path)
  then show ?case by (simp add: node_env_def)
next
  case (3 w f s i d)
  then have f: "f < length (n_open w)" by (simp add: node_opened_def split: if_splits)
  show ?case
    using 3 f unat_seek [OF 3(2,3)]
    by (simp add: node_env_def node_seek_def node_opened_def Let_def del: of_nat_diff)
next
  case (4 w f s i n)
  then show ?case by (simp add: node_env_def node_read_def)
qed

section \<open>A node for the examples\<close>

definition demo_args :: args where
  "demo_args = \<lparr>bind_to = ''127.0.0.1:8088'', insecure_bind = False, env_file = None, log_dir = ''/log'',
     shield_config_bin = ''shield-config'', shield_ban_bin = ''shield-ban'', fips_guard_bin = ''fips-guard''\<rparr>"

definition demo_config :: "string list" where
  "demo_config = [''custom'' @ [tab] @ ''SHIELD_PROFILES'' @ [tab] @ ''tcp'',
                  ''custom'' @ [tab] @ ''SHIELD_TCP_SERVICE'' @ [tab] @ ''ssh'',
                  ''preset:tcp/strict'' @ [tab] @ ''SHIELD_TCP_CONN_RATE'' @ [tab] @ ''10'']"

definition demo_log :: "string list" where
  "demo_log = [''one'', ''two'', ''three'']"

definition demo_node :: node where
  "demo_node = \<lparr>n_kernel = demo_world, n_files = [(''/log/shield-ssh.stream.log'', print_lines demo_log)],
     n_open = [], n_config = demo_config\<rparr>"

lemma demo_config_ok: "\<And>l. l \<in> set demo_config \<Longrightarrow> line_ok l \<and> utf8_valid l"
  by (auto simp: demo_config_def line_ok_def)

definition demo_entries :: "(string \<times> string \<times> string) list" where
  "demo_entries = [(''custom'', ''SHIELD_PROFILES'', ''tcp''), (''custom'', ''SHIELD_TCP_SERVICE'', ''ssh''),
     (''preset:tcp/strict'', ''SHIELD_TCP_CONN_RATE'', ''10'')]"

lemma demo_state_config:
  "state_config (node_env c pin) demo_args demo_node = (Inr \<lparr>entries = demo_entries\<rparr>, demo_node)"
proof -
  have "config_load (node_env c pin) ''shield-config'' None demo_node = (Inr \<lparr>entries = demo_entries\<rparr>, demo_node)"
  proof (rule config_load_lines)
    show "out_bytes \<lparr>success = True, status_text = ''exit status: 0'', out_bytes = print_lines demo_config, err_bytes = []\<rparr>
        = print_lines (map (\<lambda>(s, k, v). s @ tab # k @ tab # v) demo_entries)"
      by (simp add: demo_config_def demo_entries_def)
    show "tab \<notin> set s \<and> tab \<notin> set k \<and> line_ok (s @ tab # k @ tab # v) \<and> utf8_valid (s @ tab # k @ tab # v)"
      if "(s, k, v) \<in> set demo_entries" for s k v
      using that by (auto simp: demo_entries_def line_ok_def)
  qed (simp_all add: node_env_def node_exec_def demo_node_def)
  then show ?thesis by (simp add: state_config_def demo_args_def)
qed

lemma demo_profiles: "profiles \<lparr>entries = demo_entries\<rparr> = [''tcp'']"
proof -
  have "trim ''tcp'' = ''tcp''"
    by (simp add: trim_def plain_def trim_end_last_plain)
  then show ?thesis by (simp add: profiles_def ucfg_get_def unwrap_or_def demo_entries_def)
qed

lemma demo_services: "map log_name (services \<lparr>entries = demo_entries\<rparr>) = [''ssh'']"
  unfolding services_def demo_profiles
  by (simp add: service_of_def keys_for_def ucfg_get_def unwrap_or_def demo_entries_def)

lemma demo_known: "known_services (node_env c pin) demo_args demo_node = ([''ssh''], demo_node)"
  by (simp add: known_services_def demo_state_config demo_services)

lemma demo_list:
  "\<exists>w. cmd_list (kernel_host 2) ''/p'' demo_ps
     = (Inr (), \<lparr>world = w, stdout = [ban_line ([0xFD00, 0, 0, 0, 0, 0, 0, 1], 1100)], stderr = []\<rparr>)"
proof -
  let ?k = "table_key [0xFD00, 0, 0, 0, 0, 0, 0, 2]"
  let ?w = "set_bans [hd demo_order] demo_world"
  have ex: "collect_expired 100000000000 (map Inr demo_order) = Inr [?k]"
    unfolding collect_expired_Inr by (simp add: demo_order_def demo_live_def demo_lapsed_def ban_active_def)
  have "k_remove 0 ?k demo_world = (Inr (), ?w)"
    by (simp add: k_remove_def demo_order_def del_alist_def octets_inj del: octets.simps)
  then have pr: "prune_expired (kernel_host 2) 0 demo_ps = (Inr 1, demo_ps\<lparr>world := ?w\<rparr>)"
    by (simp add: prune_expired_def demo_now sys_def ex del: octets.simps)
  have act: "collect_active 100000000000 (map Inr [hd demo_order]) = Inr [([0xFD00, 0, 0, 0, 0, 0, 0, 1], 1100)]"
    unfolding collect_active_Inr
    by (simp add: demo_order_def demo_live_def ban_active_def del: octets.simps)
  have now: "now_mono_ns (kernel_host 2) (demo_ps\<lparr>world := ?w\<rparr>) = (100000000000, demo_ps\<lparr>world := ?w\<rparr>)"
    by (simp add: now_mono_ns_def sys_def set_bans_def)
  have "k_order ?w = [hd demo_order]" by (simp add: set_bans_def)
  then show ?thesis
    using act by (simp add: cmd_list_def demo_open pr now sys_def println_def) (simp add: demo_ps_def)
qed

lemma demo_bans_exec:
  "\<exists>w. exec (node_env 2 ''/p'') ''shield-ban'' [''list''] demo_node
     = (Inr \<lparr>success = True, status_text = ''exit status: 1'',
            out_bytes = print_lines (map ban_line [([0xFD00, 0, 0, 0, 0, 0, 0, 1], 1100)]), err_bytes = []\<rparr>, w)"
proof -
  have "\<lparr>world = n_kernel demo_node, stdout = [], stderr = []\<rparr> = demo_ps"
    by (simp add: demo_node_def demo_ps_def)
  then show ?thesis
    using demo_list
    by (auto simp: node_env_def node_exec_def run_guard_def report_def)
qed

end
