(* ===== verification/Guard_Ui.thy ===== *)
theory Guard_Ui
  imports Node
begin

text \<open>
  The interface between the two programs: the lines \<open>fips-guard list\<close> and \<open>fips-guard stats\<close>
  print, and what the dashboard's readers make of them.
\<close>

section \<open>Bans\<close>

lemma plain_line: "list_all plain s \<Longrightarrow> line_ok s \<and> utf8_valid s"
  by (auto simp: line_ok_def plain_def list_all_iff intro!: utf8_valid_all_ascii) (use last_in_set in fastforce)

lemma line_ok_space: "line_ok a \<Longrightarrow> line_ok b \<Longrightarrow> b \<noteq> [] \<Longrightarrow> line_ok (a @ CHR '' '' # b)"
  by (simp add: line_ok_def)

lemma utf8_space: "list_all plain a \<Longrightarrow> list_all plain b \<Longrightarrow> utf8_valid (a @ CHR '' '' # b)"
  by (intro utf8_valid_all_ascii) (auto simp: list_all_iff plain_def)

lemma plain_u64: "list_all plain (u64_to_string v)" "u64_to_string v \<noteq> []"
  by (simp_all add: u64_to_string_def plain_string_of_nat)

lemma ban_line_ok: "line_ok (ban_line b) \<and> utf8_valid (ban_line b)"
  using plain_line [OF plain_ipv6_to_string] plain_line [OF plain_u64(1)] plain_u64
  by (cases b) (auto simp: ban_line_def intro: line_ok_space utf8_space plain_ipv6_to_string)

lemma ban_of_line_ban_line:
  assumes "length a = 8"
  shows "ban_of_line (ban_line (a, u)) = Some \<lparr>ban_addr = ipv6_to_string a, ban_until = u\<rparr>"
  using split_whitespace_two [OF plain_ipv6_to_string ipv6_to_string_not_Nil [OF assms] plain_u64]
  by (simp add: ban_of_line_def ban_line_def parse_u64_to_string)

lemma bans_reads_lines:
  assumes "exec E bin [''list''] w = (Inr out, w')" "success out" "utf8_valid bin"
    and "out_bytes out = print_lines (map ban_line bs)" "\<And>a u. (a, u) \<in> set bs \<Longrightarrow> length a = 8"
  shows "bans E bin w = (Inr (map (\<lambda>(a, u). \<lparr>ban_addr = ipv6_to_string a, ban_until = u\<rparr>) bs), w')"
proof -
  have ok: "line_ok l \<and> utf8_valid l" if "l \<in> set (map ban_line bs)" for l
    using that ban_line_ok by auto
  have "run E bin [''list''] w = (Inr (print_lines (map ban_line bs)), w')"
      "str_lines (print_lines (map ban_line bs)) = map ban_line bs"
    using run_lines [OF assms(1,2,4) ok] by blast+
  moreover have "filter_map ban_of_line (map ban_line bs)
      = map (\<lambda>(a, u). \<lparr>ban_addr = ipv6_to_string a, ban_until = u\<rparr>) bs"
    using assms(5)
  proof (induction bs)
    case (Cons b bs)
    then have "length (fst b) = 8" by (cases b) auto
    moreover have "filter_map ban_of_line (map ban_line bs)
        = map (\<lambda>(a, u). \<lparr>ban_addr = ipv6_to_string a, ban_until = u\<rparr>) bs"
      using Cons by (meson list.set_intros(2))
    ultimately show ?case by (cases b) (simp add: ban_of_line_ban_line)
  qed simp
  ultimately show ?thesis
    using assms(3) by (simp add: bans_def to_str_def)
qed

section \<open>Counters\<close>

text \<open>A padded label followed by a value: the reader finds the label when at least two spaces
  separate them.\<close>

lemma find_two_spaces:
  assumes "\<not> contains (l @ '' '') ''  ''"
  shows "find_str ''  '' (l @ ''  '' @ r) = Some (length l)"
  using assms
proof (induction l)
  case (Cons c l)
  then have "\<not> contains (l @ '' '') ''  ''"
    unfolding contains_iff by (metis append_Cons)
  moreover have "\<not> starts_with (c # l @ ''  '' @ r) ''  ''"
    using Cons.prems by (cases l) (auto simp: contains_def)
  ultimately show ?case using Cons.IH by simp
qed simp

lemma trim_spaces: "trim_start (replicate k (CHR '' '') @ s) = trim_start s"
  by (induction k) simp_all

lemma trim_plain_ends:
  assumes "s \<noteq> []" "plain (hd s)" "plain (last s)"
  shows "trim (replicate k (CHR '' '') @ s) = s"
proof -
  have "trim_start s = s" using assms(1,2) by (cases s) simp_all
  then show ?thesis
    using assms by (simp add: trim_def trim_spaces trim_end_last_plain)
qed

lemma stat_of_line_padded:
  assumes "\<not> contains (l @ '' '') ''  ''" "l \<noteq> []" "plain (hd l)" "plain (last l)"
    and "v \<noteq> []" "plain (hd v)" "plain (last v)"
  shows "stat_of_line (l @ ''  '' @ replicate k (CHR '' '') @ v) = Some (l, v)"
proof -
  let ?s = "l @ ''  '' @ replicate k (CHR '' '') @ v"
  have "trim_end ?s = ?s" using assms(5,7) by (intro trim_end_last_plain) simp_all
  moreover have "find_str ''  '' ?s = Some (length l)" by (rule find_two_spaces [OF assms(1)])
  moreover have "trim l = l" using trim_plain_ends [OF assms(2-4), of 0] by simp
  moreover have "trim (''  '' @ replicate k (CHR '' '') @ v) = v"
    using trim_plain_ends [OF assms(5-7), of "k + 2"] by (simp add: numeral_2_eq_2)
  ultimately show ?thesis by (simp add: stat_of_line_def)
qed

lemma stat_of_line_none: "\<not> contains s ''  '' \<Longrightarrow> trim_end s = s \<Longrightarrow> stat_of_line s = None"
  by (simp add: stat_of_line_def contains_def)

lemma u64_ends: "plain (hd (u64_to_string v))" "plain (last (u64_to_string v))"
  using plain_u64 [of v] by (auto simp: list_all_iff)

lemma nat_ends: "plain (hd (string_of_nat n))" "plain (last (string_of_nat n))"
  using plain_string_of_nat [of n] by (auto simp: list_all_iff)

text \<open>The lines of the report as the dashboard reads them.\<close>

lemma stat_lines_read:
  "stat_of_line (''passed             '' @ u64_to_string n) = Some (''passed'', u64_to_string n)"
  "stat_of_line (''dropped (ban)      '' @ u64_to_string n) = Some (''dropped (ban)'', u64_to_string n)"
  "stat_of_line (''not ipv6           '' @ u64_to_string n) = Some (''not ipv6'', u64_to_string n)"
  "stat_of_line (''parse failed       '' @ u64_to_string n) = Some (''parse failed'', u64_to_string n)"
  using stat_of_line_padded [of "''passed''" "u64_to_string n" 11]
    stat_of_line_padded [of "''dropped (ban)''" "u64_to_string n" 4]
    stat_of_line_padded [of "''not ipv6''" "u64_to_string n" 9]
    stat_of_line_padded [of "''parse failed''" "u64_to_string n" 5]
  by (simp_all add: u64_ends [unfolded plain_def] plain_u64 contains_def plain_def replicate_pred)

text \<open>The counter of throttled packets has one space before its value and is not read.\<close>

lemma throttle_counter_not_read: "stat_of_line (''dropped (throttle) '' @ u64_to_string n) = None"
proof (rule stat_of_line_none)
  have none: "find_str ''  '' s = None" if "CHR '' '' \<notin> set s" for s
    using that by (induction s) (auto simp: starts_with_iff)
  moreover have "CHR '' '' \<notin> set (u64_to_string n)"
    using plain_u64(1) [of n] by (auto simp: list_all_iff plain_def)
  ultimately show "\<not> contains (''dropped (throttle) '' @ u64_to_string n) ''  ''"
    using plain_u64(2) [of n] by (cases "u64_to_string n") (auto simp: contains_def)
  show "trim_end (''dropped (throttle) '' @ u64_to_string n) = ''dropped (throttle) '' @ u64_to_string n"
    by (rule trim_end_last_plain) (simp_all add: plain_u64 u64_ends)
qed

definition throttle_text :: "config \<Rightarrow> string" where
  "throttle_text cfg =
     (if rate_pps cfg > 0
      then u64_to_string (rate_pps cfg) @ '' pkt/s per source, burst '' @ u64_to_string (burst_pkts cfg)
      else ''disabled'')"

definition bans_text :: "nat \<Rightarrow> nat \<Rightarrow> nat \<Rightarrow> string" where
  "bans_text active capacity stale =
     string_of_nat active @ ''/'' @ string_of_nat capacity @ '' active ('' @ string_of_nat stale @
     '' expired reclaimed)''"

lemma throttle_line_read: "stat_of_line (throttle_stat_line cfg) = Some (''throttle'', throttle_text cfg)"
proof -
  have "throttle_text cfg \<noteq> [] \<and> plain (hd (throttle_text cfg)) \<and> plain (last (throttle_text cfg))"
    by (simp add: throttle_text_def u64_ends plain_u64) (simp add: plain_def)
  moreover have "throttle_stat_line cfg = ''throttle'' @ ''  '' @ replicate 9 (CHR '' '') @ throttle_text cfg"
    by (simp add: throttle_stat_line_def throttle_text_def replicate_pred)
  ultimately show ?thesis
    using stat_of_line_padded [of "''throttle''" "throttle_text cfg" 9]
    by (simp add: contains_def) (simp add: plain_def)
qed

lemma bans_line_read: "stat_of_line (bans_stat_line a c s) = Some (''bans'', bans_text a c s)"
proof -
  have "bans_text a c s \<noteq> [] \<and> plain (hd (bans_text a c s)) \<and> plain (last (bans_text a c s))"
    by (simp add: bans_text_def nat_ends) (simp add: plain_def)
  moreover have "bans_stat_line a c s = ''bans'' @ ''  '' @ replicate 13 (CHR '' '') @ bans_text a c s"
    by (simp add: bans_stat_line_def bans_text_def replicate_pred)
  ultimately show ?thesis
    using stat_of_line_padded [of "''bans''" "bans_text a c s" 13]
    by (simp add: contains_def) (simp add: plain_def)
qed

text \<open>Every line of the report is one line of ASCII text.\<close>

lemma ascii_line: "list_all (\<lambda>ch. 32 \<le> byte ch \<and> byte ch \<le> 126) l \<Longrightarrow> line_ok l \<and> utf8_valid l"
  by (auto simp: line_ok_def list_all_iff intro!: utf8_valid_all_ascii) (use last_in_set in fastforce)+

lemma plain_printable: "list_all plain l \<Longrightarrow> list_all (\<lambda>ch. 32 \<le> byte ch \<and> byte ch \<le> 126) l"
  by (auto simp: list_all_iff plain_def)

lemma stat_line_ok:
  "line_ok (''passed             '' @ u64_to_string n) \<and> utf8_valid (''passed             '' @ u64_to_string n)"
  "line_ok (''dropped (ban)      '' @ u64_to_string n) \<and> utf8_valid (''dropped (ban)      '' @ u64_to_string n)"
  "line_ok (''dropped (throttle) '' @ u64_to_string n) \<and> utf8_valid (''dropped (throttle) '' @ u64_to_string n)"
  "line_ok (''not ipv6           '' @ u64_to_string n) \<and> utf8_valid (''not ipv6           '' @ u64_to_string n)"
  "line_ok (''parse failed       '' @ u64_to_string n) \<and> utf8_valid (''parse failed       '' @ u64_to_string n)"
  "line_ok (throttle_stat_line cfg) \<and> utf8_valid (throttle_stat_line cfg)"
  "line_ok (bans_stat_line a c s) \<and> utf8_valid (bans_stat_line a c s)"
  by (rule ascii_line, simp add: throttle_stat_line_def bans_stat_line_def plain_printable plain_u64 plain_string_of_nat)+

end
