(* ===== verification/Ui_Props.thy ===== *)
theory Ui_Props
  imports Guard_Ui "HOL-Library.Multiset"
begin

text \<open>
  What the dashboard guarantees: it reads and never writes, it opens only logs of configured
  services, every answer is a JSON document, and it does not listen beyond loopback unless
  told to.
\<close>

section \<open>The documents\<close>

lemma response_error_text: "resp_body (response_error c m) = json_text (JObj [(''error'', JStr m)])"
  by (simp only: response_error_def Let_def response.simps json_build)

lemma response_sel [simp]:
  "resp_status (response_json b) = 200" "resp_body (response_json b) = b"
  "resp_status (response_error c m) = c" "resp_status (response_html b) = 200"
  by (simp_all add: response_json_def response_html_def response_error_def Let_def)

definition config_fields :: "args \<Rightarrow> string + uconfig \<Rightarrow> (string \<times> json) list" where
  "config_fields st r =
     (case r of
        Inr cfg \<Rightarrow> [(''services'', JArr (map service_value (services cfg))),
                    (''bind_addr'', JStr (unwrap_or (ucfg_get cfg ''SHIELD_BIND_ADDR'') [])),
                    (''preset'', JStr (unwrap_or (ucfg_get cfg ''SHIELD_PRESET'') ''default'')),
                    (''config_ok'', JBool True)]
      | Inl e \<Rightarrow> [(''services'', JArr []), (''config_ok'', JBool False), (''config_error'', JStr e),
                  (''config_hint'', JStr (hint st ''config''))])"

definition bans_fields :: "args \<Rightarrow> u64 \<Rightarrow> string + ban list \<Rightarrow> (string \<times> json) list" where
  "bans_fields st t r =
     (case r of
        Inr bs \<Rightarrow> [(''ban_count'', JNum (of_nat (length bs))), (''bans_ok'', JBool True),
                   (''bans'', JArr (map (ban_value_json t) (take 20 (recent_bans bs))))]
      | Inl e \<Rightarrow> [(''bans_ok'', JBool False), (''ban_count'', JNum 0), (''bans'', JArr []),
                  (''bans_error'', JStr e), (''bans_hint'', JStr (hint st ''bans''))])"

definition stat_value :: "string \<times> string \<Rightarrow> json" where
  "stat_value kv = (case kv of (k, v) \<Rightarrow> JObj [(''label'', JStr k), (''value'', JStr v)])"

definition guard_fields :: "args \<Rightarrow> bool \<Rightarrow> string + (string \<times> string) list \<Rightarrow> (string \<times> json) list" where
  "guard_fields st installed r =
     (case r of
        Inr stats \<Rightarrow> [(''guard_ok'', JBool True), (''guard'', JArr (map stat_value stats))]
      | Inl e \<Rightarrow> [(''guard_ok'', JBool False), (''guard'', JArr []), (''guard_installed'', JBool installed),
                  (''guard_error'', JStr e), (''guard_hint'', JStr (hint st ''guard''))])"

lemma stat_json_text: "stat_json kv = json_text (stat_value kv)"
  by (cases kv) (simp only: stat_json_def stat_value_def prod.case json_build)

lemmas arr_texts =
  arr_map_text [of service_value, folded service_json_text]
  arr_map_text [of "ban_value_json t" for t, folded ban_json_text]
  arr_map_text [of stat_value, folded stat_json_text]

lemma status_config_text:
  assumes "state_config E st w = (r, w')"
  shows "status_config E st (obj_of kvs) w = (obj_of (kvs @ config_fields st r), w')"
  unfolding status_config_def assms
  by (cases r) (simp_all only: prod.case sum.case Let_def config_fields_def arr_texts empty_array_text json_build)

lemma status_bans_text:
  assumes "bans E (shield_ban_bin st) w = (r, w')" "now_s E w' = (t, w2)"
  shows "status_bans E st (obj_of kvs) w = (obj_of (kvs @ bans_fields st t r), if isl r then w' else w2)"
  unfolding status_bans_def assms
  by (cases r) (simp_all only: prod.case sum.case Let_def bans_fields_def arr_texts empty_array_text json_build
      assms(2) sum.disc if_True if_False)

lemma status_guard_text:
  assumes "guard_stats E (fips_guard_bin st) w = (r, w')" "file_exists E (fips_guard_bin st) w' = (b, w2)"
  shows "status_guard E st (obj_of kvs) w = (obj_of (kvs @ guard_fields st b r), if isl r then w2 else w')"
  unfolding status_guard_def assms
  by (cases r) (simp_all only: prod.case sum.case Let_def guard_fields_def arr_texts empty_array_text json_build
      assms(2) sum.disc if_True if_False)

lemma api_status_text:
  "\<exists>r1 t r2 b r3 t2 w'. api_status E st w =
     (response_json (json_text (JObj (config_fields st r1 @ bans_fields st t r2 @ guard_fields st b r3
        @ [(''now'', JNum t2)]))), w')
   \<and> fst (state_config E st w) = r1 \<and> fst (bans E (shield_ban_bin st) (snd (state_config E st w))) = r2"
proof -
  obtain r1 w1 where 1: "state_config E st w = (r1, w1)" by fastforce
  obtain r2 w2 where 2: "bans E (shield_ban_bin st) w1 = (r2, w2)" by fastforce
  obtain t w3 where 3: "now_s E w2 = (t, w3)" by fastforce
  obtain w4 where 4: "w4 = (if isl r2 then w2 else w3)" by blast
  obtain r3 w5 where 5: "guard_stats E (fips_guard_bin st) w4 = (r3, w5)" by fastforce
  obtain b w6 where 6: "file_exists E (fips_guard_bin st) w5 = (b, w6)" by fastforce
  obtain w7 where 7: "w7 = (if isl r3 then w6 else w5)" by blast
  obtain t2 w8 where 8: "now_s E w7 = (t2, w8)" by fastforce
  have "api_status E st w = (response_json (json_text (JObj (config_fields st r1 @ bans_fields st t r2
      @ guard_fields st b r3 @ [(''now'', JNum t2)]))), w8)"
    unfolding api_status_def obj_build(1) status_config_text [OF 1] Let_def prod.case
      status_bans_text [OF 2 3, folded 4] status_guard_text [OF 5 6, folded 7] 8
    by (simp only: json_build)
  with 1 2 show ?thesis by auto
qed

lemma api_bans_text:
  "\<exists>r t w'. api_bans E st w = (case r of Inl e \<Rightarrow> response_error 500 e
     | Inr bs \<Rightarrow> response_json (json_text (JObj [(''count'', JNum (of_nat (length bs))),
         (''bans'', JArr (map (ban_value_json t) bs))])), w')
   \<and> now_s E w = (t, snd (now_s E w)) \<and> bans E (shield_ban_bin st) (snd (now_s E w)) = (r, w')"
proof -
  obtain t w1 where 1: "now_s E w = (t, w1)" by fastforce
  obtain r w2 where 2: "bans E (shield_ban_bin st) w1 = (r, w2)" by fastforce
  show ?thesis
    by (rule exI [of _ r], rule exI [of _ t], rule exI [of _ w2])
      (cases r, simp_all only: api_bans_def 1 2 prod.case sum.case Let_def arr_texts json_build snd_conv
        simp_thms)
qed

lemma logs_json_text:
  "logs_json svc kind (json_text v) =
     response_json (json_text (JObj [(''service'', JStr svc), (''kind'', JStr kind), (''lines'', v)]))"
  by (simp only: logs_json_def json_build)

lemma api_logs_text:
  "\<exists>v. resp_body (fst (api_logs E st req w)) = json_text v
     \<and> resp_status (fst (api_logs E st req w)) \<in> {200, 400, 404, 500}"
proof -
  have l: "\<exists>v. resp_body (logs_json svc kind ''[]'') = json_text v"
      "\<exists>v. resp_body (logs_json svc kind (str_arr ls)) = json_text v"
      "resp_status (logs_json svc kind x) = 200" for svc kind ls x
    by (simp_all only: empty_array_text str_arr_text logs_json_text response_sel)
      (simp_all only: logs_json_def response_sel, blast+)
  show ?thesis
    using l response_error_text
    by (auto simp: api_logs_def Let_def simp del: json_text.simps split: option.split prod.split sum.split io_error.split)
qed

section \<open>Properties of the answers\<close>

text \<open>C30. Every endpoint but the page answers with one well-formed JSON document, whatever the
  tools printed and whatever was asked, and with one of the status codes the server knows.\<close>

theorem handle_answers_json:
  "req_path req \<in> {''/'', ''/index.html''} \<and> fst (handle page E st req w) = response_html page
   \<or> (\<exists>v. parse_json (resp_body (fst (handle page E st req w))) = Some v)
     \<and> resp_status (fst (handle page E st req w)) \<in> {200, 400, 404, 500}"
proof -
  obtain v where logs: "resp_body (fst (api_logs E st req w)) = json_text v"
      "resp_status (fst (api_logs E st req w)) \<in> {200, 400, 404, 500}"
    using api_logs_text [of E st req w] by (elim exE conjE) simp
  obtain kvs w' where status: "api_status E st w = (response_json (json_text (JObj kvs)), w')"
    using api_status_text [of E st w] by (elim exE conjE) (rule that)
  have bans: "(\<exists>v. resp_body (fst (api_bans E st w)) = json_text v)
      \<and> resp_status (fst (api_bans E st w)) \<in> {200, 500}"
  proof -
    obtain r t w' where "api_bans E st w = (case r of Inl e \<Rightarrow> response_error 500 e
       | Inr bs \<Rightarrow> response_json (json_text (JObj [(''count'', JNum (of_nat (length bs))),
         (''bans'', JArr (map (ban_value_json t) bs))])), w')"
      using api_bans_text [of E st w] by (elim exE conjE) (rule that)
    then show ?thesis
      using response_error_text by (cases r) (auto simp del: json_text.simps)
  qed
  show ?thesis
    using logs status bans response_error_text
    by (auto simp: handle_def simp del: json_text.simps)
qed

text \<open>The bans on the status page: the document carries the number of all bans and the
  twenty that end last, permanent ones first, taken from exactly the bans the tool listed.\<close>

theorem api_status_bans:
  assumes "state_config E st w = (c, w1)" "bans E (shield_ban_bin st) w1 = (Inr bs, w2)"
  shows "\<exists>kvs t. parse_json (resp_body (fst (api_status E st w))) = Some (JObj kvs)
    \<and> map_of kvs ''ban_count'' = Some (JNum (of_nat (length bs)))
    \<and> map_of kvs ''bans'' = Some (JArr (map (ban_value_json t) (take 20 (recent_bans bs))))
    \<and> mset (recent_bans bs) = mset bs
    \<and> sorted_wrt (\<lambda>a b. ban_until a = 0 \<or> (ban_until b \<noteq> 0 \<or> ban_until a = - 1) \<and> ban_until b \<le> ban_until a) (recent_bans bs)"
proof -
  obtain t b r3 t2 w' where s: "api_status E st w = (response_json (json_text (JObj (config_fields st c
      @ bans_fields st t (Inr bs) @ guard_fields st b r3 @ [(''now'', JNum t2)]))), w')"
    using api_status_text [of E st w] assms by auto
  let ?kvs = "config_fields st c @ bans_fields st t (Inr bs) @ guard_fields st b r3 @ [(''now'', JNum t2)]"
  have "map_of (config_fields st c) ''ban_count'' = None" "map_of (config_fields st c) ''bans'' = None"
    by (simp_all add: config_fields_def split: sum.split)
  then have kv: "map_of ?kvs ''ban_count'' = Some (JNum (of_nat (length bs)))"
      "map_of ?kvs ''bans'' = Some (JArr (map (ban_value_json t) (take 20 (recent_bans bs))))"
    by (simp_all add: map_add_def bans_fields_def)
  have "sorted_wrt (\<lambda>a b. ban_order b \<le> ban_order a) (recent_bans bs)"
    unfolding recent_bans_def sorted_wrt_rev using sorted_sort_key [of ban_order bs]
    by (simp add: sorted_map)
  moreover have "ban_until a = 0 \<or> (ban_until b \<noteq> 0 \<or> ban_until a = - 1) \<and> ban_until b \<le> ban_until a"
    if "ban_order b \<le> ban_order a" for a b
    using that by (auto simp: ban_order_def word_order.extremum_unique split: if_splits)
  ultimately have "sorted_wrt (\<lambda>a b. ban_until a = 0 \<or> (ban_until b \<noteq> 0 \<or> ban_until a = - 1) \<and> ban_until b \<le> ban_until a) (recent_bans bs)"
    by (rule sorted_wrt_mono_rel [rotated]) blast
  then show ?thesis
    using s kv by (intro exI [of _ ?kvs] exI [of _ t]) (simp add: recent_bans_def del: json_text.simps)
qed

theorem api_status_bans_witness:
  "\<exists>kvs t. parse_json (resp_body (fst (api_status (node_env 2 ''/p'') demo_args demo_node))) = Some (JObj kvs)
     \<and> map_of kvs ''ban_count'' = Some (JNum 1)"
proof -
  obtain out w2 where ex: "exec (node_env 2 ''/p'') ''shield-ban'' [''list''] demo_node = (Inr out, w2)" "success out"
      "out_bytes out = print_lines (map ban_line [([0xFD00, 0, 0, 0, 0, 0, 0, 1], 1100)])"
    using demo_bans_exec by (metis cmd_output.select_convs(1,3))
  have "bans (node_env 2 ''/p'') ''shield-ban'' demo_node =
      (Inr (map (\<lambda>(a, u). \<lparr>ban_addr = ipv6_to_string a, ban_until = u\<rparr>) [([0xFD00, 0, 0, 0, 0, 0, 0, 1], 1100)]), w2)"
    by (rule bans_reads_lines [OF ex(1,2) _ ex(3)]) auto
  then have b: "bans (node_env 2 ''/p'') (shield_ban_bin demo_args) demo_node =
      (Inr [\<lparr>ban_addr = ipv6_to_string [0xFD00, 0, 0, 0, 0, 0, 0, 1], ban_until = 1100\<rparr>], w2)"
    by (simp add: demo_args_def)
  have len: "of_nat (length [x]) = (1 :: u64)" for x :: ban by simp
  show ?thesis
    using api_status_bans [OF demo_state_config b] unfolding len by blast
qed

section \<open>Read-only by construction\<close>

text \<open>
  Two environments that agree on the query verbs, the clock, the guard's own path and the
  logs of the configured services.
\<close>

definition agree :: "args \<Rightarrow> 'w env \<Rightarrow> 'w env \<Rightarrow> 'w \<Rightarrow> bool" where
  "agree st E E' w \<longleftrightarrow>
     (\<forall>f \<in> {[''show'', ''--porcelain''], [''show'', ''--porcelain'', ''-f'', unwrap_or (env_file st) []]}.
        exec E (shield_config_bin st) f = exec E' (shield_config_bin st) f)
     \<and> exec E (shield_ban_bin st) [''list''] = exec E' (shield_ban_bin st) [''list'']
     \<and> exec E (fips_guard_bin st) [''stats''] = exec E' (fips_guard_bin st) [''stats'']
     \<and> wall_clock E = wall_clock E' \<and> file_exists E (fips_guard_bin st) = file_exists E' (fips_guard_bin st)
     \<and> seek_end E = seek_end E' \<and> read_exact E = read_exact E'
     \<and> (\<forall>svc \<in> set (fst (known_services E st w)). \<forall>kind \<in> {''access'', ''stream''}.
          file_open E (log_path (log_dir st) svc kind) = file_open E' (log_path (log_dir st) svc kind))"

lemma run_agree: "exec E bin args = exec E' bin args \<Longrightarrow> run E bin args w = run E' bin args w"
  by (simp add: run_def)

lemma state_config_agree: "agree st E E' w \<Longrightarrow> state_config E st v = state_config E' st v"
  by (cases "env_file st")
    (simp_all add: agree_def state_config_def config_load_def to_str_def unwrap_or_def run_def)

lemma bans_agree: "agree st E E' w \<Longrightarrow> bans E (shield_ban_bin st) v = bans E' (shield_ban_bin st) v"
  by (auto simp: agree_def bans_def to_str_def run_def)

lemma guard_stats_agree: "agree st E E' w \<Longrightarrow> guard_stats E (fips_guard_bin st) v = guard_stats E' (fips_guard_bin st) v"
  by (auto simp: agree_def guard_stats_def to_str_def run_def)

lemma now_s_agree: "agree st E E' w \<Longrightarrow> now_s E v = now_s E' v"
  by (simp add: agree_def now_s_def)

lemma api_logs_agree:
  assumes "agree st E E' w"
  shows "api_logs E st req w = api_logs E' st req w"
proof -
  have k: "known_services E' st w = known_services E st w"
    using state_config_agree [OF assms] by (simp add: known_services_def)
  have t: "tail E (log_path (log_dir st) svc kind) = tail E' (log_path (log_dir st) svc kind)"
    if "svc \<in> set (fst (known_services E st w)) \<and> (kind = ''access'' \<or> kind = ''stream'')" for svc kind
    using assms that by (auto simp: agree_def tail_def fun_eq_iff)
  show ?thesis
  proof (cases "param req ''service''")
    case (Some svc)
    let ?kind = "unwrap_or (param req ''kind'') ''stream''"
    show ?thesis
    proof (cases "svc \<in> set (fst (known_services E st w)) \<and> (?kind = ''access'' \<or> ?kind = ''stream'')")
      case True
      show ?thesis unfolding api_logs_def k Some option.case Let_def t [OF True] by (rule refl)
    next
      case False
      with Some show ?thesis by (auto simp: api_logs_def k Let_def split_beta list_ex_iff)
    qed
  qed (simp add: api_logs_def)
qed

text \<open>C25. Read-only: the answer to a request and the state it leaves depend on nothing but the
  query verbs \<open>show --porcelain\<close>, \<open>list\<close> and \<open>stats\<close>, the clock, and the logs of configured
  services. No request can make the server run another command or open another file.\<close>

theorem handle_read_only:
  assumes "agree st E E' w"
  shows "handle page E st req w = handle page E' st req w"
proof -
  note a = state_config_agree [OF assms] bans_agree [OF assms] guard_stats_agree [OF assms] now_s_agree [OF assms]
  have ex: "file_exists E (fips_guard_bin st) = file_exists E' (fips_guard_bin st)"
    using assms by (simp add: agree_def)
  have "status_config E st = status_config E' st" "status_bans E st = status_bans E' st"
      "status_guard E st = status_guard E' st" "now_s E = now_s E'"
    unfolding fun_eq_iff status_config_def status_bans_def status_guard_def a ex by simp_all
  then have "api_status E st w = api_status E' st w"
    by (simp add: api_status_def)
  moreover have "api_bans E st w = api_bans E' st w"
    by (simp add: api_bans_def a)
  ultimately show ?thesis
    using api_logs_agree [OF assms] by (simp add: handle_def)
qed

text \<open>An environment in which every other command and every other file differs.\<close>

theorem handle_read_only_witness:
  "handle ''page'' (node_env 2 ''/p'') demo_args \<lparr>req_path = ''/api/logs'', req_query = [(''service'', ''../../etc/passwd'')]\<rparr> demo_node
   = handle ''page''
       ((node_env 2 ''/p'')\<lparr>file_open := (\<lambda>path nd. if path = ''/log/shield-ssh.stream.log'' \<or> path = ''/log/shield-ssh.access.log''
          then file_open (node_env 2 ''/p'') path nd else (Inr 7, nd\<lparr>n_files := []\<rparr>))\<rparr>)
       demo_args \<lparr>req_path = ''/api/logs'', req_query = [(''service'', ''../../etc/passwd'')]\<rparr> demo_node"
  by (rule handle_read_only)
    (simp add: agree_def demo_known, simp add: demo_args_def log_path_def path_join_def fun_eq_iff)

section \<open>Configuration and services\<close>

text \<open>The configuration the tool prints is read back entry by entry, in order, and a value
  keeps the tabs it contains.\<close>

theorem config_load_roundtrip:
  assumes "exec E bin (case ef of None \<Rightarrow> [''show'', ''--porcelain''] | Some f \<Rightarrow> [''show'', ''--porcelain'', ''-f'', f]) w
      = (Inr out, w')"
    and "success out" "out_bytes out = print_lines (map (\<lambda>(s, k, v). s @ tab # k @ tab # v) es)"
    and "\<And>s k v. (s, k, v) \<in> set es \<Longrightarrow> tab \<notin> set s \<and> tab \<notin> set k
        \<and> line_ok (s @ tab # k @ tab # v) \<and> utf8_valid (s @ tab # k @ tab # v)"
    and "utf8_valid bin" "\<And>f. ef = Some f \<Longrightarrow> utf8_valid f"
  shows "config_load E bin ef w = (Inr \<lparr>entries = es\<rparr>, w')"
  by (rule config_load_lines [OF assms])

theorem config_load_roundtrip_witness:
  "config_load (node_env 2 ''/p'') ''shield-config'' None demo_node = (Inr \<lparr>entries = demo_entries\<rparr>, demo_node)"
proof (rule config_load_roundtrip)
  show "exec (node_env 2 ''/p'') ''shield-config''
      (case None of None \<Rightarrow> [''show'', ''--porcelain''] | Some f \<Rightarrow> [''show'', ''--porcelain'', ''-f'', f]) demo_node
    = (Inr \<lparr>success = True, status_text = ''exit status: 0'', out_bytes = print_lines demo_config, err_bytes = []\<rparr>, demo_node)"
    by (simp add: node_env_def node_exec_def demo_node_def)
  show "out_bytes \<lparr>success = True, status_text = ''exit status: 0'', out_bytes = print_lines demo_config, err_bytes = []\<rparr>
      = print_lines (map (\<lambda>(s, k, v). s @ tab # k @ tab # v) demo_entries)"
    by (simp add: demo_config_def demo_entries_def)
  show "tab \<notin> set s \<and> tab \<notin> set k \<and> line_ok (s @ tab # k @ tab # v) \<and> utf8_valid (s @ tab # k @ tab # v)"
    if "(s, k, v) \<in> set demo_entries" for s k v
    using that by (auto simp: demo_entries_def line_ok_def)
qed simp_all

text \<open>The profiles a key is a limit of, at most one.\<close>

lemma relevant_unique: "relevant_to k p \<Longrightarrow> relevant_to k q \<Longrightarrow> p = q"
  by (auto simp: relevant_to_def starts_with_iff split: if_splits)

text \<open>The services on the page: one per configured profile, in order; a limit shown for a
  service is an entry of the configuration that belongs to its profile, and no limit is shown
  for two different profiles.\<close>

theorem services_limits_separate:
  "map svc_profile (services cfg) = profiles cfg
   \<and> (\<forall>s \<in> set (services cfg). \<forall>k v src. (k, v, src) \<in> set (limits s) \<longleftrightarrow>
        (src, k, v) \<in> set (entries cfg) \<and> is_limit k \<and> relevant_to k (svc_profile s))
   \<and> (\<forall>s \<in> set (services cfg). \<forall>s' \<in> set (services cfg).
        fst ` set (limits s) \<inter> fst ` set (limits s') \<noteq> {} \<longrightarrow> svc_profile s = svc_profile s')"
proof -
  have prof: "svc_profile (service_of cfg p) = p" for p
    by (simp add: service_of_def split_beta)
  have lim: "(k, v, src) \<in> set (limits (service_of cfg p)) \<longleftrightarrow>
      (src, k, v) \<in> set (entries cfg) \<and> is_limit k \<and> relevant_to k p" for k v src p
    by (force simp: service_of_def split_beta)
  have "p = q" if "k \<in> fst ` set (limits (service_of cfg p))" "k \<in> fst ` set (limits (service_of cfg q))" for k p q
    using that lim relevant_unique by fastforce
  then show ?thesis
    by (auto simp: services_def prof lim map_idI)
qed

theorem services_limits_separate_witness:
  "svc_profile (service_of \<lparr>entries = demo_entries\<rparr> ''tcp'') = ''tcp''
   \<and> (''SHIELD_TCP_CONN_RATE'', ''10'', ''preset:tcp/strict'') \<in> set (limits (service_of \<lparr>entries = demo_entries\<rparr> ''tcp''))"
proof -
  have s: "services \<lparr>entries = demo_entries\<rparr> = [service_of \<lparr>entries = demo_entries\<rparr> ''tcp'']"
    by (simp add: services_def demo_profiles)
  have "is_limit ''SHIELD_TCP_CONN_RATE''" "relevant_to ''SHIELD_TCP_CONN_RATE'' ''tcp''"
    by (simp_all add: is_limit_def contains_def relevant_to_def)
  then show ?thesis
    using services_limits_separate [of "\<lparr>entries = demo_entries\<rparr>"]
    by (simp add: s demo_profiles) (simp add: demo_entries_def)
qed

section \<open>Logs\<close>



section \<open>Start-up\<close>

text \<open>C38. The socket: the dashboard listens only on an address that parses and that is a loopback
  address unless the operator asked otherwise, and then it warns; in every other case it ends
  with an error and no socket is opened, whatever binding would have done.\<close>

theorem ui_start_loopback:
  "(\<forall>l notes w'. ui_start tcp_bind a w = (Inr (l, notes), w') \<longrightarrow>
      (\<exists>addr. parse_socket_addr (bind_to a) = Some addr \<and> tcp_bind addr w = (Inr l, w')
         \<and> (is_loopback (sock_ip addr) \<or> insecure_bind a)
         \<and> (Warning_Routable \<in> set notes \<longleftrightarrow> \<not> is_loopback (sock_ip addr))))
   \<and> (\<not> insecure_bind a \<and> (\<forall>addr. parse_socket_addr (bind_to a) = Some addr \<longrightarrow> \<not> is_loopback (sock_ip addr)) \<longrightarrow>
      (\<exists>e. ui_start tcp_bind a w = (Inl e, w)))"
  by (auto simp: ui_start_def Let_def bind_ok_Inr context_err_def split: option.splits prod.splits sum.splits if_splits)

theorem ui_start_loopback_witness:
  "\<exists>e. ui_start (\<lambda>addr nd. (Inr addr, nd)) (demo_args\<lparr>bind_to := ''10.0.0.1:80''\<rparr>) demo_node = (Inl e, demo_node)"
proof -
  have "parse_socket_addr ''10.0.0.1:80'' = Some \<lparr>sock_ip = V4 [10, 0, 0, 1], sock_port = 80\<rparr>"
    by (simp add: parse_socket_addr_def read_socket_addr_def read_port_def parse_eval)
  then show ?thesis
    using ui_start_loopback [of "\<lambda>addr nd. (Inr addr, nd)" "demo_args\<lparr>bind_to := ''10.0.0.1:80''\<rparr>" demo_node]
    by (simp add: demo_args_def)
qed

end
