(* ===== verification/Build_Script.thy ===== *)
theory Build_Script
  imports Rust_Str
begin

text \<open>
  The build script of the guard (\<open>guard/build.rs\<close>): which compiler it picks and how it is
  called. The environment variables, the directories on \<open>PATH\<close> and the processes are
  parameters. A panic is an error value.
\<close>

section \<open>The script\<close>

record 'w build_host =
  env_var :: "string \<Rightarrow> string option"
  env_path_dirs :: "string list option"
  read_dir :: "string \<Rightarrow> string list option"
  is_dir :: "string \<Rightarrow> bool"
  spawn :: "string \<Rightarrow> string list \<Rightarrow> 'w \<Rightarrow> (string + bool) \<times> 'w"
  copy_file :: "string \<Rightarrow> string \<Rightarrow> 'w \<Rightarrow> (string + unit) \<times> 'w"

datatype build_error =
    OutDirMissing
  | CannotCopy string string
  | NoWorkingClang "string list"
  | FailedToRun string string
  | ClangFailed string

text \<open>One entry of a directory: a compiler if its name is \<open>clang-\<close> and a bare number.\<close>

definition clang_version :: "string \<Rightarrow> u32 option" where
  "clang_version name = Option.bind (strip_prefix ''clang-'' name) parse_u32"

fun scan_entries :: "(u32 \<times> string) list \<Rightarrow> string list \<Rightarrow> (u32 \<times> string) list" where
  "scan_entries versioned [] = versioned"
| "scan_entries versioned (name0 # names) =
     (let name = from_utf8_lossy name0 in
      case clang_version name of
        None \<Rightarrow> scan_entries versioned names
      | Some v \<Rightarrow>
          if \<not> list_ex (\<lambda>(_, seen). seen = name) versioned
          then scan_entries (versioned @ [(v, name)]) names
          else scan_entries versioned names)"

fun scan_dirs :: "'w build_host \<Rightarrow> (u32 \<times> string) list \<Rightarrow> string list \<Rightarrow> (u32 \<times> string) list" where
  "scan_dirs B versioned [] = versioned"
| "scan_dirs B versioned (dir # dirs) =
     (case read_dir B dir of
        None \<Rightarrow> scan_dirs B versioned dirs
      | Some names \<Rightarrow> scan_dirs B (scan_entries versioned names) dirs)"

text \<open>\<open>sort_by_key\<close> with \<open>Reverse\<close> is stable: equal versions keep their order on \<open>PATH\<close>.\<close>

definition clang_candidates :: "'w build_host \<Rightarrow> string list" where
  "clang_candidates B =
     (let versioned = (case env_path_dirs B of None \<Rightarrow> [] | Some dirs \<Rightarrow> scan_dirs B [] dirs)
      in ''clang'' # map snd (sort_key (\<lambda>e. - int (unat (fst e))) versioned))"

fun pick_clang :: "'w build_host \<Rightarrow> string list \<Rightarrow> 'w \<Rightarrow> string option \<times> 'w" where
  "pick_clang B [] w = (None, w)"
| "pick_clang B (candidate # cs) w =
     (case spawn B candidate [''--version''] w of
        (r, w) \<Rightarrow>
          if (case r of Inl _ \<Rightarrow> False | Inr ok \<Rightarrow> ok) then (Some candidate, w) else pick_clang B cs w)"

definition multiarch_include_dirs :: "'w build_host \<Rightarrow> string list" where
  "multiarch_include_dirs B =
     (let arch = (case env_var B ''CARGO_CFG_TARGET_ARCH'' of None \<Rightarrow> [] | Some a \<Rightarrow> a);
          triples =
            (if arch = ''arm'' then [''arm-linux-gnueabihf'', ''arm-linux-gnueabi'']
             else if arch = ''x86_64'' then [''x86_64-linux-gnu'']
             else if arch = ''aarch64'' then [''aarch64-linux-gnu'']
             else if arch = ''riscv64'' then [''riscv64-linux-gnu'']
             else if arch = ''powerpc64'' then [''powerpc64le-linux-gnu'']
             else [])
      in map (path_join ''/usr/include'') triples)"

definition clang_args :: "'w build_host \<Rightarrow> string \<Rightarrow> string list" where
  "clang_args B out =
     [''-O2'', ''-g'', ''-target'', ''bpf'', ''-Wall'', ''-Werror'', ''-c'', ''bpf/shield_guard.bpf.c'', ''-o'', out]
     @ map (\<lambda>dir. ''-I'' @ dir) (filter (is_dir B) (multiarch_include_dirs B))"

definition build_main :: "'w build_host \<Rightarrow> 'w \<Rightarrow> (build_error + unit) \<times> 'w" where
  "build_main B w =
     (case env_var B ''OUT_DIR'' of
        None \<Rightarrow> (Inl OutDirMissing, w)
      | Some d \<Rightarrow>
          (let out = path_join d ''shield_guard.bpf.o'' in
           case env_var B ''SHIELD_GUARD_BPF_OBJ'' of
             Some prebuilt \<Rightarrow> context_err (CannotCopy prebuilt) (copy_file B prebuilt out w)
           | None \<Rightarrow>
               (let candidates = (case env_var B ''CLANG'' of Some explicit \<Rightarrow> [explicit] | None \<Rightarrow> clang_candidates B) in
                case pick_clang B candidates w of
                  (None, w) \<Rightarrow> (Inl (NoWorkingClang candidates), w)
                | (Some clang, w) \<Rightarrow>
                    bind_ok (context_err (FailedToRun clang) (spawn B clang (clang_args B out) w)) (\<lambda>ok w.
                    if ok then (Inr (), w) else (Inl (ClangFailed clang), w)))))"

section \<open>The candidates\<close>

text \<open>What the scan of a list of names adds: each compiler once, with its version.\<close>

definition compilers_ok :: "(u32 \<times> string) list \<Rightarrow> bool" where
  "compilers_ok vs \<longleftrightarrow> distinct (map snd vs) \<and> (\<forall>(v, n) \<in> set vs. clang_version n = Some v)"

lemma scan_entries_ok:
  "compilers_ok vs \<Longrightarrow> compilers_ok (scan_entries vs names)
     \<and> snd ` set (scan_entries vs names)
       = snd ` set vs \<union> {n \<in> from_utf8_lossy ` set names. clang_version n \<noteq> None}"
proof (induction vs names rule: scan_entries.induct)
  case (1 vs)
  then show ?case by simp
next
  case (2 vs name0 names)
  let ?name = "from_utf8_lossy name0"
  show ?case
  proof (cases "clang_version ?name")
    case None
    with 2 show ?thesis by auto
  next
    case (Some v)
    show ?thesis
    proof (cases "list_ex (\<lambda>(_, seen). seen = ?name) vs")
      case True
      then have "?name \<in> snd ` set vs" by (force simp: list_ex_iff)
      with 2 Some True show ?thesis by auto
    next
      case False
      then have "?name \<notin> snd ` set vs" by (force simp: list_ex_iff)
      with 2(4) Some have "compilers_ok (vs @ [(v, ?name)])" by (auto simp: compilers_ok_def)
      with 2(2) [OF refl Some False] Some False show ?thesis by auto
    qed
  qed
qed

lemma scan_dirs_ok:
  "compilers_ok vs \<Longrightarrow> compilers_ok (scan_dirs B vs dirs)
     \<and> snd ` set (scan_dirs B vs dirs) = snd ` set vs \<union>
       {n. \<exists>d \<in> set dirs. \<exists>names. read_dir B d = Some names \<and> n \<in> from_utf8_lossy ` set names \<and> clang_version n \<noteq> None}"
proof (induction dirs arbitrary: vs)
  case (Cons d dirs)
  show ?case
  proof (cases "read_dir B d")
    case None
    with Cons show ?thesis by auto
  next
    case (Some names)
    have e: "compilers_ok (scan_entries vs names)"
        "snd ` set (scan_entries vs names) = snd ` set vs \<union> {n \<in> from_utf8_lossy ` set names. clang_version n \<noteq> None}"
      using scan_entries_ok [OF Cons.prems] by blast+
    show ?thesis
      using Cons.IH [OF e(1)] e(2) Some by auto
  qed
qed simp

section \<open>Properties of the script\<close>

text \<open>The compilers tried: plain \<open>clang\<close> first, then each name on \<open>PATH\<close> that is \<open>clang-\<close> and
  a number, once, from the highest version down, and nothing else.\<close>

theorem clang_candidates_order:
  "\<exists>vs. clang_candidates B = ''clang'' # map snd vs
    \<and> distinct (map snd vs) \<and> sorted_wrt (\<lambda>a b. fst b \<le> fst a) vs
    \<and> (\<forall>(v, n) \<in> set vs. clang_version n = Some v)
    \<and> snd ` set vs = {n. \<exists>dirs names d. env_path_dirs B = Some dirs \<and> d \<in> set dirs \<and> read_dir B d = Some names
        \<and> n \<in> from_utf8_lossy ` set names \<and> clang_version n \<noteq> None}"
proof -
  let ?vs = "case env_path_dirs B of None \<Rightarrow> [] | Some dirs \<Rightarrow> scan_dirs B [] dirs"
  let ?s = "sort_key (\<lambda>e. - int (unat (fst e))) ?vs"
  have "compilers_ok []" by (simp add: compilers_ok_def)
  then have ok: "compilers_ok ?vs" "snd ` set ?vs = {n. \<exists>dirs names d. env_path_dirs B = Some dirs \<and> d \<in> set dirs
      \<and> read_dir B d = Some names \<and> n \<in> from_utf8_lossy ` set names \<and> clang_version n \<noteq> None}"
  proof (atomize (full), cases "env_path_dirs B")
    case (Some dirs)
    show "compilers_ok [] \<Longrightarrow> compilers_ok ?vs \<and> snd ` set ?vs = {n. \<exists>dirs names d. env_path_dirs B = Some dirs
      \<and> d \<in> set dirs \<and> read_dir B d = Some names \<and> n \<in> from_utf8_lossy ` set names \<and> clang_version n \<noteq> None}"
      using scan_dirs_ok [of "[]" B dirs] by (simp add: Some) blast
  qed simp
  have "sorted_wrt (\<lambda>a b. - int (unat (fst a)) \<le> - int (unat (fst b))) ?s"
    using sorted_sort_key [of "\<lambda>e. - int (unat (fst e))" ?vs] by (simp add: sorted_map)
  then have "sorted_wrt (\<lambda>a b. fst b \<le> fst a) ?s"
    by (rule sorted_wrt_mono_rel [rotated]) (simp add: word_le_def)
  moreover have "distinct (map snd ?s)"
    using ok(1) unfolding compilers_ok_def distinct_map set_sort distinct_sort by blast
  ultimately show ?thesis
    using ok by (intro exI [of _ ?s]) (simp add: clang_candidates_def Let_def compilers_ok_def)
qed

theorem clang_candidates_order_witness:
  "\<exists>vs. clang_candidates \<lparr>env_var = Map.empty, env_path_dirs = Some [''/bin''],
       read_dir = (\<lambda>d. Some [''clang-18'', ''clang-tidy'', ''clang-19'']), is_dir = (\<lambda>_. False),
       spawn = (\<lambda>b a w. (Inr True, w)), copy_file = (\<lambda>a b w. (Inr (), w))\<rparr>
     = ''clang'' # map snd (vs :: (u32 \<times> string) list) \<and> sorted_wrt (\<lambda>a b. fst b \<le> fst a) vs \<and> ''clang-19'' \<in> snd ` set vs"
proof -
  let ?B = "\<lparr>env_var = Map.empty, env_path_dirs = Some [''/bin''],
       read_dir = (\<lambda>d. Some [''clang-18'', ''clang-tidy'', ''clang-19'']), is_dir = (\<lambda>_. False),
       spawn = (\<lambda>b a w. (Inr True, w)), copy_file = (\<lambda>a b w. (Inr (), w))\<rparr>"
  have v: "clang_version ''clang-19'' \<noteq> None"
    by (simp add: clang_version_def strip_prefix_def parse_u32_def from_str_radix_def to_digit_def)
  have "from_utf8_lossy ''clang-19'' = ''clang-19''" by simp
  then have "''clang-19'' \<in> {n. \<exists>dirs names d. env_path_dirs ?B = Some dirs \<and> d \<in> set dirs \<and> read_dir ?B d = Some names
        \<and> n \<in> from_utf8_lossy ` set names \<and> clang_version n \<noteq> None}"
    using v by force
  then show ?thesis
    using clang_candidates_order [of ?B] by (elim exE conjE) blast
qed

text \<open>C40. The compiler used: with probing that leaves the machine as it is, the first candidate
  that runs, and none only when none runs; a compiler the operator names is the only one tried,
  so a build never falls back silently to another.\<close>

theorem build_compiler:
  assumes "\<And>c w. spawn B c [''--version''] w = (probe c, w)"
  shows "pick_clang B cs w = (find (\<lambda>c. probe c = Inr True) cs, w)
    \<and> (\<forall>c. env_var B ''CLANG'' = Some c \<and> env_var B ''SHIELD_GUARD_BPF_OBJ'' = None \<and> build_main B w = (Inr (), w') \<longrightarrow>
        (\<exists>d. env_var B ''OUT_DIR'' = Some d \<and> probe c = Inr True
          \<and> spawn B c (clang_args B (path_join d ''shield_guard.bpf.o'')) w = (Inr True, w')))"
proof -
  have pick: "pick_clang B cs v = (find (\<lambda>c. probe c = Inr True) cs, v)" for cs v
  proof (induction cs)
    case (Cons c cs)
    then show ?case by (cases "probe c") (auto simp: assms)
  qed simp
  then show ?thesis
    by (auto simp: build_main_def Let_def bind_ok_Inr context_err_def split: option.splits if_splits prod.splits sum.splits)
qed

theorem build_compiler_witness:
  "pick_clang \<lparr>env_var = Map.empty, env_path_dirs = None, read_dir = Map.empty, is_dir = (\<lambda>_. False),
       spawn = (\<lambda>b a w. (Inr (b = ''clang-19''), w)), copy_file = (\<lambda>a b w. (Inr (), w))\<rparr>
     [''clang'', ''clang-19'', ''clang-18''] () = (Some ''clang-19'', ())"
proof -
  let ?B = "\<lparr>env_var = Map.empty, env_path_dirs = None, read_dir = Map.empty, is_dir = (\<lambda>_. False),
       spawn = (\<lambda>b a w. (Inr (b = ''clang-19''), w)), copy_file = (\<lambda>a b w. (Inr (), w))\<rparr> :: unit build_host"
  have "\<And>c w. spawn ?B c [''--version''] w = (Inr (c = ''clang-19''), w)" by simp
  from build_compiler [of ?B, OF this] show ?thesis by auto
qed

end
