(* ===== verification/Spec2Isabelle.thy ===== *)
theory Spec2Isabelle
  imports Unit_Tests Config_Props Ws_Session Ws_Frames Ws_Ban Guard_Props Guard_Contract File_Contract Ui_Props System Build_Script
begin

text \<open>
  A verification library for fips-shield, which keeps banned nodes off a mesh network: the eBPF
  guard that drops and throttles their packets on the interface, the ban list on disk with the
  engines inside nginx that read it, the tool that resolves the configuration, and the read-only
  dashboard beside them.

  \<^bold>\<open>The program and its parts.\<close> A tc ingress classifier (\<open>guard/bpf/shield_guard.bpf.c\<close>) looks up
  the source address of each packet in the map \<open>shield_bans\<close>, then meters it with a token
  bucket in \<open>shield_throttle\<close>, and counts what it did in \<open>shield_stats\<close>. The CLI \<open>fips-guard\<close>
  (\<open>guard/src/main.rs\<close>) loads and attaches the classifier, edits the pinned maps (\<open>ban\<close>,
  \<open>unban\<close>, \<open>check\<close>, \<open>list\<close>, \<open>throttle\<close>), reports (\<open>stats\<close>, \<open>status\<close>, \<open>health\<close>) and repairs a lost
  attachment (\<open>watchdog\<close>), publishing a heartbeat in \<open>shield_health\<close>. \<open>guard/build.rs\<close> compiles the
  classifier. Where there is no guard, the script \<open>core/actions/shield-ban\<close> offers the same verbs
  on a text file; nginx reads that file through two modules, \<open>core/njs/shield_core.js\<close>, which
  refuses connections, and \<open>core/njs/shield_ws.js\<close>, which inspects the messages of WebSocket
  sessions and cuts the session of a client banned meanwhile. The script \<open>bin/shield-config\<close>
  lays the operator's values over the presets. The dashboard \<open>shield-ui\<close> (\<open>ui/src\<close>) runs the query
  verbs of these tools, reads logs, and serves JSON over a small HTTP server. The programs meet
  in the maps (CLI and classifier), in the file (\<open>shield-ban\<close> and nginx) and in the text the
  tools print (the tools and the dashboard).

  \<^bold>\<open>Theories, shared.\<close>
  \<^item> \<open>Prelude\<close>: machine integers and saturating arithmetic, results with the \<open>?\<close> operator, lists.
  \<^item> \<open>Rust_Str\<close>: the operations of \<open>str\<close> and \<open>u8\<close> slices the sources call, on UTF-8 bytes, and
    their laws (lines, splitting, white space, lossy decoding, decimal numbers).
  \<^item> \<open>Net_Addr\<close>: \<open>IpAddr\<close> and \<open>SocketAddr\<close> parsing and printing of the standard library.
  \<^item> \<open>Ban_Contract\<close>: what a backend for bans promises, as an abstract machine (a partial function
    from addresses to expiries, bans, unbans, reads and time) and a locale of simulations.

  \<^bold>\<open>Theories of the guard.\<close>
  \<^item> \<open>Classifier\<close>: \<open>guard/bpf/shield_guard.bpf.c\<close>; the verdict on a packet and the token bucket,
    with the wrap-around of 64-bit arithmetic.
  \<^item> \<open>Guard\<close>: \<open>guard/src/main.rs\<close>; every command with all its system calls over a record \<open>host\<close> of
    calls that may fail, on a process state with what was printed.
  \<^item> \<open>Guard_Table\<close>: the contract \<open>ban_table\<close> of a BPF hash map of fixed capacity, and \<open>ban\<close>, \<open>unban\<close>,
    \<open>check\<close> and \<open>list\<close> verified against it as operations on a partial function.
  \<^item> \<open>Guard_Load\<close>: the contract \<open>load_host\<close> of the loader; \<open>load\<close> and \<open>watchdog\<close>.
  \<^item> \<open>Guard_Frame\<close>: what every command preserves (\<open>host_frame\<close>, \<open>host_invariant\<close>).
  \<^item> \<open>Guard_Host\<close>: a machine whose pinned maps are the classifier's maps; it discharges the
    contracts of the guard and carries the examples.
  \<^item> \<open>Guard_Props\<close>: what the commands guarantee, error paths included.
  \<^item> \<open>System\<close>: commands, packets and the passing of time interleaved on one machine, as a step
    relation with its reachable states. \<open>Guard_Contract\<close>: this machine refines \<open>Ban_Contract\<close>.
  \<^item> \<open>Build_Script\<close>: \<open>guard/build.rs\<close>; which compiler is tried and used.

  \<^bold>\<open>Theories of the ban list.\<close>
  \<^item> \<open>Ban_File\<close>: \<open>core/actions/shield-ban\<close>; every verb with the shell's arithmetic, its pipelines and
    its early exits. \<open>Ban_Store\<close>: the text of the list as a partial function, verb by verb.
  \<^item> \<open>Shield_Core\<close>: \<open>core/njs/shield_core.js\<close>; the cached reader of the list, the policy of a server,
    the connection limit and the access hook. \<open>File_Contract\<close>: script, readers and time refine
    \<open>Ban_Contract\<close>, and the readers agree; the bound of the connection limit.
  \<^item> \<open>Shield_Ws\<close>: \<open>core/njs/shield_ws.js\<close>; the handshake sniffer, the frame parser and its queue, the
    checks on messages, and both callbacks. \<open>Ws_Props\<close>, \<open>Ws_Session\<close>, \<open>Ws_Bounds\<close>, \<open>Ws_Frames\<close>: the
    frame loop ends, only inspected frames are forwarded and without gaps, the session stays
    within its bounds, frames are read back. \<open>Ws_Segments\<close>: how the bytes are cut does not matter.
    \<open>Ws_Ban\<close>: a ban reaches established sessions.

  \<^bold>\<open>Theories of configuration and dashboard.\<close>
  \<^item> \<open>Config_Tool\<close>: \<open>bin/shield-config\<close>; every command and option. \<open>Config_Props\<close>: custom over preset,
    all or nothing, what the shell and the dashboard make of its output; the contract \<open>config_env\<close>
    of the tools it calls.
  \<^item> \<open>Json\<close>: \<open>ui/src/json.rs\<close>; the contract \<open>json_builder\<close> of the object builder, interpreted on
    \<open>Obj\<close>, and a JSON reader as the specification: what is written is read back.
  \<^item> \<open>Http\<close>: \<open>ui/src/http.rs\<close>; percent-decoding, the bounded request reader, the response
    writer and the accept loop.
  \<^item> \<open>Collect\<close>: \<open>ui/src/collect.rs\<close>; configuration, services, bans, counters and log tails; the
    contract \<open>log_files\<close> of the files it reads.
  \<^item> \<open>Ui_Main\<close>, \<open>Ui_Props\<close>: \<open>ui/src/main.rs\<close>; routes and start-up, and what they guarantee.
  \<^item> \<open>Node\<close>, \<open>Guard_Ui\<close>: guard and dashboard on one node; the lines one prints and the other reads.
  \<^item> \<open>Unit_Tests\<close>: the unit tests of the Rust sources, replayed on the model.

  \<^bold>\<open>What is shown.\<close> Here: a reported ban is enforced on the wire until it lapses, an unban takes
  effect at once, \<open>check\<close> agrees with the classifier, a ban survives every interleaving of other
  commands and packets, nobody is banned who was not named, the dashboard shows exactly the
  active bans, and the stored throttle never starves a source. In the component theories: both
  ban backends refine one abstract contract; the outcomes of each command on every branch; the
  rate bounds of the throttle, of connections and of messages; the heartbeat and the repair by
  the watchdog; what a WebSocket session forwards, holds and refuses; the values a configuration
  resolves to; the JSON, HTTP and frame round trips and bounds; and that the dashboard cannot run
  a command or open a file outside its few queries.

  \<^bold>\<open>Modelling choices.\<close> Strings are their UTF-8 bytes. Integers of Rust and C keep their width as
  words; a 64-bit machine is assumed for \<open>usize\<close>, and arithmetic that the release build wraps is
  wrapped. Numbers of the njs modules are rationals, exact below \<open>2 ^ 53\<close>; their white space is
  ASCII. Code outside the repository is a parameter: the kernel's maps and helpers, \<open>aya\<close>, \<open>tc\<close>,
  the clocks, the file system, child processes, \<open>awk\<close>, \<open>sort\<close>, \<open>flock\<close> and pathname expansion in the
  scripts, \<open>JSON.parse\<close> and the text of a number in njs; what a property needs of them is a locale
  or a named hypothesis. A callback of njs reads the clock once. \<open>echo\<close> prints its argument. No
  fuel is used: every loop is structural or has a termination proof. Theorems on the throttle
  assume that the products stay below \<open>2 ^ 64\<close>, since the C code wraps.

  \<^bold>\<open>Not modelled.\<close> Argument parsing by \<open>clap\<close>, socket timeouts and thread interleaving in the
  HTTP server (connections are served one after another on the state of the machine), the
  text of the page, the cargo directives of the build script, the wrapper \<open>guard/shield-ban\<close> (it
  runs the file backend with its result ignored and then \<open>fips-guard\<close>, both modelled), and the
  templates and presets of nginx and fail2ban, which hold no program logic.
\<close>

section \<open>From a command to the wire\<close>

lemma classifier_drops:
  assumes "packet_source K skb = Some k" "shield_bans m k = Some v" "ban_active v t"
  shows "shield_guard K skb t m = (TC_ACT_SHOT, bump ST_DROPPED_BAN m)"
  using assms by (simp add: shield_guard_def packet_source_def split: if_splits)

lemma classifier_spares:
  assumes "packet_source K skb = Some k" "live_part t (shield_bans m) k = None"
  shows "shield_stats (snd (shield_guard K skb t m)) ST_DROPPED_BAN = shield_stats m ST_DROPPED_BAN"
    and "(case shield_config m of None \<Rightarrow> True | Some cfg \<Rightarrow> rate_pps cfg = 0) \<Longrightarrow>
      shield_guard K skb t m = (TC_ACT_OK, bump ST_PASSED m)"
  using assms
  by (auto simp: shield_guard_def packet_source_def live_part_def split_beta bump_other_cases ST_defs
      split: option.splits if_splits)

text \<open>What a ban that succeeded left in the table.\<close>

lemma cmd_ban_entry:
  assumes "ban_table H ok view cap" "ok (world p)"
    and "bans_map H pin p = (Inr h, p)" "parse_v6 ip = Inr (Some a)"
    and "cmd_ban H pin ip seconds p = (Inr (), p')"
  shows "view (world p') h (table_key a) = Some (fst (ban_value H seconds p))"
proof -
  obtain v p1 where v: "ban_value H seconds p = (v, p1)" by fastforce
  obtain t p2 where t: "now_mono_ns H p1 = (t, p2)" by fastforce
  show ?thesis
  proof (cases "view (world p) h (table_key a) \<noteq> None \<or> card (dom (view (world p) h)) < cap h")
    case True
    then show ?thesis using ban_table.ban_room [OF assms(1-4) v] assms(5) v by auto
  next
    case False
    then have "view (world p) h (table_key a) = None" "cap h \<le> card (dom (view (world p) h))" by auto
    from ban_table.ban_sweep [OF assms(1-4) v t this] show ?thesis
      using assms(5) v by (auto split: if_splits)
  qed
qed

text \<open>A packet of the address \<open>a\<close>, and the machine of the examples with room in its table.\<close>

definition packet_of :: "ipv6addr \<Rightarrow> u16 \<times> u8 list" where
  "packet_of a = (0xDD86, replicate 8 0 @ octets a @ replicate 16 0)"

lemma packet_of_source: "length a = 8 \<Longrightarrow> packet_source plain_kern (packet_of a) = Some (table_key a)"
  by (simp add: packet_source_def load_saddr_def plain_kern_def packet_of_def ETH_P_IPV6_BE_def IP6_SADDR_OFF_def)

lemma demo_packet: "packet_source plain_kern (packet_of demo_addr) = Some (table_key demo_addr)"
  by (rule packet_of_source) (simp add: demo_addr_def)

lemma demo_absent: "k_view demo_world 0 (table_key demo_addr) = None"
  by (simp add: demo_view demo_order_def demo_addr_def octets_inj del: octets.simps)

lemma demo_ban_runs: "\<exists>p'. cmd_ban (kernel_host 4) ''/p'' ''fd00::7'' s demo_ps = (Inr (), p') \<and> k_ok (world p')"
proof -
  obtain v p1 where v: "ban_value (kernel_host 4) s demo_ps = (v, p1)" by fastforce
  have "card (dom (map_of demo_order)) = 2"
    by (simp add: card_dom_map_of demo_order_def octets_inj)
  then show ?thesis
    using kernel.ban_room [OF demo_ok demo_open demo_addr_v6 v] by (auto simp: k_cap_def demo_view)
qed

text \<open>C1. A ban that \<open>fips-guard ban\<close> reported is enforced: every packet of that address is
  dropped, for a permanent ban always, and otherwise until the requested seconds have passed
  on the monotonic clock since the command read it.\<close>

theorem ban_command_enforced:
  assumes "ban_table H ok view cap" "ok (world p)"
    and "bans_map H pin p = (Inr h, p)" "parse_v6 ip = Inr (Some a)"
    and "cmd_ban H pin ip seconds p = (Inr (), p')" "now_mono_ns H p = (t0, p1)"
    and "shield_bans m = view (world p') h" "packet_source K skb = Some (table_key a)"
    and "sint seconds \<le> 0 \<or> unat t < min (unat t0 + nat (sint seconds) * 1000000000) (2 ^ 64 - 1)"
  shows "shield_guard K skb t m = (TC_ACT_SHOT, bump ST_DROPPED_BAN m)"
proof -
  obtain v q where v: "ban_value H seconds p = (v, q)" by fastforce
  obtain e0 q2 where e: "now_epoch_s H p1 = (e0, q2)" by fastforce
  have "ban_active v t"
    using ban_value_spec [OF v assms(6) e] assms(9) by (auto split: if_splits)
  moreover have "shield_bans m (table_key a) = Some v"
    using cmd_ban_entry [OF assms(1-5)] v assms(7) by simp
  ultimately show ?thesis by (intro classifier_drops [OF assms(8)])
qed

theorem ban_command_enforced_witness:
  "\<exists>p'. cmd_ban (kernel_host 4) ''/p'' ''fd00::7'' 60 demo_ps = (Inr (), p')
     \<and> shield_guard plain_kern (packet_of demo_addr) 159999999999 (k_maps (world p'))
       = (TC_ACT_SHOT, bump ST_DROPPED_BAN (k_maps (world p')))"
proof -
  obtain p' where p': "cmd_ban (kernel_host 4) ''/p'' ''fd00::7'' 60 demo_ps = (Inr (), p')"
    using demo_ban_runs by blast
  have "shield_bans (k_maps (world p')) = k_view (world p') 0" by (rule view_bans)
  from ban_command_enforced [OF kernel.ban_table_axioms demo_ok demo_open demo_addr_v6 p' demo_now this demo_packet,
      of 159999999999]
  show ?thesis using p' by simp
qed

text \<open>C14. An unban takes effect at once: after it the classifier never counts a packet of that
  address as banned, and with the throttle off it passes.\<close>

theorem unban_command_releases:
  assumes "ban_table H ok view cap" "ok (world p)"
    and "bans_map H pin p = (Inr h, p)" "parse_v6 ip = Inr (Some a)"
    and "shield_bans m = view (world (snd (cmd_unban H pin ip p))) h" "packet_source K skb = Some (table_key a)"
  shows "fst (cmd_unban H pin ip p) = Inr ()
    \<and> shield_stats (snd (shield_guard K skb t m)) ST_DROPPED_BAN = shield_stats m ST_DROPPED_BAN
    \<and> ((case shield_config m of None \<Rightarrow> True | Some cfg \<Rightarrow> rate_pps cfg = 0) \<longrightarrow>
        shield_guard K skb t m = (TC_ACT_OK, bump ST_PASSED m))"
proof -
  obtain p' where p': "cmd_unban H pin ip p = (Inr (), p')"
      "view (world p') = (view (world p))(h := (view (world p) h)(table_key a := None))"
    using ban_table.unban_spec [OF assms(1-4)] by blast
  then have "live_part t (shield_bans m) (table_key a) = None"
    using assms(5) by (simp add: live_part_def)
  with p'(1) classifier_spares [OF assms(6) this] show ?thesis by simp
qed

theorem unban_command_releases_witness:
  "fst (cmd_unban (kernel_host 4) ''/p'' ''fd00::7'' demo_ps) = Inr ()
   \<and> shield_stats (snd (shield_guard plain_kern (packet_of demo_addr) 7
         (k_maps (world (snd (cmd_unban (kernel_host 4) ''/p'' ''fd00::7'' demo_ps)))))) ST_DROPPED_BAN
     = shield_stats (k_maps (world (snd (cmd_unban (kernel_host 4) ''/p'' ''fd00::7'' demo_ps)))) ST_DROPPED_BAN"
  using unban_command_releases [OF kernel.ban_table_axioms demo_ok demo_open demo_addr_v6 view_bans demo_packet]
  by blast

text \<open>C15. \<open>fips-guard check\<close> tells the truth about the wire: it exits with success exactly when
  the classifier, at the time the command read the clock, drops the packets of that address
  as banned.\<close>

theorem check_command_agrees:
  assumes "ban_table H ok view cap" "ok (world p)"
    and "bans_map H pin p = (Inr h, p)" "parse_v6 ip = Inr (Some a)" "now_mono_ns H p = (t, p1)"
    and "shield_bans m = view (world p) h" "packet_source K skb = Some (table_key a)"
    and "shield_stats m ST_DROPPED_BAN = Some n"
  shows "fst (guard_main H pin (Check ip) p) = SUCCESS \<longleftrightarrow>
    shield_stats (snd (shield_guard K skb t m)) ST_DROPPED_BAN = Some (n + 1)"
proof -
  let ?live = "live_part t (view (world p) h) (table_key a)"
  have "fst (cmd_check H pin ip p) = Inr (?live \<noteq> None)"
    using ban_table.check_spec [OF assms(1-5)] by auto
  then have "fst (guard_main H pin (Check ip) p) = (if ?live \<noteq> None then SUCCESS else FAILURE)"
    by (cases "cmd_check H pin ip p") (simp add: report_bool_def)
  moreover have "shield_stats (snd (shield_guard K skb t m)) ST_DROPPED_BAN = Some (n + 1)" if "?live \<noteq> None"
  proof -
    obtain v where "shield_bans m (table_key a) = Some v" "ban_active v t"
      using \<open>?live \<noteq> None\<close> assms(6) by (auto simp: live_part_def split: option.splits if_splits)
    from classifier_drops [OF assms(7) this] show ?thesis
      using assms(8) by (simp add: bump_other_cases)
  qed
  moreover have "shield_stats (snd (shield_guard K skb t m)) ST_DROPPED_BAN = Some n" if "?live = None"
    using classifier_spares(1) [OF assms(7)] that assms(6,8) by simp
  ultimately show ?thesis by (cases "?live = None") auto
qed

theorem check_command_agrees_witness:
  "(fst (guard_main (kernel_host 4) ''/p'' (Check ''fd00::7'') demo_ps) = SUCCESS) \<longleftrightarrow>
     shield_stats (snd (shield_guard plain_kern (packet_of demo_addr) 100000000000 (k_maps demo_world))) ST_DROPPED_BAN
     = Some (0 + 1)"
proof -
  have "shield_stats (k_maps demo_world) ST_DROPPED_BAN = Some 0"
    by (simp add: demo_world_def k_load_def ST_defs)
  moreover have "shield_bans (k_maps demo_world) = k_view (world demo_ps) 0" by (simp add: view_bans)
  ultimately show ?thesis
    using check_command_agrees [OF kernel.ban_table_axioms demo_ok demo_open demo_addr_v6 demo_now _ demo_packet, of "k_maps demo_world" 0 4]
    by blast
qed

section \<open>Bans over time\<close>



text \<open>C7. Nobody is banned who was not named: along any run in which no command bans the address, an
  address without an active entry never gets one, and no packet of it is counted as banned;
  with the throttle off every packet of it passes.\<close>

theorem no_collateral_ban:
  assumes "sys_run c pin K w es w'" "guard_inv c pin w"
    and "live_part (k_now w) (shield_bans (k_maps w)) (table_key a) = None"
    and "\<And>ip s code. Run (Ban ip s) code \<in> set es \<Longrightarrow> parse_v6 ip \<noteq> Inr (Some a)"
    and "packet_source K skb = Some (table_key a)"
  shows "live_part (k_now w') (shield_bans (k_maps w')) (table_key a) = None
    \<and> (\<forall>verdict w''. sys_step c pin K w' (Packet skb verdict) w'' \<longrightarrow>
         shield_stats (k_maps w'') ST_DROPPED_BAN = shield_stats (k_maps w') ST_DROPPED_BAN
         \<and> ((case shield_config (k_maps w') of None \<Rightarrow> True | Some cfg \<Rightarrow> rate_pps cfg = 0) \<longrightarrow> verdict = TC_ACT_OK))"
proof -
  have "\<not> guard_reads K e (Banned (table_key a) ttl)" if "e \<in> set es" for e ttl
    using assms(4) that table_key_inj
    by (cases "(K, e, Banned (table_key a) ttl)" rule: guard_reads.cases)
      (auto simp: on_node_def split: if_splits sum.splits option.splits)
  then have "banned (guard_abs w') (table_key a) = None"
    using guard_backend.backend_no_collateral [of c pin K w es w' "table_key a"] assms(1-3)
    by (simp add: sys_run_runs banned_guard_abs view_bans)
  then have none: "live_part (k_now w') (shield_bans (k_maps w')) (table_key a) = None"
    by (simp add: banned_guard_abs view_bans)
  show ?thesis
    using none classifier_spares [OF assms(5) none] by (auto elim!: sys_stepE)
qed

theorem no_collateral_ban_witness:
  "sys_run 4 ''/p'' plain_kern demo_world [Tick] demo_world \<and>
   live_part (k_now demo_world) (shield_bans (k_maps demo_world)) (table_key demo_addr) = None"
proof -
  have "live_part (k_now demo_world) (shield_bans (k_maps demo_world)) (table_key demo_addr) = None"
    using demo_absent by (simp add: live_part_def demo_view)
  from no_collateral_ban [OF demo_tick demo_guard_inv this _ demo_packet] demo_tick show ?thesis by simp
qed



section \<open>The dashboard reads the guard\<close>

lemma length_from_octets: "length (from_octets bs) = length bs div 2"
  by (induction bs rule: from_octets.induct) simp_all

lemma keys_of_map:
  assumes "distinct (map fst es)" "map_of es = live_part t T" "(k, v) \<in> set es"
  shows "k \<in> dom T"
  using assms by (metis dom_live_part domI map_of_is_SomeI subsetD)

text \<open>C29. The bans on the dashboard are the bans of the guard: what the dashboard reads from
  \<open>list\<close> is one record for each entry of the table that is active, with the printed address and
  the wall-clock end of the ban, and no other.\<close>

theorem dashboard_shows_bans:
  assumes "ban_table H ok view cap" "ok (world p)" "bans_map H pin p = (Inr h, p)" "stdout p = []"
    and "now_mono_ns H p = (t, p1)" "now_mono_ns H (snd (prune_expired H h p)) = (t', p2)" "t \<le> t'"
    and "\<And>k. k \<in> dom (view (world p) h) \<Longrightarrow> length (addr_b k) = 16"
    and "exec E bin [''list''] w = (Inr out, w')" "success out" "utf8_valid bin"
    and "out_bytes out = print_lines (stdout (snd (cmd_list H pin p)))"
  shows "\<exists>es. distinct (map fst es) \<and> map_of es = live_part t' (view (world p) h)
    \<and> bans E bin w = (Inr (map (\<lambda>(k, v). \<lparr>ban_addr = ipv6_to_string (from_octets (addr_b k)),
         ban_until = expires_epoch_s v\<rparr>) es), w')"
proof -
  obtain es p' where es: "cmd_list H pin p = (Inr (), p')" "distinct (map fst es)"
      "map_of es = live_part t' (view (world p) h)"
      "stdout p' = stdout p @ map (\<lambda>(k, v). ban_line (from_octets (addr_b k), expires_epoch_s v)) es"
    using ban_table.list_spec [OF assms(1-3,5-7)] by blast
  let ?bs = "map (\<lambda>(k, v). (from_octets (addr_b k), expires_epoch_s v)) es"
  have "length a = 8" if "(a, u) \<in> set ?bs" for a u
    using that keys_of_map [OF es(2,3)] assms(8) by (auto simp: length_from_octets)
  moreover have "out_bytes out = print_lines (map ban_line ?bs)"
    using assms(4,12) es(1,4) by (simp add: comp_def split_def)
  ultimately have "bans E bin w = (Inr (map (\<lambda>(a, u). \<lparr>ban_addr = ipv6_to_string a, ban_until = u\<rparr>) ?bs), w')"
    using bans_reads_lines [OF assms(9-11)] by blast
  then show ?thesis
    using es(2,3) by (intro exI [of _ es]) (simp add: comp_def split_def)
qed

lemma demo_keys: "k \<in> dom (k_view (world demo_ps) 0) \<Longrightarrow> length (addr_b k) = 16"
  by (auto simp: demo_view demo_order_def split: if_splits)

lemma demo_exec_list:
  "\<exists>w. exec (node_env 2 ''/p'') ''shield-ban'' [''list''] demo_node
     = (Inr \<lparr>success = True, status_text = ''exit status: 1'',
            out_bytes = print_lines (stdout (snd (cmd_list (kernel_host 2) ''/p'' demo_ps))), err_bytes = []\<rparr>, w)"
  using demo_bans_exec demo_list by fastforce

theorem dashboard_shows_bans_witness:
  "\<exists>es w'. map_of es = live_part 100000000000 (map_of demo_order)
    \<and> bans (node_env 2 ''/p'') ''shield-ban'' demo_node
      = (Inr (map (\<lambda>(k, v). \<lparr>ban_addr = ipv6_to_string (from_octets (addr_b k)), ban_until = expires_epoch_s v\<rparr>) es), w')"
proof -
  obtain out w' where ex: "exec (node_env 2 ''/p'') ''shield-ban'' [''list''] demo_node = (Inr out, w')" "success out"
      "out_bytes out = print_lines (stdout (snd (cmd_list (kernel_host 2) ''/p'' demo_ps)))"
    using demo_exec_list by (metis cmd_output.select_convs(1,3))
  obtain q where now: "now_mono_ns (kernel_host 2) (snd (prune_expired (kernel_host 2) 0 demo_ps)) = (100000000000, q)"
    by (simp add: kernel_now prune_expired_def sys_def collect_expired_Inr k_now_def k_mono_remove_keys)
  have out: "stdout demo_ps = []" by (simp add: demo_ps_def)
  have bin: "utf8_valid ''shield-ban''" by simp
  show ?thesis
    using dashboard_shows_bans [OF kernel.ban_table_axioms demo_ok demo_open out demo_now now order_refl demo_keys ex(1,2) bin ex(3)]
    by (auto simp: demo_view)
qed


text \<open>The counters of the example machine, one CPU with all counters at zero.\<close>

definition zero_stats :: "kworld \<Rightarrow> bool" where
  "zero_stats w \<longleftrightarrow> shield_stats (k_maps w) = (\<lambda>i. if i < ST_COUNT then Some 0 else None)"

lemma zero_stats_frame: "host_frame (kernel_host c) zero_stats"
  by unfold_locales
    (auto simp: kernel_host_def k_get_def k_tc_def k_load_def zero_stats_def Let_def split: option.split)


section \<open>The throttle never starves\<close>

text \<open>C34. The configuration the CLI stores never blackholes a source: with any rate above zero a
  source that is not banned and has been quiet for a second gets its packet through, as long
  as the arithmetic stays within 64 bits.\<close>

theorem throttle_never_starves:
  assumes "shield_config m = Some (effective_config rate burst)" "rate > 0"
    and "unat burst * 1000 < 2 ^ 64" "packet_source K skb = Some src"
    and "live_part t (shield_bans m) src = None"
    and "\<And>b. shield_throttle m src = Some b \<Longrightarrow> last_ns b \<le> t \<and> 1000 \<le> ms_between (last_ns b) t
        \<and> unat (tokens_milli b) + unat rate * ms_between (last_ns b) t < 2 ^ 64"
  shows "fst (shield_guard K skb t m) = TC_ACT_OK"
proof -
  let ?cfg = "effective_config rate burst"
  have rate: "rate_pps ?cfg = rate" "rate \<noteq> 0" using assms(2) by (auto simp: effective_config_def)
  have cap: "1000 \<le> burst_pkts ?cfg * 1000"
  proof (cases "burst = 0")
    case True
    with assms(2) show ?thesis by (simp add: effective_config_def)
  next
    case False
    then have "0 < unat burst" by (simp add: unat_gt_0)
    then have "1000 \<le> unat (burst * 1000)"
      using assms(3) by (simp add: unat_word_ariths)
    with False show ?thesis by (simp add: effective_config_def word_le_nat_alt)
  qed
  have go: "fst (throttle K ?cfg src t m)"
  proof (cases "shield_throttle m src")
    case None
    then show ?thesis by (simp add: throttle_def)
  next
    case (Some b)
    let ?e = "(t - last_ns b) div 1000000"
    have b: "last_ns b \<le> t" "1000 \<le> ms_between (last_ns b) t"
        "unat (tokens_milli b) + unat rate * ms_between (last_ns b) t < 2 ^ 64"
      using assms(6) [OF Some] by auto
    have e: "unat ?e = ms_between (last_ns b) t" using b(1) by (simp add: unat_div unat_sub)
    have ne: "?e \<noteq> 0" using e b(2) by auto
    have "unat (?e * rate) = unat ?e * unat rate"
      using b(3) e by (simp add: unat_word_ariths mult.commute)
    moreover have "1 * 1000 \<le> unat rate * unat ?e"
      using b(2) e rate(2) by (intro mult_le_mono) (auto simp: Suc_le_eq unat_gt_0)
    ultimately have "1000 \<le> unat (tokens_milli b + ?e * rate)"
      using b(3) e by (simp add: unat_word_ariths mult.commute)
    then have "1000 \<le> tokens_milli b + ?e * rate" by (simp add: word_le_nat_alt)
    then have "\<not> tokens_milli (refill ?cfg t b) < 1000"
      using ne cap by (simp add: refill_def rate Let_def not_less)
    then show ?thesis by (simp add: throttle_def Some Let_def)
  qed
  have "\<not> (case shield_bans m src of None \<Rightarrow> False | Some v \<Rightarrow> ban_active v t)"
    using assms(5) by (auto simp: live_part_def split: option.splits if_splits)
  then show ?thesis
    using assms(1,4) rate go by (auto simp: shield_guard_def packet_source_def split_beta split: if_splits)
qed

theorem throttle_never_starves_witness:
  "fst (shield_guard plain_kern (packet_of demo_addr) 2000000000
      \<lparr>shield_bans = Map.empty, shield_throttle = [table_key demo_addr \<mapsto> \<lparr>tokens_milli = 0, last_ns = 0\<rparr>],
       shield_config = Some (effective_config 1 0), shield_stats = (\<lambda>_. Some 0)\<rparr>) = TC_ACT_OK"
  by (rule throttle_never_starves [OF _ _ _ demo_packet]) (auto simp: live_part_def)

end
